(* ===== verification/Js_Prelude.thy ===== *)
theory Js_Prelude
  imports Complex_Main "HOL-Library.AList" "HOL-Library.Multiset" "HOL-Library.Sublist"
begin

text \<open>
  The part of JavaScript that the web client under \<^verbatim>\<open>src/ui/src\<close> is written in: its values,
  its objects as insertion-ordered lists of properties, the coercions \<^verbatim>\<open>||\<close>, \<^verbatim>\<open>??\<close> and
  truthiness, and the stable sort of \<^verbatim>\<open>Array.prototype.sort\<close>.

  \<^item> A number is \<open>Fin r\<close> with an exact rational \<open>r\<close>, or one of the two infinities, or
    \<open>NaN\<close>. The rounding of IEEE doubles is not modelled: timestamps, counters and
    indices are integers below \<open>2 ^ 53\<close>, where doubles are exact.
  \<^item> A string is a list of code units, each one a \<^typ>\<open>char\<close>: the alphabet of the
    model is the 256 code units of an 8-bit page. The ellipsis, the middle dot and
    the dash that the client prints are one code unit each, as in UTF-16.
  \<^item> An object is the list of its own properties in the order of insertion; inherited
    properties (of \<^verbatim>\<open>Object.prototype\<close>) are not modelled.
\<close>

named_theorems js_value_simps \<open>the coercions and tests of JavaScript values\<close>
named_theorems js_obj_simps \<open>lookups in updated objects\<close>

section \<open>Numbers and values\<close>

datatype jsnum = Fin rat | PInf | NInf | NaN

datatype jsval =
    is_JUndef: JUndef
  | is_JNull: JNull
  | is_JBool: JBool bool
  | is_JNum: JNum jsnum
  | is_JStr: JStr string
  | is_JArr: JArr "jsval list"
  | is_JObj: JObj "(string \<times> jsval) list"

type_synonym 'a jsobj = "(string \<times> 'a) list"

definition is_finite :: "jsnum \<Rightarrow> bool" where
  "is_finite n = (case n of Fin _ \<Rightarrow> True | _ \<Rightarrow> False)"

text \<open>The relational operators: every comparison with \<open>NaN\<close> is false.\<close>

definition num_lt :: "jsnum \<Rightarrow> jsnum \<Rightarrow> bool" where
  "num_lt a b = (case (a, b) of
     (Fin x, Fin y) \<Rightarrow> x < y
   | (Fin _, PInf) \<Rightarrow> True
   | (NInf, Fin _) \<Rightarrow> True
   | (NInf, PInf) \<Rightarrow> True
   | _ \<Rightarrow> False)"

definition num_le :: "jsnum \<Rightarrow> jsnum \<Rightarrow> bool" where
  "num_le a b = (a \<noteq> NaN \<and> b \<noteq> NaN \<and> (a = b \<or> num_lt a b))"

definition num_eq :: "jsnum \<Rightarrow> jsnum \<Rightarrow> bool" where
  "num_eq a b = (a \<noteq> NaN \<and> a = b)"

lemma is_finite_simps [simp]:
  "is_finite (Fin r)" "\<not> is_finite PInf" "\<not> is_finite NInf" "\<not> is_finite NaN"
  by (simp_all add: is_finite_def)

lemma is_finite_iff: "is_finite n \<longleftrightarrow> (\<exists>r. n = Fin r)"
  by (cases n) auto

lemma num_lt_Fin [simp]: "num_lt (Fin x) (Fin y) \<longleftrightarrow> x < y"
  by (simp add: num_lt_def)

lemma num_le_Fin [simp]: "num_le (Fin x) (Fin y) \<longleftrightarrow> x \<le> y"
  by (auto simp: num_le_def)

lemma num_eq_Fin [simp]: "num_eq (Fin x) (Fin y) \<longleftrightarrow> x = y"
  by (simp add: num_eq_def)

lemma num_le_refl: "a \<noteq> NaN \<Longrightarrow> num_le a a"
  by (simp add: num_le_def)

lemma num_le_total: "a \<noteq> NaN \<Longrightarrow> b \<noteq> NaN \<Longrightarrow> num_le a b \<or> num_le b a"
  by (cases a; cases b) (auto simp: num_le_def num_lt_def)

lemma num_le_trans: "num_le a b \<Longrightarrow> num_le b c \<Longrightarrow> num_le a c"
  by (cases a; cases b; cases c) (auto simp: num_le_def num_lt_def)

text \<open>
  \<^verbatim>\<open>!!v\<close>, \<^verbatim>\<open>a || b\<close>, \<^verbatim>\<open>a ?? b\<close> and \<^verbatim>\<open>typeof v === "object"\<close> (which holds of
  \<^verbatim>\<open>null\<close> and of arrays too).
\<close>

fun truthy :: "jsval \<Rightarrow> bool" where
  "truthy JUndef = False"
| "truthy JNull = False"
| "truthy (JBool b) = b"
| "truthy (JNum n) = (n \<noteq> Fin 0 \<and> n \<noteq> NaN)"
| "truthy (JStr s) = (s \<noteq> [])"
| "truthy (JArr _) = True"
| "truthy (JObj _) = True"

definition js_or :: "jsval \<Rightarrow> jsval \<Rightarrow> jsval" where
  [js_value_simps]: "js_or a b = (if truthy a then a else b)"

definition nullish :: "jsval \<Rightarrow> bool" where
  [js_value_simps]: "nullish v = (v = JUndef \<or> v = JNull)"

definition js_coalesce :: "jsval \<Rightarrow> jsval \<Rightarrow> jsval" where
  [js_value_simps]: "js_coalesce a b = (if nullish a then b else a)"

definition typeof_object :: "jsval \<Rightarrow> bool" where
  [js_value_simps]: "typeof_object v = (v = JNull \<or> is_JArr v \<or> is_JObj v)"

text \<open>\<^verbatim>\<open>a || b\<close> on values whose static type is string, and \<^verbatim>\<open>a ?? b\<close> on optional results.\<close>

definition str_or :: "string \<Rightarrow> string \<Rightarrow> string" where
  [js_value_simps]: "str_or a b = (if a = [] then b else a)"

fun opt_or :: "'a option \<Rightarrow> 'a \<Rightarrow> 'a" where
  "opt_or None d = d"
| "opt_or (Some x) d = x"

fun opt_orelse :: "'a option \<Rightarrow> 'a option \<Rightarrow> 'a option" where
  "opt_orelse None y = y"
| "opt_orelse (Some x) y = Some x"

lemma truthy_str_or: "str_or a b = [] \<longleftrightarrow> a = [] \<and> b = []"
  by (simp add: str_or_def)

text \<open>The \<^verbatim>\<open>typeof v === "string" ? v : undefined\<close> family: a typed view of a value.\<close>

fun as_str :: "jsval \<Rightarrow> string option" where
  "as_str (JStr s) = Some s"
| "as_str _ = None"

fun as_num :: "jsval \<Rightarrow> jsnum option" where
  "as_num (JNum n) = Some n"
| "as_num _ = None"

fun as_bool :: "jsval \<Rightarrow> bool option" where
  "as_bool (JBool b) = Some b"
| "as_bool _ = None"

fun as_arr :: "jsval \<Rightarrow> jsval list option" where
  "as_arr (JArr xs) = Some xs"
| "as_arr _ = None"

fun as_obj :: "jsval \<Rightarrow> jsval jsobj option" where
  "as_obj (JObj ps) = Some ps"
| "as_obj _ = None"

lemma as_str_Some [simp]: "as_str v = Some s \<longleftrightarrow> v = JStr s"
  by (cases v) auto

lemma as_num_Some [simp]: "as_num v = Some n \<longleftrightarrow> v = JNum n"
  by (cases v) auto

lemma as_bool_Some [simp]: "as_bool v = Some b \<longleftrightarrow> v = JBool b"
  by (cases v) auto

lemma as_arr_Some [simp]: "as_arr v = Some xs \<longleftrightarrow> v = JArr xs"
  by (cases v) auto

lemma as_obj_Some [simp]: "as_obj v = Some ps \<longleftrightarrow> v = JObj ps"
  by (cases v) auto

section \<open>Objects\<close>

text \<open>
  Reading a property gives \<^verbatim>\<open>undefined\<close> where there is none; writing keeps the position of
  an existing property and appends a new one. \<^verbatim>\<open>Object.keys\<close> and \<^verbatim>\<open>Object.entries\<close> list the
  canonical array indices first, in ascending order, then the other keys in the order
  of insertion.
\<close>

definition js_digit :: "char \<Rightarrow> bool" where
  "js_digit c = (48 \<le> (of_char c :: int) \<and> (of_char c :: int) \<le> 57)"

definition digit_val :: "char \<Rightarrow> int" where
  "digit_val c = of_char c - 48"

definition digits_val :: "string \<Rightarrow> int" where
  "digits_val s = foldl (\<lambda>n c. 10 * n + digit_val c) 0 s"

definition array_index :: "string \<Rightarrow> nat option" where
  "array_index s =
     (if s \<noteq> [] \<and> list_all js_digit s \<and> (s = ''0'' \<or> hd s \<noteq> CHR ''0'')
         \<and> digits_val s < 4294967295
      then Some (nat (digits_val s)) else None)"

definition js_entries :: "'a jsobj \<Rightarrow> 'a jsobj" where
  "js_entries ps =
     sort_key (\<lambda>p. the (array_index (fst p))) (filter (\<lambda>p. array_index (fst p) \<noteq> None) ps)
     @ filter (\<lambda>p. array_index (fst p) = None) ps"

definition js_keys :: "'a jsobj \<Rightarrow> string list" where
  "js_keys ps = map fst (js_entries ps)"

fun obj_get :: "jsval jsobj \<Rightarrow> string \<Rightarrow> jsval" where
  "obj_get ps k = (case map_of ps k of None \<Rightarrow> JUndef | Some v \<Rightarrow> v)"

declare obj_get.simps [simp del]

abbreviation obj_put :: "'a jsobj \<Rightarrow> string \<Rightarrow> 'a \<Rightarrow> 'a jsobj" where
  "obj_put ps k v \<equiv> AList.update k v ps"

abbreviation obj_del :: "'a jsobj \<Rightarrow> string \<Rightarrow> 'a jsobj" where
  "obj_del ps k \<equiv> AList.delete k ps"

abbreviation wf_obj :: "'a jsobj \<Rightarrow> bool" where
  "wf_obj ps \<equiv> distinct (map fst ps)"

text \<open>
  The property read \<^verbatim>\<open>v.k\<close> and the test \<^verbatim>\<open>k in v\<close> on a value that \<^verbatim>\<open>typeof\<close> calls an
  object and that is not \<^verbatim>\<open>null\<close>: an array has its indices and \<^verbatim>\<open>length\<close>.
\<close>

fun js_get :: "jsval \<Rightarrow> string \<Rightarrow> jsval" where
  "js_get (JObj ps) k = obj_get ps k"
| "js_get (JArr xs) k =
     (if k = ''length'' then JNum (Fin (of_nat (length xs)))
      else case array_index k of
             None \<Rightarrow> JUndef
           | Some i \<Rightarrow> if i < length xs then xs ! i else JUndef)"
| "js_get _ k = JUndef"

fun js_has :: "jsval \<Rightarrow> string \<Rightarrow> bool" where
  "js_has (JObj ps) k = (map_of ps k \<noteq> None)"
| "js_has (JArr xs) k =
     (k = ''length'' \<or> (case array_index k of None \<Rightarrow> False | Some i \<Rightarrow> i < length xs))"
| "js_has _ k = False"

lemma mset_js_entries [simp]: "mset (js_entries ps) = mset ps"
  by (simp add: js_entries_def)

lemma set_js_entries [simp]: "set (js_entries ps) = set ps"
  by (metis mset_js_entries set_mset_mset)

lemma length_js_entries [simp]: "length (js_entries ps) = length ps"
  by (metis mset_js_entries size_mset)

lemma wf_obj_js_entries [simp]: "wf_obj (js_entries ps) \<longleftrightarrow> wf_obj ps"
  by (metis mset_js_entries mset_eq_imp_distinct_iff mset_map)

lemma set_js_keys [simp]: "set (js_keys ps) = fst ` set ps"
  by (simp add: js_keys_def)

lemma length_js_keys [simp]: "length (js_keys ps) = length ps"
  by (simp add: js_keys_def)

lemma distinct_js_keys [simp]: "distinct (js_keys ps) \<longleftrightarrow> wf_obj ps"
  by (simp add: js_keys_def)

lemma map_of_js_entries [simp]: "wf_obj ps \<Longrightarrow> map_of (js_entries ps) = map_of ps"
  by (rule map_of_inject_set [THEN iffD2]) simp_all

text \<open>Without index-like keys the listing is the insertion order.\<close>

lemma js_entries_plain:
  "(\<And>k. k \<in> fst ` set ps \<Longrightarrow> array_index k = None) \<Longrightarrow> js_entries ps = ps"
proof -
  assume a: "\<And>k. k \<in> fst ` set ps \<Longrightarrow> array_index k = None"
  then have "filter (\<lambda>p. array_index (fst p) \<noteq> None) ps = []"
    by (auto simp: filter_empty_conv)
  moreover have "filter (\<lambda>p. array_index (fst p) = None) ps = ps"
    using a by (auto simp: filter_id_conv)
  ultimately show ?thesis by (simp add: js_entries_def)
qed

lemma obj_get_empty [simp, js_obj_simps]: "obj_get [] k = JUndef"
  by (simp add: obj_get.simps)

lemma obj_get_Cons [simp, js_obj_simps]:
  "obj_get ((k', v) # ps) k = (if k = k' then v else obj_get ps k)"
  by (simp add: obj_get.simps)

lemma obj_get_put [js_obj_simps]:
  "obj_get (obj_put ps k v) k' = (if k' = k then v else obj_get ps k')"
  by (simp add: obj_get.simps update_conv')

lemma obj_get_del [js_obj_simps]:
  "obj_get (obj_del ps k) k' = (if k' = k then JUndef else obj_get ps k')"
  by (simp add: obj_get.simps delete_conv')

lemma obj_get_not_in: "k \<notin> fst ` set ps \<Longrightarrow> obj_get ps k = JUndef"
  by (metis map_of_eq_None_iff obj_get.simps option.simps(4))

lemma obj_get_js_entries [simp]: "wf_obj ps \<Longrightarrow> obj_get (js_entries ps) k = obj_get ps k"
  by (simp add: obj_get.simps)

text \<open>Objects built by a loop of assignments, and cut down by a loop of deletions.\<close>

definition obj_put_all :: "'a jsobj \<Rightarrow> 'a jsobj \<Rightarrow> 'a jsobj" where
  "obj_put_all ps qs = foldl (\<lambda>ps q. obj_put ps (fst q) (snd q)) ps qs"

definition obj_del_all :: "'a jsobj \<Rightarrow> string list \<Rightarrow> 'a jsobj" where
  "obj_del_all ps ks = foldl (\<lambda>ps k. obj_del ps k) ps ks"

lemma update_notin: "k \<notin> fst ` set ps \<Longrightarrow> AList.update k v ps = ps @ [(k, v)]"
  by (induction ps) auto

lemma map_fst_update: "k \<in> fst ` set ps \<Longrightarrow> map fst (AList.update k v ps) = map fst ps"
  by (induction ps) auto

lemma list_all_put: "list_all P ps \<Longrightarrow> P (k, v) \<Longrightarrow> list_all P (obj_put ps k v)"
  by (induction ps) auto

lemma ball_keys: "(\<forall>k\<in>fst ` set ps. P k) \<longleftrightarrow> (\<forall>k v. map_of ps k = Some v \<longrightarrow> P k)"
  by (metis map_of_eq_None_iff not_None_eq)

lemma obj_put_all_append:
  "wf_obj qs \<Longrightarrow> fst ` set qs \<inter> fst ` set ps = {} \<Longrightarrow> obj_put_all ps qs = ps @ qs"
proof (induction qs arbitrary: ps)
  case (Cons q qs)
  have "obj_put_all ps (q # qs) = obj_put_all (ps @ [q]) qs"
    using Cons.prems by (simp add: obj_put_all_def update_notin)
  also have "\<dots> = ps @ q # qs" using Cons by (subst Cons.IH) auto
  finally show ?case .
qed (simp add: obj_put_all_def)

lemma obj_put_all_fresh [simp]: "wf_obj qs \<Longrightarrow> obj_put_all [] qs = qs"
  by (simp add: obj_put_all_append)

lemma wf_obj_put: "wf_obj ps \<Longrightarrow> wf_obj (obj_put ps k v)"
  by (rule distinct_update)

lemma wf_obj_put_all [simp]: "wf_obj ps \<Longrightarrow> wf_obj (obj_put_all ps qs)"
  unfolding obj_put_all_def by (induction qs arbitrary: ps) (simp_all add: distinct_update)

lemma update_same: "map_of ps k = Some v \<Longrightarrow> AList.update k v ps = ps"
  by (induction ps) (auto split: if_splits)

lemma obj_put_all_same:
  "(\<And>k v. (k, v) \<in> set qs \<Longrightarrow> map_of ps k = Some v) \<Longrightarrow> obj_put_all ps qs = ps"
proof (induction qs)
  case (Cons q qs)
  have "map_of ps (fst q) = Some (snd q)" using Cons.prems by (cases q) simp
  with Cons show ?case by (simp add: obj_put_all_def update_same)
qed (simp add: obj_put_all_def)

lemma map_of_obj_put_all:
  "wf_obj qs \<Longrightarrow> map_of (obj_put_all ps qs) k = (case map_of qs k of Some v \<Rightarrow> Some v | None \<Rightarrow> map_of ps k)"
  unfolding obj_put_all_def
proof (induction qs arbitrary: ps)
  case (Cons q qs)
  then have "map_of qs (fst q) = None" by (simp add: map_of_eq_None_iff)
  with Cons show ?case by (cases q) (auto simp: update_conv' split: option.split)
qed simp

text \<open>A loop over the entries of an object in which each step changes only its own key.\<close>

lemma map_of_foldl_keyed:
  assumes other: "\<And>m k' v. k \<noteq> k' \<Longrightarrow> map_of (f m (k', v)) k = map_of m k"
    and own: "\<And>m m' v. map_of m k = map_of m' k \<Longrightarrow> map_of (f m (k, v)) k = map_of (f m' (k, v)) k"
    and "wf_obj es"
  shows "map_of (foldl f m es) k = (case map_of es k of None \<Rightarrow> map_of m k | Some v \<Rightarrow> map_of (f m (k, v)) k)"
  using assms(3)
proof (induction es arbitrary: m)
  case (Cons e es)
  obtain k' v' where e: "e = (k', v')" by (cases e)
  show ?case
  proof (cases "k = k'")
    case True
    then have "map_of es k = None" using Cons.prems e by (simp add: map_of_eq_None_iff)
    with True Cons e show ?thesis by simp
  next
    case False
    then have "map_of (f m (k', v')) k = map_of m k" by (rule other)
    with own [OF this] False Cons e show ?thesis by (auto split: option.split)
  qed
qed simp

lemma delete_filter: "AList.delete k ps = filter (\<lambda>p. fst p \<noteq> k) ps"
  by (auto simp: AList.delete_eq intro: filter_cong)

lemma obj_del_all_filter: "obj_del_all ps ks = filter (\<lambda>p. fst p \<notin> set ks) ps"
  unfolding obj_del_all_def
  by (induction ks arbitrary: ps) (auto simp: delete_filter intro: filter_cong)

lemma wf_obj_filter [simp]: "wf_obj ps \<Longrightarrow> wf_obj (filter P ps)"
  by (simp add: distinct_map_filter)

lemma map_of_filter_wf:
  "wf_obj ps \<Longrightarrow> map_of (filter P ps) k =
     (case map_of ps k of Some v \<Rightarrow> if P (k, v) then Some v else None | None \<Rightarrow> None)"
  by (induction ps) (auto split: option.split simp: map_of_eq_None_iff image_iff dest: map_of_SomeD)

lemma js_entries_listed:
  assumes "\<And>p. p \<in> set as \<Longrightarrow> array_index (fst p) \<noteq> None"
    and "sorted (map (\<lambda>p. the (array_index (fst p))) as)"
    and "\<And>p. p \<in> set bs \<Longrightarrow> array_index (fst p) = None"
  shows "js_entries (as @ bs) = as @ bs"
proof -
  have "filter (\<lambda>p. array_index (fst p) \<noteq> None) as = as" "filter (\<lambda>p. array_index (fst p) = None) bs = bs"
    using assms(1,3) by (simp_all add: filter_id_conv del: not_None_eq)
  moreover have "filter (\<lambda>p. array_index (fst p) \<noteq> None) bs = []" "filter (\<lambda>p. array_index (fst p) = None) as = []"
    using assms(1,3) by (simp_all add: filter_empty_conv del: not_None_eq)
  ultimately show ?thesis
    using assms(2) by (simp add: js_entries_def sort_key_id_if_sorted del: not_None_eq)
qed

lemma js_entries_filter_idem: "js_entries (filter P (js_entries ps)) = filter P (js_entries ps)"
  unfolding js_entries_def [of ps] filter_append
  by (rule js_entries_listed) (auto simp: sorted_filter)

lemma js_entries_idem [simp]: "js_entries (js_entries ps) = js_entries ps"
  using js_entries_filter_idem [of "\<lambda>_. True"] by simp

text \<open>
  Two objects compared the way the client does it: equal numbers of keys, and every key of
  the first found in the second with a related value.
\<close>

lemma card_dom_wf: "wf_obj m \<Longrightarrow> card (dom (map_of m)) = length m"
  by (metis distinct_card dom_map_of_conv_image_fst length_map list.set_map)

lemma objects_related_iff:
  assumes "wf_obj a" "wf_obj b"
  shows "length a = length b \<and> (\<forall>k v. map_of a k = Some v \<longrightarrow> (\<exists>w. map_of b k = Some w \<and> R v w))
    \<longleftrightarrow> (\<forall>k. rel_option R (map_of a k) (map_of b k))" (is "?l \<longleftrightarrow> ?r")
proof
  assume l: ?l
  have "dom (map_of a) = dom (map_of b)"
  proof (rule card_subset_eq)
    show "card (dom (map_of a)) = card (dom (map_of b))" using l assms by (simp add: card_dom_wf)
  qed (use l in \<open>auto simp: finite_dom_map_of\<close>)
  then have d: "map_of a k = None \<longleftrightarrow> map_of b k = None" for k by (metis domIff)
  show ?r
  proof
    fix k show "rel_option R (map_of a k) (map_of b k)"
      using l d [of k] by (cases "map_of a k") force+
  qed
next
  assume r: ?r
  have "map_of a k = None \<longleftrightarrow> map_of b k = None" for k
    using r [rule_format, of k] by (auto simp: option.rel_sel)
  then have "dom (map_of a) = dom (map_of b)" by (auto simp: dom_def)
  then have "length a = length b" using assms by (metis card_dom_wf)
  with r show ?l by (metis option_rel_Some1)
qed

text \<open>
  \<^verbatim>\<open>a === b\<close> on primitive values. Two arrays or objects are equal only when they are the
  same reference; values that reach the client through separate parses never are, and the
  model compares only such values.
\<close>

fun strict_eq :: "jsval \<Rightarrow> jsval \<Rightarrow> bool" where
  "strict_eq (JNum a) (JNum b) = num_eq a b"
| "strict_eq (JArr _) _ = False"
| "strict_eq (JObj _) _ = False"
| "strict_eq a b = (a = b)"

lemma strict_eq_or_str:
  "is_JStr x \<or> x = JUndef \<Longrightarrow> is_JStr y \<or> y = JUndef \<Longrightarrow>
   strict_eq (js_or x (JStr [])) (js_or y (JStr [])) \<longleftrightarrow> js_or x (JStr []) = js_or y (JStr [])"
  by (cases x; cases y) (simp_all add: js_or_def)

lemma strict_eq_or_num:
  "is_JNum x \<or> x = JUndef \<Longrightarrow> is_JNum y \<or> y = JUndef \<Longrightarrow>
   strict_eq (js_or x (JNum (Fin 0))) (js_or y (JNum (Fin 0)))
     \<longleftrightarrow> js_or x (JNum (Fin 0)) = js_or y (JNum (Fin 0))"
  by (cases x; cases y) (simp_all add: js_or_def num_eq_def)

text \<open>
  The comparison of two tables of records that decides whether one is written back: the
  client tests, key by key, that two entries show the same thing.
\<close>

definition same_entries :: "(jsval \<Rightarrow> jsval \<Rightarrow> bool) \<Rightarrow> jsval jsobj \<Rightarrow> jsval jsobj \<Rightarrow> bool" where
  "same_entries same a b \<longleftrightarrow> length (js_keys a) = length (js_keys b) \<and>
     list_all (\<lambda>key. same (obj_get a key) (obj_get b key)) (js_keys a)"

locale entry_comparison =
  fixes same :: "jsval \<Rightarrow> jsval \<Rightarrow> bool" and view :: "jsval \<Rightarrow> 'v" and typed :: "jsval \<Rightarrow> bool"
  assumes same_iff: "typed v \<Longrightarrow> typed w \<Longrightarrow> same v w \<longleftrightarrow> view v = view w"
    and same_missing: "typed v \<Longrightarrow> \<not> same v JUndef"
begin

lemma same_entries_iff:
  assumes wf: "wf_obj a" "wf_obj b" and ty: "list_all (\<lambda>e. typed (snd e)) a" "list_all (\<lambda>e. typed (snd e)) b"
  shows "same_entries same a b \<longleftrightarrow> (\<forall>k. map_option view (map_of a k) = map_option view (map_of b k))"
proof -
  have t: "typed v" if "map_of m k = Some v" "list_all (\<lambda>e. typed (snd e)) m" for m k v
    using that by (auto simp: list_all_iff dest!: map_of_SomeD)
  have "same (obj_get a k) (obj_get b k) \<longleftrightarrow> (\<exists>w. map_of b k = Some w \<and> view v = view w)" if "map_of a k = Some v" for k v
    using that t [OF that ty(1)] t [OF _ ty(2), of k] same_missing
    by (cases "map_of b k") (auto simp: obj_get.simps same_iff)
  then have "same_entries same a b \<longleftrightarrow> length a = length b \<and>
      (\<forall>k v. map_of a k = Some v \<longrightarrow> (\<exists>w. map_of b k = Some w \<and> view v = view w))"
    unfolding same_entries_def list_all_iff set_js_keys length_js_keys ball_keys by blast
  also have "\<dots> \<longleftrightarrow> (\<forall>k. rel_option (\<lambda>v w. view v = view w) (map_of a k) (map_of b k))"
    by (rule objects_related_iff [OF wf])
  also have "\<dots> \<longleftrightarrow> (\<forall>k. map_option view (map_of a k) = map_option view (map_of b k))"
    by (simp add: option.rel_map(2) option.rel_eq [symmetric] option.rel_map)
  finally show ?thesis .
qed

end

section \<open>Array.prototype.sort\<close>

text \<open>
  The sort of JavaScript is stable; \<open>le a b\<close> stands for a comparator result of at most 0.
  A stable sort by a consistent comparator has one possible result (the lemma
  \<open>js_sort_unique\<close> below), so insertion sort models any engine's algorithm.
\<close>

primrec js_insert :: "('a \<Rightarrow> 'a \<Rightarrow> bool) \<Rightarrow> 'a \<Rightarrow> 'a list \<Rightarrow> 'a list" where
  "js_insert le x [] = [x]"
| "js_insert le x (y # ys) = (if le x y then x # y # ys else y # js_insert le x ys)"

primrec js_sort :: "('a \<Rightarrow> 'a \<Rightarrow> bool) \<Rightarrow> 'a list \<Rightarrow> 'a list" where
  "js_sort le [] = []"
| "js_sort le (x # xs) = js_insert le x (js_sort le xs)"

lemma mset_js_insert [simp]: "mset (js_insert le x xs) = add_mset x (mset xs)"
  by (induction xs) auto

lemma mset_js_sort [simp]: "mset (js_sort le xs) = mset xs"
  by (induction xs) auto

lemma set_js_sort [simp]: "set (js_sort le xs) = set xs"
  by (metis mset_js_sort set_mset_mset)

lemma length_js_sort [simp]: "length (js_sort le xs) = length xs"
  by (metis mset_js_sort size_mset)

lemma distinct_js_sort [simp]: "distinct (js_sort le xs) \<longleftrightarrow> distinct xs"
  by (metis mset_js_sort mset_eq_imp_distinct_iff)

locale consistent_comparator =
  fixes le :: "'a \<Rightarrow> 'a \<Rightarrow> bool"
  assumes le_total: "le x y \<or> le y x"
    and le_trans: "le x y \<Longrightarrow> le y z \<Longrightarrow> le x z"
begin

lemma le_refl: "le x x"
  using le_total by blast

lemma sorted_js_insert: "sorted_wrt le xs \<Longrightarrow> sorted_wrt le (js_insert le x xs)"
proof (induction xs)
  case (Cons y ys)
  have ins: "set (js_insert le x ys) = insert x (set ys)"
    by (metis mset_js_insert set_mset_add_mset_insert set_mset_mset)
  from Cons show ?case
    by (auto simp: ins intro: le_trans) (use le_total in blast)
qed simp

lemma sorted_js_sort: "sorted_wrt le (js_sort le xs)"
  by (induction xs) (simp_all add: sorted_js_insert)

text \<open>Stability: elements the comparator calls equal keep their order.\<close>

lemma filter_js_insert:
  "(\<And>y z. P y \<Longrightarrow> P z \<Longrightarrow> le y z) \<Longrightarrow>
   filter P (js_insert le x xs) = (if P x then x # filter P xs else filter P xs)"
  by (induction xs) auto

lemma stable_js_sort:
  "(\<And>y z. P y \<Longrightarrow> P z \<Longrightarrow> le y z) \<Longrightarrow> filter P (js_sort le xs) = filter P xs"
  by (induction xs) (simp_all add: filter_js_insert)

lemma js_sort_id: "sorted_wrt le xs \<Longrightarrow> js_sort le xs = xs"
proof (induction xs)
  case (Cons x xs)
  then show ?case by (cases xs) auto
qed simp

lemma js_sort_unique:
  assumes "mset ys = mset xs" and "sorted_wrt le ys"
    and "\<And>x. filter (\<lambda>y. le x y \<and> le y x) ys = filter (\<lambda>y. le x y \<and> le y x) xs"
  shows "ys = js_sort le xs"
  using assms
proof (induction ys arbitrary: xs)
  case Nil
  then show ?case by simp
next
  case (Cons y ys)
  define zs where "zs = js_sort le xs"
  have m: "mset zs = mset (y # ys)" and s: "sorted_wrt le zs"
    by (simp_all add: zs_def Cons.prems(1) [symmetric] sorted_js_sort)
  have f: "filter (\<lambda>u. le x u \<and> le u x) zs = filter (\<lambda>u. le x u \<and> le u x) (y # ys)" for x
    unfolding zs_def Cons.prems(3) by (rule stable_js_sort) (meson le_trans)
  from m obtain z zs' where z: "zs = z # zs'" by (cases zs) auto
  have zy: "z \<in> set (y # ys)" and yz: "y \<in> set (z # zs')"
    using m z by (metis list.set_intros(1) set_mset_mset)+
  have "le z y" using s z yz le_refl by auto
  moreover have "le y z" using Cons.prems(2) zy le_refl by auto
  ultimately have "y = z" using f [of y] z le_refl by simp
  have "ys = js_sort le zs'"
  proof (rule Cons.IH)
    show "mset ys = mset zs'" using m z \<open>y = z\<close> by simp
    show "sorted_wrt le ys" using Cons.prems(2) by simp
    show "filter (\<lambda>u. le x u \<and> le u x) ys = filter (\<lambda>u. le x u \<and> le u x) zs'" for x
      using f [of x] z \<open>y = z\<close> by (auto split: if_splits)
  qed
  moreover have "js_sort le zs' = zs'" using s z by (intro js_sort_id) simp
  ultimately show ?case using z \<open>y = z\<close> by (simp add: zs_def)
qed

end

text \<open>The default comparator of \<^verbatim>\<open>sort()\<close>: the lexicographic order of the code units.\<close>

fun code_unit_le :: "string \<Rightarrow> string \<Rightarrow> bool" where
  "code_unit_le [] _ = True"
| "code_unit_le (_ # _) [] = False"
| "code_unit_le (a # as) (b # bs) =
     ((of_char a :: int) < of_char b \<or> (a = b \<and> code_unit_le as bs))"

lemma code_unit_le_total: "code_unit_le a b \<or> code_unit_le b a"
proof (induction a b rule: code_unit_le.induct)
  case (3 a as b bs)
  then show ?case
    by (metis code_unit_le.simps(3) linorder_neqE of_char_eq_iff)
qed auto

lemma code_unit_le_trans: "code_unit_le a b \<Longrightarrow> code_unit_le b c \<Longrightarrow> code_unit_le a c"
proof (induction a b arbitrary: c rule: code_unit_le.induct)
  case (3 a as b bs)
  then show ?case by (cases c) auto
qed auto

lemma code_unit_le_antisym: "code_unit_le a b \<Longrightarrow> code_unit_le b a \<Longrightarrow> a = b"
  by (induction a b rule: code_unit_le.induct) (auto elim: code_unit_le.elims)

interpretation code_units: consistent_comparator code_unit_le
  by unfold_locales (fact code_unit_le_total, fact code_unit_le_trans)

text \<open>Comparators \<^verbatim>\<open>a.k - b.k\<close> and \<^verbatim>\<open>b.k - a.k\<close> on a finite numeric key.\<close>

definition key_asc :: "('a \<Rightarrow> rat) \<Rightarrow> 'a \<Rightarrow> 'a \<Rightarrow> bool" where
  "key_asc k a b = (k a - k b \<le> 0)"

definition key_desc :: "('a \<Rightarrow> rat) \<Rightarrow> 'a \<Rightarrow> 'a \<Rightarrow> bool" where
  "key_desc k a b = (k b - k a \<le> 0)"

interpretation asc: consistent_comparator "key_asc k" for k
  by unfold_locales (auto simp: key_asc_def)

interpretation desc: consistent_comparator "key_desc k" for k
  by unfold_locales (auto simp: key_desc_def)

text \<open>The result depends only on how the comparator orders the elements of the list.\<close>

lemma js_sort_cong:
  "(\<And>x y. x \<in> set xs \<Longrightarrow> y \<in> set xs \<Longrightarrow> le x y = le' x y) \<Longrightarrow> js_sort le xs = js_sort le' xs"
proof (induction xs)
  case (Cons x xs)
  have ins: "(\<And>y. y \<in> set ys \<Longrightarrow> le x y = le' x y) \<Longrightarrow> js_insert le x ys = js_insert le' x ys" for ys
    by (induction ys) auto
  have "js_insert le x (js_sort le' xs) = js_insert le' x (js_sort le' xs)" by (rule ins) (simp add: Cons.prems)
  with Cons show ?case by simp
qed simp

text \<open>A comparator on a key, \<^verbatim>\<open>cmp(a.k, b.k)\<close>, is consistent when \<^verbatim>\<open>cmp\<close> is.\<close>

lemma comparator_on_key:
  "consistent_comparator le \<Longrightarrow> consistent_comparator (\<lambda>a b. le (f a) (f b))"
  unfolding consistent_comparator_def by blast

end
