(* ===== verification/Js_Text.thy ===== *)
theory Js_Text
  imports Js_Prelude
begin

text \<open>
  The string methods and the conversions between strings and numbers that the client
  uses: \<^verbatim>\<open>trim\<close>, \<^verbatim>\<open>toLowerCase\<close>, \<^verbatim>\<open>indexOf\<close>, \<^verbatim>\<open>includes\<close>, \<^verbatim>\<open>startsWith\<close>, \<^verbatim>\<open>endsWith\<close>,
  \<^verbatim>\<open>split\<close>, \<^verbatim>\<open>join\<close>, \<^verbatim>\<open>Number(s)\<close> and \<^verbatim>\<open>String(v)\<close>, with the lemmas the components share.
\<close>

section \<open>Trimming and case\<close>

definition is_ws :: "char \<Rightarrow> bool" where
  "is_ws c = (let n = (of_char c :: int) in (9 \<le> n \<and> n \<le> 13) \<or> n = 32 \<or> n = 160)"

definition js_trim_start :: "string \<Rightarrow> string" where
  "js_trim_start s = dropWhile is_ws s"

definition js_trim_end :: "string \<Rightarrow> string" where
  "js_trim_end s = rev (dropWhile is_ws (rev s))"

definition js_trim :: "string \<Rightarrow> string" where
  "js_trim s = js_trim_end (js_trim_start s)"

text \<open>\<open>trimmed s\<close>: no white space at either end.\<close>

definition trimmed :: "string \<Rightarrow> bool" where
  "trimmed s = (s = [] \<or> (\<not> is_ws (hd s) \<and> \<not> is_ws (last s)))"

lemma js_trim_Nil [simp]: "js_trim [] = []"
  by (simp add: js_trim_def js_trim_start_def js_trim_end_def)

lemma js_trim_start_noop: "s = [] \<or> \<not> is_ws (hd s) \<Longrightarrow> js_trim_start s = s"
  by (cases s) (auto simp: js_trim_start_def)

lemma js_trim_end_noop: "s = [] \<or> \<not> is_ws (last s) \<Longrightarrow> js_trim_end s = s"
  by (cases s rule: rev_cases) (auto simp: js_trim_end_def)

lemma js_trim_end_last: "js_trim_end s \<noteq> [] \<Longrightarrow> \<not> is_ws (last (js_trim_end s))"
  by (metis hd_dropWhile js_trim_end_def last_rev rev_is_Nil_conv)

lemma js_trim_end_prefix: "\<exists>t. s = js_trim_end s @ t"
proof -
  have "rev s = takeWhile is_ws (rev s) @ dropWhile is_ws (rev s)" by simp
  then have "s = rev (dropWhile is_ws (rev s)) @ rev (takeWhile is_ws (rev s))"
    by (metis rev_append rev_rev_ident)
  then show ?thesis unfolding js_trim_end_def by blast
qed

lemma trimmed_js_trim [simp]: "trimmed (js_trim s)"
proof (cases "js_trim s = []")
  case False
  let ?u = "js_trim_start s"
  have ne: "js_trim_end ?u \<noteq> []" using False by (simp add: js_trim_def)
  obtain t where t: "?u = js_trim_end ?u @ t"
    using js_trim_end_prefix by blast
  then have "?u \<noteq> []" using ne by (metis append_is_Nil_conv)
  then have "\<not> is_ws (hd ?u)" by (simp add: hd_dropWhile js_trim_start_def)
  moreover have "hd (js_trim_end ?u) = hd ?u" using ne t by (metis hd_append2)
  ultimately show ?thesis
    using ne js_trim_end_last [of ?u] by (simp add: trimmed_def js_trim_def)
qed (simp add: trimmed_def)

lemma js_trim_id: "trimmed s \<Longrightarrow> js_trim s = s"
  by (auto simp: trimmed_def js_trim_def js_trim_start_noop js_trim_end_noop)

lemma js_trim_idem [simp]: "js_trim (js_trim s) = js_trim s"
  by (simp add: js_trim_id)

lemma trimmed_Nil [simp]: "trimmed []"
  by (simp add: trimmed_def)

definition lower_char :: "char \<Rightarrow> char" where
  "lower_char c =
     (let n = (of_char c :: int) in
      if (65 \<le> n \<and> n \<le> 90) \<or> (192 \<le> n \<and> n \<le> 222 \<and> n \<noteq> 215) then char_of (n + 32) else c)"

definition js_lower :: "string \<Rightarrow> string" where
  "js_lower s = map lower_char s"

lemma js_lower_Nil [simp]: "js_lower [] = []" and
  js_lower_eq_Nil [simp]: "js_lower s = [] \<longleftrightarrow> s = []" and
  length_js_lower [simp]: "length (js_lower s) = length s"
  by (simp_all add: js_lower_def)

lemma lower_char_idem [simp]: "lower_char (lower_char c) = lower_char c"
  by (auto simp: lower_char_def Let_def of_char_of)

lemma js_lower_idem [simp]: "js_lower (js_lower s) = js_lower s"
  by (simp add: js_lower_def)

lemma is_ws_lower_char [simp]: "is_ws (lower_char c) \<longleftrightarrow> is_ws c"
  by (auto simp: lower_char_def is_ws_def Let_def of_char_of)

lemma trimmed_js_lower [simp]: "trimmed (js_lower s) \<longleftrightarrow> trimmed s"
  by (cases s) (simp_all add: trimmed_def js_lower_def last_map)

section \<open>Searching, splitting, joining\<close>

definition js_starts_with :: "string \<Rightarrow> string \<Rightarrow> bool" where
  "js_starts_with s p = (take (length p) s = p)"

definition js_ends_with :: "string \<Rightarrow> string \<Rightarrow> bool" where
  "js_ends_with s p = js_starts_with (rev s) (rev p)"

text \<open>\<^verbatim>\<open>s.indexOf(t)\<close>; the \<open>-1\<close> of JavaScript is \<open>None\<close>.\<close>

fun js_index_of :: "string \<Rightarrow> string \<Rightarrow> nat option" where
  "js_index_of s t =
     (if js_starts_with s t then Some 0
      else case s of [] \<Rightarrow> None | _ # s' \<Rightarrow> map_option Suc (js_index_of s' t))"

declare js_index_of.simps [simp del]

definition js_includes :: "string \<Rightarrow> string \<Rightarrow> bool" where
  "js_includes s t = (js_index_of s t \<noteq> None)"

lemma js_starts_with_iff: "js_starts_with s p \<longleftrightarrow> (\<exists>u. s = p @ u)"
  by (metis append_eq_conv_conj append_take_drop_id js_starts_with_def)

lemma js_starts_with_append [simp]: "js_starts_with (p @ s) p"
  by (simp add: js_starts_with_def)

lemma js_ends_with_iff: "js_ends_with s p \<longleftrightarrow> (\<exists>u. s = u @ p)"
  by (metis js_ends_with_def js_starts_with_iff rev_append rev_rev_ident)

lemma js_index_of_Nil: "js_index_of [] t = (if t = [] then Some 0 else None)"
  by (auto simp: js_index_of.simps [of "[]"] js_starts_with_def)

lemma js_index_of_Cons:
  "js_index_of (c # s) t =
     (if js_starts_with (c # s) t then Some 0 else map_option Suc (js_index_of s t))"
  by (simp add: js_index_of.simps [of "c # s"])

lemma js_index_of_Some_split:
  "js_index_of s t = Some i \<Longrightarrow> s = take i s @ t @ drop (i + length t) s"
proof (induction s arbitrary: i)
  case Nil
  then show ?case by (auto simp: js_index_of_Nil split: if_splits)
next
  case (Cons c s)
  show ?case
  proof (cases "js_starts_with (c # s) t")
    case True
    with Cons.prems have "i = 0" by (simp add: js_index_of_Cons)
    with True show ?thesis
      by (metis add_0 append_eq_conv_conj js_starts_with_iff self_append_conv2 take_0)
  next
    case False
    with Cons.prems obtain j where "js_index_of s t = Some j" "i = Suc j"
      by (auto simp: js_index_of_Cons)
    with Cons.IH show ?thesis by auto
  qed
qed

lemma js_index_of_bound: "js_index_of s t = Some i \<Longrightarrow> i + length t \<le> length s"
proof (induction s arbitrary: i)
  case Nil
  then show ?case by (auto simp: js_index_of_Nil split: if_splits)
next
  case (Cons c s)
  then show ?case
    by (auto simp: js_index_of_Cons js_starts_with_iff split: if_splits)
      (metis le_add1 length_Cons length_append)+
qed

lemma js_index_of_None_iff: "js_index_of s t = None \<longleftrightarrow> (\<forall>u v. s \<noteq> u @ t @ v)"
proof (induction s)
  case Nil
  then show ?case by (auto simp: js_index_of_Nil)
next
  case (Cons c s)
  have "(\<exists>u v. c # s = u @ t @ v) \<longleftrightarrow> (\<exists>v. c # s = t @ v) \<or> (\<exists>u v. s = u @ t @ v)"
    by (metis (no_types, opaque_lifting) append_Cons append_Nil list.inject neq_Nil_conv)
  with Cons show ?case
    by (auto simp: js_index_of_Cons js_starts_with_iff)
qed

lemma js_index_of_append: "js_index_of a t = Some i \<Longrightarrow> js_index_of (a @ b) t = Some i"
proof (induction a arbitrary: i)
  case Nil
  then show ?case
    by (cases b) (auto simp: js_index_of_Nil js_index_of_Cons js_starts_with_def split: if_splits)
next
  case (Cons c a)
  show ?case
  proof (cases "js_starts_with (c # a) t")
    case True
    then have "js_starts_with (c # a @ b) t"
      by (metis append.assoc append_Cons js_starts_with_iff)
    with True Cons.prems show ?thesis by (simp add: js_index_of_Cons)
  next
    case False
    then obtain j where j: "js_index_of a t = Some j" "i = Suc j"
      using Cons.prems by (auto simp: js_index_of_Cons)
    then have le: "length t \<le> length a" using js_index_of_bound by fastforce
    have "\<not> js_starts_with (c # a @ b) t"
      using False le by (simp add: js_starts_with_def take_Cons' split: if_splits)
    with Cons.IH j show ?thesis by (simp add: js_index_of_Cons)
  qed
qed

lemma js_includes_iff: "js_includes s t \<longleftrightarrow> (\<exists>u v. s = u @ t @ v)"
  by (simp add: js_includes_def js_index_of_None_iff)

text \<open>
  \<^verbatim>\<open>s.split(c)\<close> for a one-character separator, and \<^verbatim>\<open>s.split(/[...]+/)\<close> for a class of
  characters, whose maximal runs separate: both give at least one piece.
\<close>

fun js_split :: "char \<Rightarrow> string \<Rightarrow> string list" where
  "js_split d [] = [[]]"
| "js_split d (c # s) =
     (if c = d then [] # js_split d s
      else case js_split d s of [] \<Rightarrow> [[c]] | p # ps \<Rightarrow> (c # p) # ps)"

lemma length_dropWhile_less [termination_simp]: "length (dropWhile P s) < Suc (length s)"
  by (simp add: length_dropWhile_le less_Suc_eq_le)

fun js_split_run :: "(char \<Rightarrow> bool) \<Rightarrow> string \<Rightarrow> string list" where
  "js_split_run P [] = [[]]"
| "js_split_run P (c # s) =
     (if P c then [] # js_split_run P (dropWhile P s)
      else case js_split_run P s of [] \<Rightarrow> [[c]] | p # ps \<Rightarrow> (c # p) # ps)"

fun js_join :: "string \<Rightarrow> string list \<Rightarrow> string" where
  "js_join d [] = []"
| "js_join d [x] = x"
| "js_join d (x # y # xs) = x @ d @ js_join d (y # xs)"

lemma js_split_ne [simp]: "js_split d s \<noteq> []"
  by (induction s) (auto split: list.splits)

lemma js_split_run_ne [simp]: "js_split_run P s \<noteq> []"
  by (cases s) (auto split: list.splits)

lemma js_join_Cons: "xs \<noteq> [] \<Longrightarrow> js_join d (x # xs) = x @ d @ js_join d xs"
  by (cases xs) auto

lemma js_join_Cons_char: "js_join d ((c # x) # xs) = c # js_join d (x # xs)"
  by (cases xs) auto

lemma js_join_split [simp]: "js_join [d] (js_split d s) = s"
proof (induction s)
  case (Cons c s)
  then show ?case
    by (cases "js_split d s") (auto simp: js_join_Cons js_join_Cons_char split: list.splits)
qed simp

lemma js_split_no_sep: "p \<in> set (js_split d s) \<Longrightarrow> d \<notin> set p"
  by (induction s arbitrary: p) (auto split: list.splits if_splits)

lemma js_split_run_no_sep: "p \<in> set (js_split_run P s) \<Longrightarrow> c \<in> set p \<Longrightarrow> \<not> P c"
  by (induction P s arbitrary: p rule: js_split_run.induct)
    (fastforce split: list.splits if_splits)+

lemma js_split_noop: "d \<notin> set s \<Longrightarrow> js_split d s = [s]"
  by (induction s) auto

lemma js_split_append: "d \<notin> set x \<Longrightarrow> js_split d (x @ d # s) = x # js_split d s"
  by (induction x) auto

lemma js_split_join:
  "xs \<noteq> [] \<Longrightarrow> (\<And>x. x \<in> set xs \<Longrightarrow> d \<notin> set x) \<Longrightarrow> js_split d (js_join [d] xs) = xs"
proof (induction xs rule: induct_list012)
  case (3 x y zs)
  then show ?case using js_split_append [of d x "js_join [d] (y # zs)"] by simp
qed (simp_all add: js_split_noop)

lemma js_split_run_noop: "(\<And>c. c \<in> set x \<Longrightarrow> \<not> P c) \<Longrightarrow> js_split_run P x = [x]"
  by (induction x) auto

lemma js_split_run_append:
  "(\<And>c. c \<in> set x \<Longrightarrow> \<not> P c) \<Longrightarrow> P d \<Longrightarrow> js_split_run P (x @ d # s) = x # js_split_run P (dropWhile P s)"
  by (induction x) auto

lemma js_split_run_join:
  assumes "P d" "xs \<noteq> []" "\<And>x c. x \<in> set xs \<Longrightarrow> c \<in> set x \<Longrightarrow> \<not> P c" "[] \<notin> set xs"
  shows "js_split_run P (js_join [d] xs) = xs"
  using assms(2-)
proof (induction xs rule: induct_list012)
  case (3 x y zs)
  have "dropWhile P (js_join [d] (y # zs)) = js_join [d] (y # zs)"
  proof (cases y)
    case (Cons c u)
    then have "\<not> P c" using 3(4) [of y c] by simp
    with Cons show ?thesis by (simp add: js_join_Cons_char)
  qed (use 3(5) in simp)
  moreover have "js_split_run P (js_join [d] (y # zs)) = y # zs" using 3(4,5) by (intro 3(2)) auto
  moreover have "js_split_run P (x @ d # js_join [d] (y # zs)) = x # js_split_run P (dropWhile P (js_join [d] (y # zs)))"
    using 3(4) assms(1) by (intro js_split_run_append) auto
  ultimately show ?case by simp
qed (simp_all add: js_split_run_noop)

lemma hd_js_join: "x \<noteq> [] \<Longrightarrow> hd (js_join d (x # xs)) = hd x"
  by (cases xs) simp_all

lemma last_js_join: "xs \<noteq> [] \<Longrightarrow> last xs \<noteq> [] \<Longrightarrow> last (js_join d xs) = last (last xs)"
proof (induction xs rule: induct_list012)
  case (3 x y zs)
  have "js_join d (y # zs) \<noteq> []" using 3(4)
  proof (induction zs arbitrary: y)
    case (Cons z zs)
    then show ?case by auto
  qed simp
  with 3 show ?case by simp
qed simp_all

lemma js_join_ne: "x \<in> set xs \<Longrightarrow> x \<noteq> [] \<Longrightarrow> js_join d xs \<noteq> []"
  by (induction d xs rule: js_join.induct) auto

lemma set_js_join: "set (js_join d xs) \<subseteq> set d \<union> (\<Union>x\<in>set xs. set x)"
  by (induction d xs rule: js_join.induct) auto

section \<open>Numbers and their decimal notation\<close>

function int_digits :: "int \<Rightarrow> string" where
  "int_digits n =
     (if n < 10 then [char_of (n + 48)] else int_digits (n div 10) @ [char_of (n mod 10 + 48)])"
  by pat_completeness auto
termination
  by (relation "measure nat") auto

declare int_digits.simps [simp del]

definition nat_str :: "nat \<Rightarrow> string" where
  "nat_str n = int_digits (int n)"

definition int_str :: "int \<Rightarrow> string" where
  "int_str i = (if i < 0 then CHR ''-'' # int_digits (- i) else int_digits i)"

lemma char_of_digit:
  "0 \<le> d \<Longrightarrow> d < 10 \<Longrightarrow> js_digit (char_of (d + 48)) \<and> digit_val (char_of (d + 48)) = d"
  by (simp add: js_digit_def digit_val_def of_char_of)

lemma digits_val_snoc: "digits_val (s @ [c]) = 10 * digits_val s + digit_val c"
  by (simp add: digits_val_def)

lemma int_digits_digits: "0 \<le> n \<Longrightarrow> int_digits n \<noteq> [] \<and> list_all js_digit (int_digits n)"
proof (induction n rule: int_digits.induct)
  case (1 n)
  then show ?case
    by (subst (1 2) int_digits.simps) (auto simp: char_of_digit)
qed

lemma digits_val_int_digits: "0 \<le> n \<Longrightarrow> digits_val (int_digits n) = n"
proof (induction n rule: int_digits.induct)
  case (1 n)
  show ?case
  proof (cases "n < 10")
    case True
    with "1.prems" show ?thesis
      by (subst int_digits.simps) (simp add: digits_val_def char_of_digit)
  next
    case False
    with 1 show ?thesis
      by (subst int_digits.simps) (simp add: digits_val_snoc char_of_digit)
  qed
qed

lemma nat_str_digits: "nat_str n \<noteq> [] \<and> list_all js_digit (nat_str n)"
  by (simp add: nat_str_def int_digits_digits)

lemma digits_val_nat_str [simp]: "digits_val (nat_str n) = int n"
  by (simp add: nat_str_def digits_val_int_digits)

lemma nat_str_inject [simp]: "nat_str m = nat_str n \<longleftrightarrow> m = n"
  by (metis digits_val_nat_str nat_int)

text \<open>
  \<^verbatim>\<open>Number(s)\<close>: white space around the literal is ignored, the empty literal is 0, a decimal
  literal may have a sign, a fraction and an exponent, \<^verbatim>\<open>0x\<close>, \<^verbatim>\<open>0o\<close> and \<^verbatim>\<open>0b\<close> introduce
  unsigned literals, everything else is \<open>NaN\<close>. A value that rounds past the largest
  double is infinite.
\<close>

definition double_limit :: rat where
  "double_limit = 2 ^ 1024 - 2 ^ 970"

definition num_of_rat :: "rat \<Rightarrow> jsnum" where
  "num_of_rat r = (if double_limit \<le> r then PInf else if r \<le> - double_limit then NInf else Fin r)"

definition exponent_val :: "string \<Rightarrow> int option" where
  "exponent_val s =
     (let (neg, ds) = (case s of c # r \<Rightarrow> if c = CHR ''-'' then (True, r)
                                        else if c = CHR ''+'' then (False, r) else (False, s)
                               | [] \<Rightarrow> (False, s))
      in if ds \<noteq> [] \<and> list_all js_digit ds
         then Some (if neg then - digits_val ds else digits_val ds) else None)"

definition scale10 :: "rat \<Rightarrow> int \<Rightarrow> rat" where
  "scale10 m e = (if 0 \<le> e then m * 10 ^ nat e else m / 10 ^ nat (- e))"

definition unsigned_decimal :: "string \<Rightarrow> rat option" where
  "unsigned_decimal s =
     (let ip = takeWhile js_digit s; r1 = dropWhile js_digit s;
          (fp, r2) = (case r1 of c # r \<Rightarrow> if c = CHR ''.'' then (takeWhile js_digit r, dropWhile js_digit r)
                                         else ([], r1)
                              | [] \<Rightarrow> ([], r1));
          m = of_int (digits_val (ip @ fp)) / 10 ^ length fp
      in if ip = [] \<and> fp = [] then None
         else case r2 of
                [] \<Rightarrow> Some m
              | c # r \<Rightarrow> if c = CHR ''e'' \<or> c = CHR ''E''
                          then map_option (scale10 m) (exponent_val r) else None)"

definition hex_val :: "char \<Rightarrow> int option" where
  "hex_val c = (let n = (of_char c :: int) in
     if 48 \<le> n \<and> n \<le> 57 then Some (n - 48)
     else if 97 \<le> n \<and> n \<le> 102 then Some (n - 87)
     else if 65 \<le> n \<and> n \<le> 70 then Some (n - 55) else None)"

definition radix_val :: "int \<Rightarrow> string \<Rightarrow> int option" where
  "radix_val b s =
     (if s \<noteq> [] \<and> list_all (\<lambda>c. case hex_val c of None \<Rightarrow> False | Some d \<Rightarrow> d < b) s
      then Some (foldl (\<lambda>n c. b * n + the (hex_val c)) 0 s) else None)"

definition num_literal :: "string \<Rightarrow> jsnum option" where
  "num_literal s =
     (let sgn = (if js_starts_with s ''-'' then -1 else 1 :: rat);
          u = (if js_starts_with s ''-'' \<or> js_starts_with s ''+'' then tl s else s);
          rad = (\<lambda>b. map_option (num_of_rat \<circ> of_int) (radix_val b (drop 2 s)))
      in if u = ''Infinity'' then Some (if sgn = 1 then PInf else NInf)
         else if js_starts_with s ''0x'' \<or> js_starts_with s ''0X'' then rad 16
         else if js_starts_with s ''0o'' \<or> js_starts_with s ''0O'' then rad 8
         else if js_starts_with s ''0b'' \<or> js_starts_with s ''0B'' then rad 2
         else map_option (\<lambda>r. num_of_rat (sgn * r)) (unsigned_decimal u))"

definition js_Number_str :: "string \<Rightarrow> jsnum" where
  "js_Number_str s =
     (let t = js_trim s in
      if t = [] then Fin 0 else case num_literal t of None \<Rightarrow> NaN | Some n \<Rightarrow> n)"

text \<open>
  \<^verbatim>\<open>String(n)\<close>: integers below \<open>10 ^ 21\<close> and decimal fractions of at most 20 places (the
  exponent notation outside \<open>10 ^ -6 .. 10 ^ 21\<close> is not modelled).
\<close>

fun frac_digits :: "nat \<Rightarrow> rat \<Rightarrow> string" where
  "frac_digits 0 f = []"
| "frac_digits (Suc k) f =
     (if f = 0 then []
      else char_of (\<lfloor>10 * f\<rfloor> + 48) # frac_digits k (10 * f - of_int \<lfloor>10 * f\<rfloor>))"

definition pos_str :: "rat \<Rightarrow> string" where
  "pos_str r =
     (let i = \<lfloor>r\<rfloor>; f = r - of_int i
      in if f = 0 then int_digits i else int_digits i @ ''.'' @ frac_digits 20 f)"

definition num_str :: "jsnum \<Rightarrow> string" where
  "num_str n = (case n of
     NaN \<Rightarrow> ''NaN'' | PInf \<Rightarrow> ''Infinity'' | NInf \<Rightarrow> ''-Infinity''
   | Fin r \<Rightarrow> if r < 0 then CHR ''-'' # pos_str (- r) else pos_str r)"

text \<open>\<^verbatim>\<open>String(v)\<close> of any value, and \<^verbatim>\<open>Number(v)\<close>.\<close>

fun js_String :: "jsval \<Rightarrow> string" where
  "js_String JUndef = ''undefined''"
| "js_String JNull = ''null''"
| "js_String (JBool b) = (if b then ''true'' else ''false'')"
| "js_String (JNum n) = num_str n"
| "js_String (JStr s) = s"
| "js_String (JArr xs) = js_join '','' (map (\<lambda>x. if nullish x then [] else js_String x) xs)"
| "js_String (JObj _) = ''[object Object]''"

definition js_Number :: "jsval \<Rightarrow> jsnum" where
  "js_Number v = (case v of
     JUndef \<Rightarrow> NaN | JNull \<Rightarrow> Fin 0 | JBool b \<Rightarrow> Fin (if b then 1 else 0) | JNum n \<Rightarrow> n
   | _ \<Rightarrow> js_Number_str (js_String v))"

text \<open>What the simplifier needs to evaluate \<^verbatim>\<open>Number\<close> on a literal.\<close>

lemmas js_trim_eval = js_trim_def js_trim_start_def js_trim_end_def is_ws_def Let_def

lemmas js_number_eval = js_Number_str_def num_literal_def unsigned_decimal_def exponent_val_def
  scale10_def num_of_rat_def double_limit_def js_trim_eval js_starts_with_def js_digit_def
  digits_val_def digit_val_def radix_val_def hex_val_def

text \<open>\<^verbatim>\<open>Number\<close> reads back the decimal digits.\<close>

lemma digits_trimmed: "list_all js_digit s \<Longrightarrow> trimmed s"
proof -
  assume a: "list_all js_digit s"
  have "\<not> is_ws c" if "js_digit c" for c using that by (auto simp: js_digit_def is_ws_def Let_def)
  with a show ?thesis by (auto simp: trimmed_def list_all_iff)
qed

lemma digits_no_prefix:
  assumes "list_all js_digit s" "\<not> list_all js_digit p"
  shows "\<not> js_starts_with s p"
proof
  assume "js_starts_with s p"
  then obtain u where "s = p @ u" by (auto simp: js_starts_with_iff)
  with assms show False by simp
qed

lemma js_Number_str_digits:
  assumes "s \<noteq> []" "list_all js_digit s"
  shows "js_Number_str s = num_of_rat (of_int (digits_val s))"
proof -
  have t: "js_trim s = s" by (rule js_trim_id [OF digits_trimmed [OF assms(2)]])
  have tw: "takeWhile js_digit s = s" "dropWhile js_digit s = []"
    using assms(2) by (simp_all add: list_all_iff)
  have inf: "s \<noteq> ''Infinity''" using assms(2) by (auto simp: js_digit_def)
  have p: "\<not> js_starts_with s ''-''" "\<not> js_starts_with s ''+''"
    "\<not> js_starts_with s ''0x''" "\<not> js_starts_with s ''0X''" "\<not> js_starts_with s ''0o''"
    "\<not> js_starts_with s ''0O''" "\<not> js_starts_with s ''0b''" "\<not> js_starts_with s ''0B''"
    by (rule digits_no_prefix [OF assms(2)]; simp add: js_digit_def)+
  show ?thesis
    using assms(1) inf by (simp add: js_Number_str_def t num_literal_def p unsigned_decimal_def tw Let_def)
qed

lemma js_Number_str_nat_str: "js_Number_str (nat_str n) = num_of_rat (of_nat n)"
  using nat_str_digits [of n] by (simp add: js_Number_str_digits)

lemma double_limit_large: "10 ^ 18 < double_limit"
  by (simp add: double_limit_def)

lemma num_of_rat_nat:
  "num_of_rat (of_nat n) = (if double_limit \<le> of_nat n then PInf else Fin (of_nat n))"
proof -
  have "\<not> of_nat n \<le> - double_limit"
    using double_limit_large by (smt (verit) neg_less_0_iff_less not_less of_nat_0_le_iff order_trans zero_less_power zero_less_numeral less_trans)
  then show ?thesis by (simp add: num_of_rat_def)
qed

text \<open>\<^verbatim>\<open>String(v || "")\<close>, the client's usual coercion of an unknown value to text.\<close>

definition text_of :: "jsval \<Rightarrow> string" where
  "text_of v = js_String (js_or v (JStr []))"

lemma text_of_JStr [simp]: "text_of (JStr s) = s"
  by (simp add: text_of_def js_or_def)

lemma text_of_nullish [simp]: "text_of JUndef = []" "text_of JNull = []"
  by (simp_all add: text_of_def js_or_def)

lemma num_str_nat: "num_str (Fin (of_nat n)) = nat_str n"
  by (simp add: num_str_def pos_str_def nat_str_def)

section \<open>Rows joined by a middle dot\<close>

definition middle_dot :: char where
  "middle_dot = CHR 0xB7"

definition ellipsis :: char where
  "ellipsis = CHR 0x85"

definition dash :: char where
  "dash = CHR 0x97"

definition dot_sep :: string where
  "dot_sep = [CHR '' '', middle_dot, CHR '' '']"

end
