(* ===== verification/Session_Scope.thy ===== *)
theory Session_Scope
  imports Js_Text
begin

text \<open>
  \<^verbatim>\<open>src/ui/src/sessionScope.ts\<close> and \<^verbatim>\<open>src/ui/src/utils/brokerBase.ts\<close>: the keys under which
  per-session state (watched jobs, event cursors, scenes) is stored, and the broker address
  behind a proxied agent address.
\<close>

record scope_params =
  sp_profileId :: "string option"
  sp_base :: "string option"
  sp_mode :: "string option"
  sp_deploymentId :: "string option"

abbreviation opt_text :: "string option \<Rightarrow> string" where
  "opt_text s \<equiv> opt_or s []"

definition buildSessionScopeKey :: "scope_params \<Rightarrow> string" where
  "buildSessionScopeKey params =
     (let pid = js_trim (opt_text (sp_profileId params));
          base = js_trim (opt_text (sp_base params));
          baseKey = (if base \<noteq> [] then ''base:'' @ base else ''base:default'');
          deployment = (if sp_mode params = Some ''broker''
                        then js_trim (opt_text (sp_deploymentId params)) else []);
          deploymentKey = (if deployment \<noteq> [] then ''deployment:'' @ deployment else [])
      in if deploymentKey = []
         then (if pid \<noteq> [] then ''profile:'' @ pid @ ''::'' @ baseKey else baseKey)
         else (if pid \<noteq> [] then ''profile:'' @ pid @ ''::'' @ baseKey @ ''::'' @ deploymentKey
               else baseKey @ ''::'' @ deploymentKey))"

definition buildScopedSessionKey :: "string \<Rightarrow> string option \<Rightarrow> string" where
  "buildScopedSessionKey scopeKey sessionId =
     (let sid = str_or (js_trim (opt_text sessionId)) ''default'' in scopeKey @ ''::'' @ sid)"

text \<open>\<^verbatim>\<open>replace(/\/+$/, "")\<close>: all slashes at the end.\<close>

definition strip_slashes :: "string \<Rightarrow> string" where
  "strip_slashes s = rev (dropWhile (\<lambda>c. c = CHR ''/'') (rev s))"

definition brokerBaseFromProxy :: "string \<Rightarrow> string" where
  "brokerBaseFromProxy baseUrl =
     (let trimmed = strip_slashes (js_trim (str_or baseUrl []));
          marker = ''/v1/agents/''
      in case js_index_of trimmed marker of
           Some idx \<Rightarrow> take idx trimmed
         | None \<Rightarrow> trimmed)"

section \<open>Injectivity of the keys\<close>

text \<open>
  A segment is plain when a double colon cannot arise inside it or at its borders. The
  normal form lists the segments a key is made of: the profile, the base with its default,
  the deployment when the broker mode uses one.
\<close>

definition plain_segment :: "string \<Rightarrow> bool" where
  "plain_segment s = (s = [] \<or> \<not> js_includes ('':'' @ s @ '':'') ''::'')"

definition scope_norm :: "scope_params \<Rightarrow> string \<times> string \<times> string" where
  "scope_norm p =
     (js_trim (opt_text (sp_profileId p)),
      str_or (js_trim (opt_text (sp_base p))) ''default'',
      if sp_mode p = Some ''broker'' then js_trim (opt_text (sp_deploymentId p)) else [])"

definition scope_ok :: "scope_params \<Rightarrow> bool" where
  "scope_ok p = (case scope_norm p of (pid, base, dep) \<Rightarrow>
     plain_segment pid \<and> plain_segment base \<and> plain_segment dep)"

text \<open>A tagged segment has no separator before its end.\<close>

lemma tagged_index:
  assumes "s \<noteq> []" "plain_segment s" "CHR '':'' \<notin> set t" "t \<noteq> []"
  shows "js_index_of ((t @ '':'' @ s) @ ''::'' @ r) ''::'' = Some (length (t @ '':'' @ s))"
proof -
  have none: "js_index_of ('':'' @ s @ '':'') ''::'' = None"
    using assms(1,2) by (simp add: plain_segment_def js_includes_def)
  have gen: "js_index_of (u @ '':'' @ r') ''::'' = Some (length u)"
    if "js_index_of (u @ '':'') ''::'' = None" "js_starts_with r' '':''" for u r' :: string
    using that
  proof (induction u)
    case Nil
    then show ?case by (auto simp: js_index_of_Cons js_starts_with_iff)
  next
    case (Cons c u)
    from Cons.prems(1) have n: "\<not> js_starts_with (c # u @ '':'') ''::''"
      and i: "js_index_of (u @ '':'') ''::'' = None"
      by (simp_all add: js_index_of_Cons split: if_splits)
    have "\<not> js_starts_with (c # u @ '':'' @ r') ''::''"
      using n by (cases u) (auto simp: js_starts_with_def split: if_splits)
    then show ?case using Cons.IH [OF i Cons.prems(2)] by (simp add: js_index_of_Cons)
  qed
  have pre: "js_index_of (t @ '':'' @ s @ '':'') ''::'' = None" using assms(3)
  proof (induction t)
    case Nil
    show ?case using none by simp
  next
    case (Cons c t)
    then show ?case by (auto simp: js_index_of_Cons js_starts_with_def)
  qed
  show ?thesis using gen [of "t @ '':'' @ s" "'':'' @ r"] pre by (simp add: js_starts_with_def)
qed

lemma tagged_cut:
  assumes "s \<noteq> []" "plain_segment s" "s' \<noteq> []" "plain_segment s'" "CHR '':'' \<notin> set t" "t \<noteq> []"
    and "(t @ '':'' @ s) @ ''::'' @ r = (t @ '':'' @ s') @ ''::'' @ r'"
  shows "s = s' \<and> r = r'"
proof -
  have "length (t @ '':'' @ s) = length (t @ '':'' @ s')"
    using tagged_index [OF assms(1,2,5,6), of r] tagged_index [OF assms(3,4,5,6), of r'] assms(7)
    by simp
  then show ?thesis using assms(7) by auto
qed

lemma tagged_no_cut:
  assumes "s \<noteq> []" "plain_segment s" "CHR '':'' \<notin> set t" "t \<noteq> []"
  shows "t @ '':'' @ s \<noteq> u @ ''::'' @ r"
proof
  assume e: "t @ '':'' @ s = u @ ''::'' @ r"
  obtain i where i: "js_index_of (t @ '':'' @ s) ''::'' = Some i"
    using e js_index_of_None_iff [of "t @ '':'' @ s" "''::''"] by (cases "js_index_of (t @ '':'' @ s) ''::''") auto
  then have "js_index_of ((t @ '':'' @ s) @ ''::'' @ []) ''::'' = Some i"
    by (rule js_index_of_append)
  then have "i = length (t @ '':'' @ s)"
    using tagged_index [OF assms, of "[]"] by simp
  then show False using js_index_of_bound [OF i] by simp
qed

text \<open>The three shapes of a key, written over the normal form.\<close>

definition scope_text :: "string \<times> string \<times> string \<Rightarrow> string" where
  "scope_text n = (case n of (pid, base, dep) \<Rightarrow>
     (if pid = [] then [] else ''profile:'' @ pid @ ''::'') @ ''base:'' @ base @
     (if dep = [] then [] else ''::'' @ ''deployment:'' @ dep))"

lemma buildSessionScopeKey_text: "buildSessionScopeKey p = scope_text (scope_norm p)"
  by (auto simp: buildSessionScopeKey_def scope_norm_def scope_text_def str_or_def Let_def)

lemma scope_norm_base: "fst (snd (scope_norm p)) \<noteq> []"
  by (auto simp: scope_norm_def str_or_def)

lemma base_text_inj:
  assumes "b \<noteq> []" "b' \<noteq> []" "plain_segment b" "plain_segment b'"
    and "''base:'' @ b @ (if d = [] then [] else ''::'' @ ''deployment:'' @ d) =
         ''base:'' @ b' @ (if d' = [] then [] else ''::'' @ ''deployment:'' @ d')"
  shows "b = b' \<and> d = d'"
proof -
  note cut = tagged_cut [OF assms(1,3,2,4), of "''base''" "''deployment:'' @ d" "''deployment:'' @ d'"]
  have n: "''base'' @ '':'' @ b \<noteq> u @ ''::'' @ r" "''base'' @ '':'' @ b' \<noteq> u @ ''::'' @ r" for u r
    by (rule tagged_no_cut; use assms in simp)+
  show ?thesis
    using assms(5) cut n [of "''base:'' @ b'" "''deployment:'' @ d'"] n [of "''base:'' @ b" "''deployment:'' @ d"]
    by (auto split: if_splits)
qed

lemma scope_text_inj:
  assumes "b \<noteq> []" "b' \<noteq> []"
    and "plain_segment p" "plain_segment p'" "plain_segment b" "plain_segment b'"
    and e: "scope_text (p, b, d) = scope_text (p', b', d')"
  shows "(p, b, d) = (p', b', d')"
proof (cases "p = []")
  case True
  then have "p' = []" using e by (auto simp: scope_text_def split: if_splits)
  with True e base_text_inj [OF assms(1,2,5,6), of d d'] show ?thesis by (simp add: scope_text_def)
next
  case False
  then have p': "p' \<noteq> []" using e by (auto simp: scope_text_def split: if_splits)
  let ?r = "\<lambda>b d. ''base:'' @ b @ (if d = [] then [] else ''::'' @ ''deployment:'' @ d)"
  have "(''profile'' @ '':'' @ p) @ ''::'' @ ?r b d = (''profile'' @ '':'' @ p') @ ''::'' @ ?r b' d'"
    using e False p' by (simp add: scope_text_def)
  from tagged_cut [where t = "''profile''", OF False assms(3) p' assms(4) _ _ this]
  have "p = p' \<and> ?r b d = ?r b' d'" by simp
  moreover from this have "b = b' \<and> d = d'" by (intro base_text_inj [OF assms(1,2,5,6)]) (rule conjunct2)
  ultimately show ?thesis by (simp only:)
qed

text \<open>
  C24. Two sets of connection parameters without a double colon in their segments have the
  same scope key exactly when they agree on the trimmed profile, on the trimmed base (an
  empty one is the base named \<^verbatim>\<open>default\<close>) and, in broker mode only, on the deployment: state stored
  for one connection is never read for another.
\<close>

theorem scope_key_inj:
  assumes "scope_ok p" "scope_ok q"
  shows "buildSessionScopeKey p = buildSessionScopeKey q \<longleftrightarrow> scope_norm p = scope_norm q"
proof
  assume e: "buildSessionScopeKey p = buildSessionScopeKey q"
  obtain a b d where p: "scope_norm p = (a, b, d)" by (cases "scope_norm p")
  obtain a' b' d' where q: "scope_norm q = (a', b', d')" by (cases "scope_norm q")
  have "b \<noteq> []" "b' \<noteq> []" using scope_norm_base [of p] scope_norm_base [of q] p q by simp_all
  then have "(a, b, d) = (a', b', d')"
    using assms e by (intro scope_text_inj) (simp_all add: scope_ok_def p q buildSessionScopeKey_text)
  then show "scope_norm p = scope_norm q" using p q by simp
qed (simp add: buildSessionScopeKey_text)

theorem scope_key_inj_witness:
  "buildSessionScopeKey \<lparr>sp_profileId = Some '' p1 '', sp_base = None, sp_mode = Some ''broker'', sp_deploymentId = Some ''d''\<rparr>
     = ''profile:p1::base:default::deployment:d'' \<and>
   buildSessionScopeKey \<lparr>sp_profileId = Some '' p1 '', sp_base = None, sp_mode = Some ''broker'', sp_deploymentId = Some ''d''\<rparr>
     \<noteq> buildSessionScopeKey \<lparr>sp_profileId = Some '' p1 '', sp_base = None, sp_mode = Some ''agent'', sp_deploymentId = Some ''d''\<rparr>"
proof -
  let ?p = "\<lparr>sp_profileId = Some '' p1 '', sp_base = None, sp_mode = Some ''broker'', sp_deploymentId = Some ''d''\<rparr>"
  let ?q = "\<lparr>sp_profileId = Some '' p1 '', sp_base = None, sp_mode = Some ''agent'', sp_deploymentId = Some ''d''\<rparr>"
  have "scope_ok ?p" by code_simp
  moreover have "scope_ok ?q" by code_simp
  moreover have "scope_norm ?p \<noteq> scope_norm ?q" by code_simp
  moreover have "buildSessionScopeKey ?p = ''profile:p1::base:default::deployment:d''" by code_simp
  ultimately show ?thesis using scope_key_inj [of ?p ?q] by blast
qed

end
