(* ===== verification/Approval_Queue.thy ===== *)
theory Approval_Queue
  imports Session_Scope
begin

text \<open>
  \<^verbatim>\<open>src/ui/src/components/approvalQueue\<close>: the queue of tool calls that wait for a member's approval. The state of
  \<^verbatim>\<open>useApprovalQueueState.ts\<close> is \<open>approval_state\<close>; its asynchronous callbacks are cut at their awaits, so that a request in
  flight is an \<open>aq_pending\<close> with the closure it was started from and answers may arrive in any order. \<open>aq_offered\<close> is what the
  view lets a user do. The credentials are passed through to the requests and left out.
\<close>

section \<open>Data\<close>

record ApprovalDecision =
  ad_id :: "jsnum option"
  ad_approval_id :: "string option"
  ad_member_id :: "string option"
  ad_member_role :: "string option"
  ad_decision :: "string option"
  ad_decision_unix_ms :: "jsnum option"
  ad_note :: "string option"

record ApprovalRequest =
  ar_approval_id :: "string option"
  ar_run_id :: "jsnum option"
  ar_trace_id :: "string option"
  ar_session_id :: "string option"
  ar_job_id :: "string option"
  ar_team_id :: "string option"
  ar_tool_name :: "string option"
  ar_tool_call_id :: "string option"
  ar_tool_args_hash :: "string option"
  ar_status :: "string option"
  ar_required_approvals :: "jsnum option"
  ar_role_constraints :: "string list option"
  ar_created_unix_ms :: "jsnum option"
  ar_expires_unix_ms :: "jsnum option"
  ar_decision_reason :: "string option"

record ApprovalsListQuery =
  q_status :: "string option"
  q_teamId :: "string option"
  q_traceId :: "string option"
  q_jobId :: "string option"
  q_toolName :: "string option"
  q_runId :: "string option"
  q_limit :: rat

datatype decision_kind = Approve | Deny

record ApprovalDecisionReq =
  rq_memberId :: string
  rq_memberRole :: "string option"
  rq_decision :: decision_kind
  rq_note :: "string option"

record ApprovalsListResp =
  lr_ok :: bool
  lr_approvals :: "ApprovalRequest list option"
  lr_error :: "string option"

record ApprovalDetailResp =
  dr_ok :: bool
  dr_approval :: "ApprovalRequest option"
  dr_decisions :: "ApprovalDecision list option"
  dr_error :: "string option"

record ApprovalDecisionResp =
  pr_ok :: bool
  pr_error :: "string option"

record approval_filters =
  fl_status :: string
  fl_teamId :: string
  fl_traceId :: string
  fl_jobId :: string
  fl_toolName :: string
  fl_runId :: string
  fl_limit :: string

record approval_state =
  aq_baseUrl :: string
  aq_filters :: approval_filters
  aq_approvals :: "ApprovalRequest list"
  aq_listError :: "string option"
  aq_listBusy :: bool
  aq_selectedId :: "string option"
  aq_detailApproval :: "ApprovalRequest option"
  aq_detailDecisions :: "ApprovalDecision list"
  aq_detailBusy :: bool
  aq_detailError :: "string option"
  aq_memberId :: string
  aq_memberRole :: string
  aq_note :: string
  aq_decisionBusy :: bool
  aq_decisionError :: "string option"

definition initial_approvals :: "string \<Rightarrow> approval_state" where
  "initial_approvals baseUrl =
     \<lparr>aq_baseUrl = baseUrl,
      aq_filters = \<lparr>fl_status = [], fl_teamId = [], fl_traceId = [], fl_jobId = [], fl_toolName = [], fl_runId = [], fl_limit = ''100''\<rparr>,
      aq_approvals = [], aq_listError = None, aq_listBusy = False, aq_selectedId = None, aq_detailApproval = None,
      aq_detailDecisions = [], aq_detailBusy = False, aq_detailError = None, aq_memberId = [], aq_memberRole = [], aq_note = [],
      aq_decisionBusy = False, aq_decisionError = None\<rparr>"

definition aq_base :: "approval_state \<Rightarrow> string" where
  "aq_base st = strip_slashes (js_trim (str_or (aq_baseUrl st) []))"

definition canQuery :: "approval_state \<Rightarrow> bool" where
  "canQuery st = (length (aq_base st) > 0)"

text \<open>\<^verbatim>\<open>Number.parseInt(s, 10)\<close> of a trimmed text: an optional sign and the longest run of digits.\<close>

definition js_parse_int :: "string \<Rightarrow> jsnum" where
  "js_parse_int s =
     (let neg = (s \<noteq> [] \<and> hd s = CHR ''-'');
          body = (if s \<noteq> [] \<and> hd s \<in> {CHR ''-'', CHR ''+''} then tl s else s);
          digits = takeWhile js_digit body
      in if digits = [] then NaN
         else num_of_rat (of_int (if neg then - digits_val digits else digits_val digits)))"

definition parseLimit :: "string \<Rightarrow> rat \<Rightarrow> rat" where
  "parseLimit raw fallback =
     (case js_parse_int (js_trim (str_or raw [])) of
        Fin n \<Rightarrow> if n \<le> 0 then fallback else min n 500
      | _ \<Rightarrow> fallback)"

definition roles_of :: "ApprovalRequest option \<Rightarrow> string list" where
  "roles_of approval = (case approval of None \<Rightarrow> [] | Some a \<Rightarrow> opt_or (ar_role_constraints a) [])"

definition aq_error :: "string option \<Rightarrow> string \<Rightarrow> string" where
  "aq_error msg fallback = ''Error: '' @ str_or (opt_or msg []) fallback"

section \<open>Requests in flight\<close>

text \<open>Each carries the state its callback closed over; the flag says that the decision being submitted waits for it.\<close>

datatype aq_pending =
    AwaitDetail approval_state string bool
  | AwaitList approval_state bool
  | AwaitDecision approval_state string ApprovalDecisionReq

datatype aq_answer =
    Throws string
  | DetailAnswer ApprovalDetailResp
  | ListAnswer ApprovalsListResp
  | DecisionAnswer ApprovalDecisionResp

definition opt_field :: "string \<Rightarrow> string option" where
  "opt_field s = (if js_trim s = [] then None else Some (js_trim s))"

definition list_query :: "approval_filters \<Rightarrow> ApprovalsListQuery" where
  "list_query f =
     \<lparr>q_status = opt_field (fl_status f), q_teamId = opt_field (fl_teamId f), q_traceId = opt_field (fl_traceId f),
      q_jobId = opt_field (fl_jobId f), q_toolName = opt_field (fl_toolName f), q_runId = opt_field (fl_runId f),
      q_limit = parseLimit (fl_limit f) 100\<rparr>"

text \<open>What is sent: the address with its identifier, and the query or the body.\<close>

datatype aq_request =
    GetApproval string string
  | ListApprovals string ApprovalsListQuery
  | PostApprovalDecision string string ApprovalDecisionReq

fun request_of :: "aq_pending \<Rightarrow> aq_request" where
  "request_of (AwaitDetail cl i _) = GetApproval (aq_base cl) i"
| "request_of (AwaitList cl _) = ListApprovals (aq_base cl) (list_query (aq_filters cl))"
| "request_of (AwaitDecision cl i req) = PostApprovalDecision (aq_base cl) i req"

definition decision_over :: "bool \<Rightarrow> approval_state \<Rightarrow> approval_state" where
  "decision_over after st = (if after then st\<lparr>aq_decisionBusy := False\<rparr> else st)"

definition loadDetail :: "approval_state \<Rightarrow> string \<Rightarrow> bool \<Rightarrow> approval_state \<Rightarrow> approval_state \<times> aq_pending list" where
  "loadDetail cl i after st = (st\<lparr>aq_detailError := None, aq_detailBusy := True\<rparr>, [AwaitDetail cl i after])"

definition loadApprovals :: "approval_state \<Rightarrow> bool \<Rightarrow> approval_state \<Rightarrow> approval_state \<times> aq_pending list" where
  "loadApprovals cl after st =
     (let st1 = st\<lparr>aq_listError := None, aq_listBusy := True\<rparr> in
      if \<not> canQuery cl
      then (decision_over after (st1\<lparr>aq_listError := Some ''Error: missing base URL'', aq_listBusy := False\<rparr>), [])
      else (st1, [AwaitList cl after]))"

text \<open>The part of \<^verbatim>\<open>loadDetail\<close> after its await.\<close>

definition detail_failed :: "string \<Rightarrow> approval_state \<Rightarrow> approval_state" where
  "detail_failed e st = st\<lparr>aq_detailError := Some e, aq_detailApproval := None, aq_detailDecisions := [], aq_detailBusy := False\<rparr>"

definition detail_loaded :: "approval_state \<Rightarrow> ApprovalDetailResp \<Rightarrow> approval_state \<Rightarrow> approval_state" where
  "detail_loaded cl res st =
     (if \<not> dr_ok res then detail_failed (aq_error (dr_error res) ''failed to load approval'') st
      else
        let st1 = st\<lparr>aq_detailApproval := dr_approval res, aq_detailDecisions := opt_or (dr_decisions res) [], aq_detailBusy := False\<rparr>;
            roles = roles_of (dr_approval res)
        in if roles \<noteq> [] \<and> js_trim (aq_memberRole cl) = [] then st1\<lparr>aq_memberRole := hd roles\<rparr> else st1)"

definition detail_continues :: "approval_state \<Rightarrow> bool \<Rightarrow> approval_state \<Rightarrow> approval_state \<times> aq_pending list" where
  "detail_continues cl after st = (if after then loadApprovals cl True st else (st, []))"

text \<open>The part of \<^verbatim>\<open>loadApprovals\<close> after its await.\<close>

definition list_loaded :: "ApprovalsListResp \<Rightarrow> approval_state \<Rightarrow> approval_state" where
  "list_loaded res st =
     (if \<not> lr_ok res then st\<lparr>aq_listError := Some (aq_error (lr_error res) ''failed to load approvals''), aq_listBusy := False\<rparr>
      else st\<lparr>aq_approvals := opt_or (lr_approvals res) [], aq_listBusy := False\<rparr>)"

text \<open>The part of \<^verbatim>\<open>submitDecision\<close> after its await; then it loads the detail and the list.\<close>

definition decision_failed :: "string \<Rightarrow> approval_state \<Rightarrow> approval_state" where
  "decision_failed e st = st\<lparr>aq_decisionError := Some e, aq_decisionBusy := False\<rparr>"

definition decision_answered :: "approval_state \<Rightarrow> string \<Rightarrow> ApprovalDecisionResp \<Rightarrow> approval_state \<Rightarrow> approval_state \<times> aq_pending list" where
  "decision_answered cl i res st =
     (if \<not> pr_ok res then (decision_failed (aq_error (pr_error res) ''decision failed'') st, [])
      else loadDetail cl i True st)"

text \<open>An answer of a kind the request does not have cannot occur: \<open>None\<close>.\<close>

fun aq_resume :: "aq_pending \<Rightarrow> aq_answer \<Rightarrow> approval_state \<Rightarrow> (approval_state \<times> aq_pending list) option" where
  "aq_resume (AwaitDetail cl i after) (Throws e) st = Some (detail_continues cl after (detail_failed e st))"
| "aq_resume (AwaitDetail cl i after) (DetailAnswer res) st = Some (detail_continues cl after (detail_loaded cl res st))"
| "aq_resume (AwaitList cl after) (Throws e) st = Some (decision_over after (st\<lparr>aq_listError := Some e, aq_listBusy := False\<rparr>), [])"
| "aq_resume (AwaitList cl after) (ListAnswer res) st = Some (decision_over after (list_loaded res st), [])"
| "aq_resume (AwaitDecision cl i req) (Throws e) st = Some (decision_failed e st, [])"
| "aq_resume (AwaitDecision cl i req) (DecisionAnswer res) st = Some (decision_answered cl i res st)"
| "aq_resume _ _ st = None"

section \<open>What the user does\<close>

definition clearApprovals :: "approval_state \<Rightarrow> approval_state" where
  "clearApprovals st = st\<lparr>aq_approvals := [], aq_listError := None\<rparr>"

definition selectApproval :: "string \<Rightarrow> approval_state \<Rightarrow> approval_state \<times> aq_pending list" where
  "selectApproval i st =
     loadDetail st i False
       (st\<lparr>aq_selectedId := Some i, aq_decisionError := None, aq_memberId := [], aq_memberRole := [], aq_note := []\<rparr>)"

definition decision_request :: "decision_kind \<Rightarrow> approval_state \<Rightarrow> ApprovalDecisionReq" where
  "decision_request d st =
     \<lparr>rq_memberId = js_trim (aq_memberId st), rq_memberRole = opt_field (aq_memberRole st), rq_decision = d, rq_note = opt_field (aq_note st)\<rparr>"

definition submitDecision :: "decision_kind \<Rightarrow> approval_state \<Rightarrow> approval_state \<times> aq_pending list" where
  "submitDecision d st =
     (case aq_selectedId st of
        None \<Rightarrow> (st, [])
      | Some i \<Rightarrow>
          if i = [] then (st, [])
          else
            let st1 = st\<lparr>aq_decisionError := None, aq_decisionBusy := True\<rparr> in
            if js_trim (aq_memberId st) = [] then (decision_failed ''Error: missing member_id'' st1, [])
            else if roles_of (aq_detailApproval st) \<noteq> [] \<and> js_trim (aq_memberRole st) = []
            then (decision_failed ''Error: missing member_role'' st1, [])
            else (st1, [AwaitDecision st i (decision_request d st)]))"

definition isPending :: "approval_state \<Rightarrow> bool" where
  "isPending st =
     (let selectedStatus = (case aq_detailApproval st of None \<Rightarrow> [] | Some a \<Rightarrow> opt_or (ar_status a) [])
      in selectedStatus = ''pending'' \<or> selectedStatus = [])"

datatype aq_event =
    Rerender string
  | SetFilters approval_filters
  | SetMemberId string
  | SetMemberRole string
  | SetNote string
  | LoadApprovals
  | ClearApprovals
  | SelectApproval string
  | SubmitDecision decision_kind
  | Deliver nat aq_answer

record aq_machine =
  aq_st :: approval_state
  aq_flight :: "aq_pending list"

definition aq_start :: "aq_machine \<Rightarrow> approval_state \<times> aq_pending list \<Rightarrow> aq_machine" where
  "aq_start m r = \<lparr>aq_st = fst r, aq_flight = aq_flight m @ snd r\<rparr>"

definition aq_deliver :: "nat \<Rightarrow> aq_answer \<Rightarrow> aq_machine \<Rightarrow> aq_machine" where
  "aq_deliver k ans m =
     (if k < length (aq_flight m) then
        (case aq_resume (aq_flight m ! k) ans (aq_st m) of
           None \<Rightarrow> m
         | Some r \<Rightarrow> \<lparr>aq_st = fst r, aq_flight = take k (aq_flight m) @ drop (Suc k) (aq_flight m) @ snd r\<rparr>)
      else m)"

fun aq_step :: "aq_event \<Rightarrow> aq_machine \<Rightarrow> aq_machine" where
  "aq_step (Rerender b) m = m\<lparr>aq_st := (aq_st m)\<lparr>aq_baseUrl := b\<rparr>\<rparr>"
| "aq_step (SetFilters f) m = m\<lparr>aq_st := (aq_st m)\<lparr>aq_filters := f\<rparr>\<rparr>"
| "aq_step (SetMemberId s) m = m\<lparr>aq_st := (aq_st m)\<lparr>aq_memberId := s\<rparr>\<rparr>"
| "aq_step (SetMemberRole s) m = m\<lparr>aq_st := (aq_st m)\<lparr>aq_memberRole := s\<rparr>\<rparr>"
| "aq_step (SetNote s) m = m\<lparr>aq_st := (aq_st m)\<lparr>aq_note := s\<rparr>\<rparr>"
| "aq_step LoadApprovals m = aq_start m (loadApprovals (aq_st m) False (aq_st m))"
| "aq_step ClearApprovals m = m\<lparr>aq_st := clearApprovals (aq_st m)\<rparr>"
| "aq_step (SelectApproval i) m = aq_start m (selectApproval i (aq_st m))"
| "aq_step (SubmitDecision d) m = aq_start m (submitDecision d (aq_st m))"
| "aq_step (Deliver k ans) m = aq_deliver k ans m"

text \<open>
  The view: the details are offered of listed approvals, and the form with its buttons is shown unless the details
  are being loaded or have failed to load.
\<close>

fun aq_offered :: "approval_state \<Rightarrow> aq_event \<Rightarrow> bool" where
  "aq_offered st (SelectApproval i) = (i \<noteq> [] \<and> list_ex (\<lambda>a. ar_approval_id a = Some i) (aq_approvals st))"
| "aq_offered st (SubmitDecision d) = (\<not> aq_detailBusy st \<and> aq_detailError st = None \<and> isPending st \<and> \<not> aq_decisionBusy st)"
| "aq_offered st _ = True"

text \<open>The decisions a run posts, each with the state of the view it was submitted from.\<close>

fun posted :: "aq_event list \<Rightarrow> aq_machine \<Rightarrow> (approval_state \<times> aq_request) list" where
  "posted [] m = []"
| "posted (ev # evs) m =
     (case ev of SubmitDecision d \<Rightarrow> map (\<lambda>p. (aq_st m, request_of p)) (snd (submitDecision d (aq_st m))) | _ \<Rightarrow> [])
     @ posted evs (aq_step ev m)"

section \<open>Decisions are made on what is shown\<close>

text \<open>
  A server that answers a request for an approval with that approval; and a user who opens no other approval while details
  are being loaded or a decision is being submitted, which the view does not ensure.
\<close>

fun aq_honest :: "aq_machine \<Rightarrow> aq_event \<Rightarrow> bool" where
  "aq_honest m (Deliver k (DetailAnswer res)) =
     (k < length (aq_flight m) \<longrightarrow>
        (case aq_flight m ! k of
           AwaitDetail cl i after \<Rightarrow> dr_ok res \<longrightarrow> map_option ar_approval_id (dr_approval res) = Some (Some i)
         | _ \<Rightarrow> True))"
| "aq_honest m ev = True"

fun aq_calm :: "approval_state \<Rightarrow> aq_event \<Rightarrow> bool" where
  "aq_calm st (SelectApproval i) = (\<not> aq_detailBusy st \<and> \<not> aq_decisionBusy st)"
| "aq_calm st ev = True"

fun all_steps :: "(aq_machine \<Rightarrow> aq_event \<Rightarrow> bool) \<Rightarrow> aq_event list \<Rightarrow> aq_machine \<Rightarrow> bool" where
  "all_steps P [] m = True"
| "all_steps P (ev # evs) m = (P m ev \<and> all_steps P evs (aq_step ev m))"

text \<open>When the form is shown, it shows the selected approval.\<close>

definition shows_selected :: "approval_state \<Rightarrow> bool" where
  "shows_selected st =
     (aq_detailError st = None \<longrightarrow> (case aq_selectedId st of None \<Rightarrow> True
        | Some i \<Rightarrow> map_option ar_approval_id (aq_detailApproval st) = Some (Some i)))"

fun foreground :: "aq_pending \<Rightarrow> bool" where
  "foreground (AwaitList cl after) = after"
| "foreground _ = True"

fun aq_phase :: "aq_pending list \<Rightarrow> approval_state \<Rightarrow> bool" where
  "aq_phase [] st = (\<not> aq_detailBusy st \<and> \<not> aq_decisionBusy st \<and> shows_selected st)"
| "aq_phase [AwaitDetail cl i after] st = (aq_detailBusy st \<and> aq_decisionBusy st = after \<and> aq_selectedId st = Some i)"
| "aq_phase [AwaitDecision cl i req] st = (\<not> aq_detailBusy st \<and> aq_decisionBusy st \<and> aq_selectedId st = Some i \<and> shows_selected st)"
| "aq_phase [AwaitList cl after] st = (\<not> aq_detailBusy st \<and> aq_decisionBusy st \<and> shows_selected st)"
| "aq_phase _ st = False"

definition aq_inv :: "aq_machine \<Rightarrow> bool" where
  "aq_inv m = aq_phase (filter foreground (aq_flight m)) (aq_st m)"

named_theorems approval_defs

lemmas approval_ops [approval_defs] = decision_over_def loadDetail_def loadApprovals_def Let_def detail_failed_def
  detail_loaded_def detail_continues_def list_loaded_def decision_failed_def decision_answered_def clearApprovals_def

lemma shows_selected_other [simp]:
  "shows_selected (st\<lparr>aq_listError := a\<rparr>) = shows_selected st" "shows_selected (st\<lparr>aq_listBusy := b\<rparr>) = shows_selected st"
  "shows_selected (st\<lparr>aq_approvals := c\<rparr>) = shows_selected st" "shows_selected (st\<lparr>aq_decisionBusy := b\<rparr>) = shows_selected st"
  "shows_selected (st\<lparr>aq_decisionError := a\<rparr>) = shows_selected st" "shows_selected (st\<lparr>aq_detailBusy := b\<rparr>) = shows_selected st"
  "shows_selected (st\<lparr>aq_memberRole := e\<rparr>) = shows_selected st" "shows_selected (st\<lparr>aq_memberId := e\<rparr>) = shows_selected st"
  "shows_selected (st\<lparr>aq_baseUrl := e\<rparr>) = shows_selected st" "shows_selected (st\<lparr>aq_filters := g\<rparr>) = shows_selected st"
  "shows_selected (st\<lparr>aq_note := e\<rparr>) = shows_selected st" "shows_selected (st\<lparr>aq_detailDecisions := f\<rparr>) = shows_selected st"
  by (simp_all add: shows_selected_def split: option.split)

lemma shows_selected_detail [simp]:
  "shows_selected (st\<lparr>aq_detailApproval := x\<rparr>) =
     (aq_detailError st = None \<longrightarrow> (case aq_selectedId st of None \<Rightarrow> True | Some i \<Rightarrow> map_option ar_approval_id x = Some (Some i)))"
  by (simp add: shows_selected_def split: option.split)

lemma aq_phase_other [simp]:
  "aq_phase ps (st\<lparr>aq_baseUrl := t\<rparr>) = aq_phase ps st" "aq_phase ps (st\<lparr>aq_filters := fs\<rparr>) = aq_phase ps st"
  "aq_phase ps (st\<lparr>aq_memberId := t\<rparr>) = aq_phase ps st" "aq_phase ps (st\<lparr>aq_memberRole := t\<rparr>) = aq_phase ps st"
  "aq_phase ps (st\<lparr>aq_note := t\<rparr>) = aq_phase ps st" "aq_phase ps (st\<lparr>aq_listError := e\<rparr>) = aq_phase ps st"
  "aq_phase ps (st\<lparr>aq_listBusy := b\<rparr>) = aq_phase ps st" "aq_phase ps (st\<lparr>aq_approvals := as\<rparr>) = aq_phase ps st"
  by (cases "(ps, st)" rule: aq_phase.cases; simp)+

lemma aq_phase_idle: "aq_phase ps st \<Longrightarrow> \<not> aq_detailBusy st \<Longrightarrow> \<not> aq_decisionBusy st \<Longrightarrow> ps = [] \<and> shows_selected st"
  by (cases "(ps, st)" rule: aq_phase.cases) auto

lemma aq_inv_idle:
  assumes "aq_inv m" "\<not> aq_detailBusy (aq_st m)" "\<not> aq_decisionBusy (aq_st m)"
  shows "filter foreground (aq_flight m) = [] \<and> shows_selected (aq_st m)"
  using aq_phase_idle assms unfolding aq_inv_def by blast

lemma aq_phase_single: "aq_phase ps st \<Longrightarrow> ps = [] \<or> (\<exists>p. ps = [p])"
  by (cases "(ps, st)" rule: aq_phase.cases) auto

lemma filter_without_nth:
  assumes "k < length xs"
  shows "\<not> P (xs ! k) \<Longrightarrow> filter P (take k xs @ drop (Suc k) xs) = filter P xs"
    and "P (xs ! k) \<Longrightarrow> filter P xs = [p] \<Longrightarrow> xs ! k = p \<and> filter P (take k xs @ drop (Suc k) xs) = []"
proof -
  have e: "filter P xs = filter P (take k xs) @ filter P (xs ! k # drop (Suc k) xs)"
    using assms by (metis filter_append id_take_nth_drop)
  show "\<not> P (xs ! k) \<Longrightarrow> filter P (take k xs @ drop (Suc k) xs) = filter P xs" using e by simp
  show "P (xs ! k) \<Longrightarrow> filter P xs = [p] \<Longrightarrow> xs ! k = p \<and> filter P (take k xs @ drop (Suc k) xs) = []"
    using e by (auto simp: append_eq_Cons_conv)
qed

lemma loaded_fields [simp]:
  "aq_detailBusy (detail_loaded cl res st) = False" "aq_decisionBusy (detail_loaded cl res st) = aq_decisionBusy st"
  "aq_detailBusy (detail_failed e st) = False" "aq_decisionBusy (detail_failed e st) = aq_decisionBusy st"
  by (simp_all add: detail_loaded_def detail_failed_def Let_def)

lemma failed_shows [simp]: "shows_selected (detail_failed e st)"
  by (simp add: detail_failed_def)

lemma loaded_shows:
  assumes "aq_selectedId st = Some i" "dr_ok res \<longrightarrow> map_option ar_approval_id (dr_approval res) = Some (Some i)"
  shows "shows_selected (detail_loaded cl res st)"
  using assms by (simp add: detail_loaded_def Let_def)

lemma continues_phase:
  assumes "\<not> aq_detailBusy st" "aq_decisionBusy st = after" "shows_selected st"
  shows "aq_phase (filter foreground (snd (detail_continues cl after st))) (fst (detail_continues cl after st))"
  using assms by (simp add: detail_continues_def loadApprovals_def decision_over_def Let_def)

lemma aq_resume_phase:
  assumes ph: "aq_phase [p] st" and fg: "foreground p" and r: "aq_resume p ans st = Some r"
    and hon: "\<And>cl i after res. p = AwaitDetail cl i after \<Longrightarrow> ans = DetailAnswer res \<Longrightarrow>
       dr_ok res \<longrightarrow> map_option ar_approval_id (dr_approval res) = Some (Some i)"
  shows "aq_phase (filter foreground (snd r)) (fst r)"
proof (cases p)
  case (AwaitDetail cl i after)
  then show ?thesis using ph r hon [OF AwaitDetail]
    by (cases ans) (auto intro!: continues_phase loaded_shows)
next
  case (AwaitList cl after)
  then show ?thesis using ph fg r by (cases ans) (auto simp: decision_over_def list_loaded_def)
next
  case (AwaitDecision cl i req)
  then show ?thesis using ph r by (cases ans) (auto simp: decision_answered_def decision_failed_def loadDetail_def)
qed

lemma aq_resume_background:
  assumes "aq_phase ps st" "\<not> foreground p" "aq_resume p ans st = Some r"
  shows "snd r = [] \<and> aq_phase ps (fst r)"
proof -
  obtain cl where p: "p = AwaitList cl False" using assms(2) by (cases p) auto
  show ?thesis using assms(1,3) unfolding p by (cases ans) (auto simp: decision_over_def list_loaded_def)
qed

lemma aq_inv_deliver:
  assumes "aq_inv m" "aq_honest m (Deliver k ans)"
  shows "aq_inv (aq_deliver k ans m)"
proof (cases "k < length (aq_flight m) \<and> aq_resume (aq_flight m ! k) ans (aq_st m) \<noteq> None")
  case True
  let ?p = "aq_flight m ! k" and ?ps = "filter foreground (aq_flight m)"
  obtain r where r: "aq_resume ?p ans (aq_st m) = Some r" and k: "k < length (aq_flight m)" using True by auto
  have m': "aq_deliver k ans m = \<lparr>aq_st = fst r, aq_flight = (take k (aq_flight m) @ drop (Suc k) (aq_flight m)) @ snd r\<rparr>"
    using k r by (simp add: aq_deliver_def)
  show ?thesis
  proof (cases "foreground ?p")
    case fg: True
    obtain p where p: "?ps = [p]"
      using aq_phase_single assms(1) fg k unfolding aq_inv_def by (metis filter_empty_conv nth_mem)
    note f = filter_without_nth(2) [OF k fg p]
    have "dr_ok res \<longrightarrow> map_option ar_approval_id (dr_approval res) = Some (Some i)" if "?p = AwaitDetail cl i after" "ans = DetailAnswer res" for cl i after res
      using assms(2) k that by simp
    then have "aq_phase (filter foreground (snd r)) (fst r)"
      using aq_resume_phase [OF _ fg r] assms(1) p f unfolding aq_inv_def by simp
    then show ?thesis using f by (simp add: aq_inv_def m')
  next
    case False
    then show ?thesis
      using aq_resume_background [OF _ False r] filter_without_nth(1) [OF k, of foreground] False assms(1) by (simp add: aq_inv_def m')
  qed
next
  case False
  then have "aq_deliver k ans m = m" by (auto simp: aq_deliver_def split: option.split)
  then show ?thesis using assms by simp
qed

lemma aq_inv_step:
  assumes "aq_inv m" "aq_offered (aq_st m) ev" "aq_calm (aq_st m) ev" "aq_honest m ev"
  shows "aq_inv (aq_step ev m)"
proof (cases ev)
  case (SelectApproval i)
  then show ?thesis using assms aq_inv_idle [OF assms(1)] by (simp add: aq_inv_def aq_start_def selectApproval_def loadDetail_def)
next
  case (SubmitDecision d)
  then show ?thesis using assms aq_inv_idle [OF assms(1)]
    by (auto simp: aq_inv_def aq_start_def submitDecision_def decision_failed_def shows_selected_def Let_def split: option.split)
next
  case (Deliver k ans)
  then show ?thesis using assms aq_inv_deliver by simp
qed (use assms in \<open>auto simp: aq_inv_def aq_start_def loadApprovals_def clearApprovals_def decision_over_def Let_def\<close>)

lemma submitDecision_posts:
  assumes "p \<in> set (snd (submitDecision d st))"
  obtains i where "aq_selectedId st = Some i" "p = AwaitDecision st i (decision_request d st)" "js_trim (aq_memberId st) \<noteq> []"
    "roles_of (aq_detailApproval st) \<noteq> [] \<longrightarrow> js_trim (aq_memberRole st) \<noteq> []"
  using assms by (auto simp: submitDecision_def Let_def split: option.splits if_splits)

text \<open>What is required of a posted decision, with the state of the view it was submitted from.\<close>

fun decision_vetted :: "approval_state \<times> aq_request \<Rightarrow> bool" where
  "decision_vetted (st, PostApprovalDecision b i req) =
     (b = aq_base st \<and> isPending st \<and> js_trim (rq_memberId req) \<noteq> [] \<and>
      (case aq_detailApproval st of None \<Rightarrow> False
       | Some a \<Rightarrow> ar_approval_id a = Some i \<and> (opt_or (ar_role_constraints a) [] \<noteq> [] \<longrightarrow> rq_memberRole req \<noteq> None)))"
| "decision_vetted _ = False"

lemma submitted_vetted:
  assumes "aq_inv m" "aq_offered (aq_st m) (SubmitDecision d)" "p \<in> set (snd (submitDecision d (aq_st m)))"
  shows "decision_vetted (aq_st m, request_of p)"
proof -
  have "shows_selected (aq_st m)" using assms(2) aq_inv_idle [OF assms(1)] by simp
  moreover obtain i where "aq_selectedId (aq_st m) = Some i" "p = AwaitDecision (aq_st m) i (decision_request d (aq_st m))"
    "js_trim (aq_memberId (aq_st m)) \<noteq> []" "roles_of (aq_detailApproval (aq_st m)) \<noteq> [] \<longrightarrow> js_trim (aq_memberRole (aq_st m)) \<noteq> []"
    using submitDecision_posts [OF assms(3)] .
  ultimately show ?thesis using assms(2) by (auto simp: shows_selected_def roles_of_def decision_request_def opt_field_def split: option.splits)
qed

lemma posted_vetted:
  assumes "aq_inv m" "all_steps (\<lambda>m ev. aq_offered (aq_st m) ev \<and> aq_calm (aq_st m) ev \<and> aq_honest m ev) evs m" "x \<in> set (posted evs m)"
  shows "decision_vetted x"
  using assms
proof (induction evs arbitrary: m)
  case (Cons ev evs)
  then show ?case using aq_inv_step [of m ev] submitted_vetted [of m] by (cases ev) (auto split: aq_event.splits)
qed simp

text \<open>
  C10. When the server answers a request for an approval with that approval, and no approval is opened while details are being loaded
  or a decision is being submitted, then every decision the queue posts, in whatever order the answers of its requests arrive and
  whatever fails, is for the approval whose details the form shows, which is pending, names a member, and gives a role if that
  approval has role constraints.
\<close>

theorem decisions_as_shown:
  assumes "all_steps (\<lambda>m ev. aq_offered (aq_st m) ev \<and> aq_calm (aq_st m) ev \<and> aq_honest m ev) evs \<lparr>aq_st = initial_approvals b, aq_flight = []\<rparr>"
    and "x \<in> set (posted evs \<lparr>aq_st = initial_approvals b, aq_flight = []\<rparr>)"
  shows "decision_vetted x"
  using assms by (rule posted_vetted [rotated]) (simp add: aq_inv_def initial_approvals_def shows_selected_def)

definition example_approval :: "string \<Rightarrow> string list \<Rightarrow> ApprovalRequest" where
  "example_approval i roles =
     \<lparr>ar_approval_id = Some i, ar_run_id = None, ar_trace_id = None, ar_session_id = None, ar_job_id = None, ar_team_id = None,
      ar_tool_name = Some ''shell'', ar_tool_call_id = None, ar_tool_args_hash = None, ar_status = Some ''pending'',
      ar_required_approvals = None, ar_role_constraints = Some roles, ar_created_unix_ms = None, ar_expires_unix_ms = None,
      ar_decision_reason = None\<rparr>"

definition example_detail :: "string \<Rightarrow> string list \<Rightarrow> aq_answer" where
  "example_detail i roles = DetailAnswer \<lparr>dr_ok = True, dr_approval = Some (example_approval i roles), dr_decisions = None, dr_error = None\<rparr>"

definition example_list :: aq_answer where
  "example_list = ListAnswer \<lparr>lr_ok = True, lr_approvals = Some [example_approval ''a'' [], example_approval ''b'' [''ops'']], lr_error = None\<rparr>"

lemmas approval_example = example_approval_def example_detail_def example_list_def initial_approvals_def aq_start_def aq_deliver_def
  selectApproval_def submitDecision_def decision_request_def isPending_def roles_of_def opt_field_def canQuery_def aq_base_def
  strip_slashes_def str_or_def js_trim_eval approval_defs

theorem decisions_as_shown_witness:
  "decision_vetted
     ((initial_approvals ''http://h'')\<lparr>aq_approvals := [example_approval ''a'' [], example_approval ''b'' [''ops'']],
        aq_selectedId := Some ''b'', aq_detailApproval := Some (example_approval ''b'' [''ops'']), aq_memberId := ''me'', aq_memberRole := ''ops''\<rparr>,
      PostApprovalDecision ''http://h'' ''b'' \<lparr>rq_memberId = ''me'', rq_memberRole = Some ''ops'', rq_decision = Approve, rq_note = None\<rparr>)"
  by (rule decisions_as_shown [where b = "''http://h''" and
        evs = "[LoadApprovals, Deliver 0 example_list, SelectApproval ''b'', Deliver 0 (example_detail ''b'' [''ops'']), SetMemberId ''me'', SubmitDecision Approve]"])
    (simp_all add: approval_example)

text \<open>
  The view does not keep the user from opening a second approval while the first is being loaded. The first answer then
  shows the first approval with its form, and the decision taken on it is posted for the second, which was never shown.
\<close>

lemma overlapping_details_mislead:
  assumes "i \<noteq> []" "j \<noteq> []" "js_trim mem \<noteq> []" "dr_ok res" "dr_approval res = Some a" "ar_approval_id a = Some i"
    "ar_status a = Some ''pending''" "ar_role_constraints a = None" "{Some i, Some j} \<subseteq> ar_approval_id ` set (aq_approvals st)"
    "\<not> aq_decisionBusy st" "evs = [SelectApproval i, SelectApproval j, Deliver 0 (DetailAnswer res), SetMemberId mem, SubmitDecision d]"
  shows "all_steps (\<lambda>m ev. aq_offered (aq_st m) ev \<and> aq_honest m ev) evs \<lparr>aq_st = st, aq_flight = []\<rparr>"
    and "\<exists>st' req. posted evs \<lparr>aq_st = st, aq_flight = []\<rparr> = [(st', PostApprovalDecision (aq_base st) j req)] \<and> aq_detailApproval st' = Some a"
  using assms by (auto simp: aq_start_def aq_deliver_def selectApproval_def loadDetail_def detail_loaded_def detail_continues_def submitDecision_def
      isPending_def roles_of_def Let_def list_ex_iff aq_base_def)

text \<open>
  The role offered by the details is filled in only if the role of the previous approval was blank, since the callback closed over it
  before the selection cleared it: after an approval whose role was filled in, the next one's is not.
\<close>

lemma stale_role_not_filled:
  assumes "js_trim (aq_memberRole st) \<noteq> []"
  shows "aq_memberRole (detail_loaded st res (fst (selectApproval i st))) = []"
  using assms by (simp add: detail_loaded_def selectApproval_def loadDetail_def detail_failed_def Let_def)

lemma blank_role_filled:
  assumes "js_trim (aq_memberRole st) = []" "dr_ok res" "roles_of (dr_approval res) \<noteq> []"
  shows "aq_memberRole (detail_loaded st res (fst (selectApproval i st))) = hd (roles_of (dr_approval res))"
  using assms by (simp add: detail_loaded_def Let_def)

lemma parseLimit_range: "0 < fallback \<Longrightarrow> fallback \<le> 500 \<Longrightarrow> 0 < parseLimit raw fallback \<and> parseLimit raw fallback \<le> 500"
  by (simp add: parseLimit_def split: jsnum.split)

end
