(* ===== verification/Sse.thy ===== *)
theory Sse
  imports Js_Text
begin

text \<open>
  \<^verbatim>\<open>src/ui/src/sse.ts\<close>: the reader of server-sent events over \<^verbatim>\<open>fetch\<close>. A block of lines is
  parsed into an event; the stream is cut into blocks at empty lines as its chunks
  arrive. The body is the list of its decoded chunks, with the rejection of
  \<^verbatim>\<open>reader.read()\<close>, if any, at its end; the events handed to \<^verbatim>\<open>onEvent\<close> are returned in
  the order of the calls.
\<close>

section \<open>Model\<close>

record SseEvent =
  ev_event :: string
  ev_data :: string
  ev_id :: "string option"

abbreviation LF :: char where "LF \<equiv> CHR 0x0A"
abbreviation CR :: char where "CR \<equiv> CHR 0x0D"

record sse_fields =
  f_event :: string
  f_id :: "string option"
  f_data :: "string list"

definition sse_line :: "sse_fields \<Rightarrow> string \<Rightarrow> sse_fields" where
  "sse_line st rawLine =
     (let line = js_trim_end rawLine in
      if line = [] then st
      else if js_starts_with line '':'' then st
      else case js_index_of line '':'' of
             None \<Rightarrow> st
           | Some idx \<Rightarrow>
               (let k = js_trim (take idx line); v = js_trim_start (drop (idx + 1) line) in
                if k = ''event'' then st\<lparr>f_event := v\<rparr>
                else if k = ''id'' then st\<lparr>f_id := Some v\<rparr>
                else if k = ''data'' then st\<lparr>f_data := f_data st @ [v]\<rparr>
                else st))"

definition parseSseBlock :: "string \<Rightarrow> SseEvent option" where
  "parseSseBlock block =
     (let lines = js_split LF (filter (\<lambda>c. c \<noteq> CR) block);
          st = foldl sse_line \<lparr>f_event = ''message'', f_id = None, f_data = []\<rparr> lines
      in if f_data st = [] \<and> f_event st = ''message'' \<and> (f_id st = None \<or> f_id st = Some [])
         then None
         else Some \<lparr>ev_event = f_event st, ev_data = js_join [LF] (f_data st), ev_id = f_id st\<rparr>)"

text \<open>The inner loop: cut the buffer at every \<^verbatim>\<open>"\n\n"\<close>, keep what follows the last one.\<close>

function drain :: "string \<Rightarrow> SseEvent list \<times> string" where
  "drain buf =
     (case js_index_of buf [LF, LF] of
        None \<Rightarrow> ([], buf)
      | Some sep \<Rightarrow>
          (let block = take sep buf; (evs, rest) = drain (drop (sep + 2) buf)
           in case parseSseBlock block of
                None \<Rightarrow> (evs, rest)
              | Some ev \<Rightarrow> (ev # evs, rest)))"
  by pat_completeness auto
termination
  by (relation "measure length") (auto dest: js_index_of_bound)

declare drain.simps [simp del]

fun read_chunks :: "string \<Rightarrow> string list \<Rightarrow> SseEvent list \<times> string" where
  "read_chunks buf [] = ([], buf)"
| "read_chunks buf (chunk # chunks) =
     (let (evs, buf') = drain (buf @ chunk); (evs', rest) = read_chunks buf' chunks
      in (evs @ evs', rest))"

datatype sse_error = NoBody | ReadFailed string

definition readSseStream ::
  "(string list \<times> string option) option \<Rightarrow> SseEvent list \<times> sse_error option" where
  "readSseStream body =
     (case body of
        None \<Rightarrow> ([], Some NoBody)
      | Some (chunks, failure) \<Rightarrow>
          (fst (read_chunks [] chunks), map_option ReadFailed failure))"

section \<open>Chunking\<close>

text \<open>The first separator of a prefix is the first separator of the whole.\<close>

lemma drain_None: "js_index_of buf [LF, LF] = None \<Longrightarrow> drain buf = ([], buf)"
  by (simp add: drain.simps [of buf])

lemma drain_Some:
  "js_index_of buf [LF, LF] = Some sep \<Longrightarrow>
   drain buf = (let (evs, rest) = drain (drop (sep + 2) buf) in
                case parseSseBlock (take sep buf) of
                  None \<Rightarrow> (evs, rest) | Some ev \<Rightarrow> (ev # evs, rest))"
  by (simp add: drain.simps [of buf])

lemma drain_append:
  "drain (a @ b) = (let (e1, r) = drain a; (e2, r') = drain (r @ b) in (e1 @ e2, r'))"
proof (induction a rule: drain.induct)
  case (1 a)
  show ?case
  proof (cases "js_index_of a [LF, LF]")
    case None
    then show ?thesis by (simp add: drain_None)
  next
    case (Some sep)
    then have ab: "js_index_of (a @ b) [LF, LF] = Some sep" by (rule js_index_of_append)
    have le: "sep + 2 \<le> length a" using js_index_of_bound [OF Some] by simp
    then have "drop (sep + 2) (a @ b) = drop (sep + 2) a @ b" and "take sep (a @ b) = take sep a"
      by simp_all
    with 1 [OF Some refl] show ?thesis
      unfolding drain_Some [OF Some] drain_Some [OF ab]
      by (simp add: case_prod_beta Let_def split: option.split del: take_append drop_append)
  qed
qed

lemma drain_rest: "js_index_of (snd (drain a)) [LF, LF] = None"
proof (induction a rule: drain.induct)
  case (1 a)
  show ?case
  proof (cases "js_index_of a [LF, LF]")
    case None
    then show ?thesis by (simp add: drain_None)
  next
    case (Some sep)
    with 1 [OF Some refl] show ?thesis
      by (simp add: drain_Some case_prod_beta split: option.split)
  qed
qed

lemma read_chunks_concat: "read_chunks buf chunks = drain (buf @ concat chunks)"
  if "js_index_of buf [LF, LF] = None"
  using that
proof (induction chunks arbitrary: buf)
  case Nil
  then show ?case by (simp add: drain_None)
next
  case (Cons c cs)
  have "js_index_of (snd (drain (buf @ c))) [LF, LF] = None" by (rule drain_rest)
  then show ?case
    using Cons.IH [of "snd (drain (buf @ c))"] drain_append [of "buf @ c" "concat cs"]
    by (simp add: case_prod_beta Let_def)
qed

lemma index_of_Nil_sep [simp]: "js_index_of [] [LF, LF] = None"
  by (simp add: js_index_of_Nil)

lemma readSseStream_events:
  "fst (readSseStream (Some (chunks, failure))) = fst (drain (concat chunks))"
  by (simp add: readSseStream_def read_chunks_concat)

section \<open>The wire format\<close>

text \<open>
  The event as the daemon writes it: one line per field, one \<^verbatim>\<open>data\<close> line per line of the
  payload, and an empty line at the end. \<open>wire_ok\<close> lists what the format can carry: fields
  without line breaks and without white space at their ends.
\<close>

definition sse_field :: "string \<Rightarrow> string \<Rightarrow> string" where
  "sse_field k v = k @ '': '' @ v"

definition sse_lines :: "SseEvent \<Rightarrow> string list" where
  "sse_lines ev =
     [sse_field ''event'' (ev_event ev)] @ (case ev_id ev of None \<Rightarrow> [] | Some i \<Rightarrow> [sse_field ''id'' i])
     @ map (sse_field ''data'') (js_split LF (ev_data ev))"

definition sse_wire :: "SseEvent \<Rightarrow> string" where
  "sse_wire ev = js_join [LF] (sse_lines ev) @ [LF, LF]"

definition field_ok :: "string \<Rightarrow> bool" where
  "field_ok t = (trimmed t \<and> LF \<notin> set t \<and> CR \<notin> set t)"

definition wire_ok :: "SseEvent \<Rightarrow> bool" where
  "wire_ok ev =
     (ev_event ev \<noteq> [] \<and> field_ok (ev_event ev) \<and>
      (case ev_id ev of None \<Rightarrow> True | Some i \<Rightarrow> i \<noteq> [] \<and> field_ok i) \<and>
      list_all field_ok (js_split LF (ev_data ev)))"

lemma js_index_of_char: "c \<notin> set k \<Longrightarrow> js_index_of (k @ c # r) [c] = Some (length k)"
  by (induction k) (auto simp: js_index_of_Cons js_starts_with_def)

text \<open>Reading back one field line.\<close>

lemma trim_end_field:
  assumes "k \<noteq> []" and "trimmed v"
  shows "js_trim_end (k @ '': '' @ v) = (if v = [] then k @ '':'' else k @ '': '' @ v)"
proof (cases "v = []")
  case True
  have "is_ws CHR '' ''" and "\<not> is_ws CHR '':''" by (simp_all add: is_ws_def)
  with True show ?thesis by (simp add: js_trim_end_def)
next
  case False
  with assms(2) have "\<not> is_ws (last v)" by (simp add: trimmed_def)
  with False show ?thesis by (simp add: js_trim_end_noop)
qed

lemma sse_line_field:
  assumes "k \<noteq> []" "CHR '':'' \<notin> set k" "trimmed k" "trimmed v"
  shows "sse_line st (sse_field k v) =
    (if k = ''event'' then st\<lparr>f_event := v\<rparr>
     else if k = ''id'' then st\<lparr>f_id := Some v\<rparr>
     else if k = ''data'' then st\<lparr>f_data := f_data st @ [v]\<rparr> else st)"
proof -
  define line where "line = (if v = [] then k @ '':'' else k @ '': '' @ v)"
  have ns: "\<not> js_starts_with line '':''"
    using assms(1,2) by (cases k) (auto simp: js_starts_with_def line_def)
  have idx: "js_index_of line '':'' = Some (length k)"
    using js_index_of_char [OF assms(2)] by (auto simp: line_def)
  have v: "js_trim_start (drop (length k + 1) line) = v"
    using assms(4) by (cases v) (auto simp: js_trim_start_def trimmed_def is_ws_def line_def)
  have k: "js_trim (take (length k) line) = k"
    using assms(3) by (auto simp: js_trim_id line_def)
  have "js_trim_end (sse_field k v) = line" and "line \<noteq> []"
    using trim_end_field [OF assms(1,4)] assms(1) by (simp_all add: sse_field_def line_def)
  then show ?thesis by (simp add: sse_line_def Let_def ns idx v [simplified] k)
qed

lemma sse_line_keys:
  assumes "trimmed v"
  shows "sse_line st (sse_field ''event'' v) = st\<lparr>f_event := v\<rparr>"
    and "sse_line st (sse_field ''id'' v) = st\<lparr>f_id := Some v\<rparr>"
    and "sse_line st (sse_field ''data'' v) = st\<lparr>f_data := f_data st @ [v]\<rparr>"
  using sse_line_field [of "''event''" v st] sse_line_field [of "''id''" v st]
    sse_line_field [of "''data''" v st] assms
  by (simp_all add: trimmed_def is_ws_def)

lemma foldl_data_lines:
  "list_all field_ok ls \<Longrightarrow>
   foldl sse_line st (map (sse_field ''data'') ls) = st\<lparr>f_data := f_data st @ ls\<rparr>"
  by (induction ls arbitrary: st) (auto simp: field_ok_def sse_line_keys)

lemma sse_lines_clean:
  assumes "wire_ok ev" and "l \<in> set (sse_lines ev)"
  shows "l \<noteq> [] \<and> LF \<notin> set l \<and> CR \<notin> set l"
  using assms by (auto simp: wire_ok_def sse_lines_def sse_field_def field_ok_def list_all_iff split: option.splits)

lemma sse_lines_ne [simp]: "sse_lines ev \<noteq> []"
  by (simp add: sse_lines_def)

lemma parseSseBlock_wire:
  assumes ok: "wire_ok ev"
  shows "parseSseBlock (js_join [LF] (sse_lines ev)) = Some ev"
proof -
  let ?b = "js_join [LF] (sse_lines ev)"
  let ?st0 = "\<lparr>f_event = ''message'', f_id = None, f_data = []\<rparr>"
  have "CR \<notin> set ?b"
    using set_js_join [of "[LF]" "sse_lines ev"] sse_lines_clean [OF ok] by fastforce
  then have cr: "filter (\<lambda>c. c \<noteq> CR) ?b = ?b" by (auto simp: filter_id_conv)
  have split: "js_split LF ?b = sse_lines ev"
    using sse_lines_clean [OF ok] by (intro js_split_join) auto
  have f: "list_all field_ok (js_split LF (ev_data ev))" "trimmed (ev_event ev)"
    and i: "\<And>i. ev_id ev = Some i \<Longrightarrow> trimmed i"
    using ok by (auto simp: wire_ok_def field_ok_def split: option.splits)
  have st: "foldl sse_line ?st0 (sse_lines ev) =
    \<lparr>f_event = ev_event ev, f_id = ev_id ev, f_data = js_split LF (ev_data ev)\<rparr>"
    using i by (auto simp: sse_lines_def foldl_data_lines [OF f(1)] sse_line_keys f(2) split: option.splits)
  show ?thesis by (simp add: parseSseBlock_def cr split st)
qed

lemma js_index_of_sep:
  assumes "\<And>x. x \<in> set xs \<Longrightarrow> x \<noteq> [] \<and> LF \<notin> set x" and "xs \<noteq> []"
  shows "js_index_of (js_join [LF] xs @ LF # LF # r) [LF, LF] = Some (length (js_join [LF] xs))"
  using assms
proof (induction xs rule: induct_list012)
  case 1
  then show ?case by simp
next
  case (2 x)
  then have "LF \<notin> set x" by simp
  then show ?case by (induction x) (auto simp: js_index_of_Cons js_starts_with_def)
next
  case (3 x y zs)
  let ?t = "js_join [LF] (y # zs) @ LF # LF # r"
  have y: "y \<noteq> []" "LF \<notin> set y" and x: "LF \<notin> set x" using "3.prems"(1) by auto
  have ih: "js_index_of ?t [LF, LF] = Some (length (js_join [LF] (y # zs)))"
    using "3.prems" by (intro "3.IH"(2)) auto
  obtain c t' where ct: "?t = c # t'" and "c \<noteq> LF"
    using y by (cases y; cases zs) auto
  then have "\<not> js_starts_with (LF # ?t) [LF, LF]" by (simp add: ct js_starts_with_def)
  then have "js_index_of (LF # ?t) [LF, LF] = Some (Suc (length (js_join [LF] (y # zs))))"
    by (simp add: js_index_of_Cons ih)
  with x show ?case
    by (induction x) (auto simp: js_index_of_Cons js_starts_with_def)
qed

lemma drain_wire:
  "wire_ok ev \<Longrightarrow> drain (sse_wire ev @ r) = (let (evs, rest) = drain r in (ev # evs, rest))"
proof -
  assume ok: "wire_ok ev"
  let ?b = "js_join [LF] (sse_lines ev)"
  have "js_index_of (sse_wire ev @ r) [LF, LF] = Some (length ?b)"
    using js_index_of_sep [of "sse_lines ev" r] sse_lines_clean [OF ok] by (simp add: sse_wire_def)
  then show ?thesis
    by (simp add: drain_Some sse_wire_def parseSseBlock_wire [OF ok])
qed

text \<open>The daemon also sends comment blocks as keep-alives (\<^verbatim>\<open>sse_ping\<close>).\<close>

datatype wire_item = Wire SseEvent | Ping

primrec item_text :: "wire_item \<Rightarrow> string" where
  "item_text (Wire ev) = sse_wire ev"
| "item_text Ping = '': ping'' @ [LF, LF]"

primrec item_ok :: "wire_item \<Rightarrow> bool" where
  "item_ok (Wire ev) = wire_ok ev"
| "item_ok Ping = True"

primrec item_events :: "wire_item \<Rightarrow> SseEvent list" where
  "item_events (Wire ev) = [ev]"
| "item_events Ping = []"

lemma drain_ping: "drain (item_text Ping @ r) = drain r"
proof -
  have "js_index_of (item_text Ping @ r) [LF, LF] = Some 6"
    by (simp add: js_index_of_Cons js_starts_with_def)
  moreover have "parseSseBlock '': ping'' = None"
    by (simp add: parseSseBlock_def sse_line_def js_trim_end_def is_ws_def js_starts_with_def Let_def)
  ultimately show ?thesis by (simp add: drain_Some)
qed

lemma drain_items:
  "list_all item_ok items \<Longrightarrow>
   drain (concat (map item_text items)) = (concat (map item_events items), [])"
proof (induction items)
  case (Cons it items)
  then show ?case
    using drain_wire drain_ping [of "concat (map item_text items)"] by (cases it) simp_all
qed (simp add: drain_None)

section \<open>Properties\<close>

text \<open>
  C1. Chunk independence: the events delivered depend only on the text of the stream, not
  on how the network cuts it into chunks. Two bodies with the same text deliver the same
  events in the same order, wherever a chunk boundary falls (inside a line, a separator or
  an event).
\<close>

theorem readSseStream_chunking:
  assumes "concat chunks = concat chunks'"
  shows "fst (readSseStream (Some (chunks, f))) = fst (readSseStream (Some (chunks', f')))"
  using assms by (simp add: readSseStream_events)

theorem readSseStream_chunking_witness:
  "concat [''event: a'' @ [LF], [LF]] = concat [''eve'', ''nt: a'' @ [LF, LF]] \<and>
   fst (readSseStream (Some ([''event: a'' @ [LF], [LF]], None))) =
   fst (readSseStream (Some ([''eve'', ''nt: a'' @ [LF, LF]], Some ''aborted'')))"
proof -
  have h: "concat [''event: a'' @ [LF], [LF]] = concat [''eve'', ''nt: a'' @ [LF, LF]]" by simp
  show ?thesis using h readSseStream_chunking [OF h, of None "Some ''aborted''"] by blast
qed

text \<open>
  C14. Round trip with the wire format: when the daemon writes a sequence of events and
  keep-alive comments, every event with fields the format can carry, the reader hands over
  exactly the events of that sequence, in order, however the bytes are chunked.
\<close>

theorem readSseStream_wire:
  assumes "list_all item_ok items" and "concat chunks = concat (map item_text items)"
  shows "readSseStream (Some (chunks, None)) = (concat (map item_events items), None)"
  using assms by (simp add: readSseStream_def read_chunks_concat drain_items)

theorem readSseStream_wire_witness:
  "readSseStream (Some (['': ping'' @ [LF, LF] @ ''event: job_done'' @ [LF] @ ''id: 7'' @ [LF] @ ''da'',
      ''ta: {}'' @ [LF, LF]], None)) =
   ([\<lparr>ev_event = ''job_done'', ev_data = ''{}'', ev_id = Some ''7''\<rparr>], None)"
proof -
  let ?ev = "\<lparr>ev_event = ''job_done'', ev_data = ''{}'', ev_id = Some ''7''\<rparr>"
  have "list_all item_ok [Ping, Wire ?ev]"
    by (simp add: wire_ok_def field_ok_def trimmed_def is_ws_def)
  moreover have "concat ['': ping'' @ [LF, LF] @ ''event: job_done'' @ [LF] @ ''id: 7'' @ [LF] @ ''da'',
      ''ta: {}'' @ [LF, LF]] = concat (map item_text [Ping, Wire ?ev])"
    by (simp add: sse_wire_def sse_lines_def sse_field_def)
  ultimately show ?thesis using readSseStream_wire by fastforce
qed

text \<open>The same text with every line feed preceded by a carriage return.\<close>

definition crlf :: "string \<Rightarrow> string" where
  "crlf t = concat (map (\<lambda>c. if c = LF then [CR, LF] else [c]) t)"

lemma crlf_hd: "crlf t = c # r \<Longrightarrow> c \<noteq> LF"
  by (cases t) (auto simp: crlf_def split: if_splits)

lemma crlf_no_sep: "js_index_of (crlf t) [LF, LF] = None"
proof (induction t)
  case (Cons c t)
  have step: "js_index_of (LF # crlf t) [LF, LF] = None"
    using Cons.IH crlf_hd [of t] by (cases "crlf t") (auto simp: js_index_of_Cons js_starts_with_def)
  have "crlf (c # t) = (if c = LF then [CR, LF] else [c]) @ crlf t" by (simp add: crlf_def)
  with step Cons.IH show ?case by (auto simp: js_index_of_Cons js_starts_with_def)
qed (simp add: crlf_def)

text \<open>
  C40. Line endings: the block separator is searched as two line feeds in a row, before the
  carriage returns are removed. A server that ends its lines with CR LF, as the event stream
  format allows, has none of its events delivered: the whole stream stays in the buffer.
\<close>

theorem readSseStream_crlf_starves:
  assumes "concat chunks = crlf text"
  shows "readSseStream (Some (chunks, None)) = ([], None)"
  using assms by (simp add: readSseStream_def read_chunks_concat drain_None crlf_no_sep)

theorem readSseStream_crlf_starves_witness:
  "readSseStream (Some ([crlf (''event: job_done'' @ [LF] @ ''data: {}'' @ [LF, LF])], None)) = ([], None)"
  by (rule readSseStream_crlf_starves) simp

end
