(* ===== verification/Live_Log.thy ===== *)
theory Live_Log
  imports Js_Prelude
begin

text \<open>
  Bounded event logs. \<^verbatim>\<open>src/ui/src/liveEvents.ts\<close> keeps the last 2000 events of a run; the
  session stream (theory \<open>Session_Stream\<close>) keeps the last 200. Both promise the same thing,
  stated here as a locale: whatever is pushed, the log is the newest suffix of everything
  that was ever pushed.
\<close>

text \<open>\<open>newest n xs\<close>: the last \<open>n\<close> elements, as \<^verbatim>\<open>xs.slice(-n)\<close> for positive \<open>n\<close>.\<close>

definition newest :: "nat \<Rightarrow> 'a list \<Rightarrow> 'a list" where
  "newest n xs = drop (length xs - n) xs"

lemma length_newest [simp]: "length (newest n xs) = min n (length xs)"
  by (simp add: newest_def)

lemma newest_short [simp]: "length xs \<le> n \<Longrightarrow> newest n xs = xs"
  by (simp add: newest_def)

lemma newest_Nil [simp]: "newest n [] = []"
  by (simp add: newest_def)

lemma set_newest: "set (newest n xs) \<subseteq> set xs"
  by (simp add: newest_def set_drop_subset)

lemma suffix_newest: "suffix (newest n xs) xs"
  by (simp add: newest_def suffix_drop)

lemma newest_append_newest [simp]: "newest n (newest n xs @ ys) = newest n (xs @ ys)"
  by (cases "n \<le> length xs") (simp_all add: newest_def add.commute)

lemma distinct_newest: "distinct xs \<Longrightarrow> distinct (newest n xs)"
  by (simp add: newest_def)

lemma last_newest: "0 < n \<Longrightarrow> xs \<noteq> [] \<Longrightarrow> last (newest n xs) = last xs"
  by (simp add: newest_def)

locale bounded_log =
  fixes cap :: nat
    and log :: "'s \<Rightarrow> 'e list"
    and push :: "'s \<Rightarrow> 'e list \<Rightarrow> 's"
    and ok :: "'s \<Rightarrow> 'e list \<Rightarrow> bool"
  assumes log_push: "length (log s) \<le> cap \<Longrightarrow> ok s es \<Longrightarrow> log (push s es) = newest cap (log s @ es)"
begin

text \<open>\<open>ok\<close> is what the log demands of a push; \<open>all_ok\<close> that every push of a run meets it.\<close>

primrec all_ok :: "'s \<Rightarrow> 'e list list \<Rightarrow> bool" where
  "all_ok s [] = True"
| "all_ok s (es # ess) = (ok s es \<and> all_ok (push s es) ess)"

lemma bound_push: "length (log s) \<le> cap \<Longrightarrow> ok s es \<Longrightarrow> length (log (push s es)) \<le> cap"
  by (simp add: log_push)

lemma log_run:
  "length (log s) \<le> cap \<Longrightarrow> all_ok s ess \<Longrightarrow>
   log (foldl push s ess) = newest cap (log s @ concat ess)"
proof (induction ess arbitrary: s)
  case (Cons es ess)
  then have "log (foldl push (push s es) ess) = newest cap (log (push s es) @ concat ess)"
    by (intro Cons.IH) (simp_all add: bound_push)
  with Cons.prems show ?case by (simp add: log_push)
qed simp

lemma bound_run:
  "length (log s) \<le> cap \<Longrightarrow> all_ok s ess \<Longrightarrow> length (log (foldl push s ess)) \<le> cap"
  by (simp add: log_run)

end

section \<open>Live events\<close>

definition LIVE_EVENTS_MAX :: nat where
  "LIVE_EVENTS_MAX = 2000"

definition capLiveEvents :: "'e list \<Rightarrow> 'e list" where
  "capLiveEvents events =
     (if length events \<le> LIVE_EVENTS_MAX then events
      else drop (length events - LIVE_EVENTS_MAX) events)"

text \<open>A single event is passed as a one-element chunk.\<close>

definition appendLiveEvents :: "'e list \<Rightarrow> 'e list \<Rightarrow> 'e list" where
  "appendLiveEvents prev chunk = (if length chunk = 0 then prev else capLiveEvents (prev @ chunk))"

lemma capLiveEvents_newest: "capLiveEvents events = newest LIVE_EVENTS_MAX events"
  by (simp add: capLiveEvents_def newest_def)

interpretation live: bounded_log LIVE_EVENTS_MAX "\<lambda>s. s" appendLiveEvents "\<lambda>_ _. True"
  by unfold_locales (auto simp: appendLiveEvents_def capLiveEvents_newest)

lemma live_all_ok [simp]: "live.all_ok s ess"
  by (induction ess arbitrary: s) simp_all

text \<open>
  Whatever sequence of chunks arrives, the live log holds exactly the newest 2000 events
  of the whole history, in order; it never loses a recent event and never grows past the cap.
\<close>

lemma appendLiveEvents_run:
  "foldl appendLiveEvents [] chunks = newest LIVE_EVENTS_MAX (concat chunks) \<and>
   length (foldl appendLiveEvents [] chunks) = min 2000 (length (concat chunks))"
proof -
  have "foldl appendLiveEvents [] chunks = newest LIVE_EVENTS_MAX (concat chunks)"
    using live.log_run [of "[]" chunks] by simp
  then show ?thesis by (simp add: LIVE_EVENTS_MAX_def)
qed

end
