(* ===== verification/Js_Json.thy ===== *)
theory Js_Json
  imports Js_Text
begin

text \<open>
  \<^verbatim>\<open>JSON.parse\<close> as an executable function: \<open>None\<close> is the \<^verbatim>\<open>SyntaxError\<close> it throws. The
  grammar is that of ECMA-404; a repeated member overwrites the value and keeps the
  position of the first one. A \<^verbatim>\<open>\u\<close> escape above \<^verbatim>\<open>00FF\<close> is outside the modelled alphabet
  and is refused. The recursion is bounded by fuel; \<open>json_value_fuel\<close> shows that the
  fuel of \<open>json_parse\<close> is always enough.
\<close>

definition json_ws :: "string \<Rightarrow> string" where
  "json_ws s = dropWhile (\<lambda>c. c \<in> {CHR '' '', CHR 0x09, CHR 0x0A, CHR 0x0D}) s"

definition json_unescape :: "char \<Rightarrow> char option" where
  "json_unescape e =
     (if e \<in> {CHR 0x22, CHR 0x5C, CHR ''/''} then Some e
      else if e = CHR ''b'' then Some CHR 0x08
      else if e = CHR ''f'' then Some CHR 0x0C
      else if e = CHR ''n'' then Some CHR 0x0A
      else if e = CHR ''r'' then Some CHR 0x0D
      else if e = CHR ''t'' then Some CHR 0x09
      else None)"

definition json_hex4 :: "string \<Rightarrow> char option" where
  "json_hex4 s =
     (if length s < 4 then None
      else case radix_val 16 (take 4 s) of
             None \<Rightarrow> None
           | Some n \<Rightarrow> if n < 256 then Some (char_of n) else None)"

text \<open>The rest of a string literal after its opening quote: the text and what follows.\<close>

fun json_string :: "string \<Rightarrow> (string \<times> string) option" where
  "json_string [] = None"
| "json_string (c # s) =
     (if c = CHR 0x22 then Some ([], s)
      else if c = CHR 0x5C then
        (case s of
           [] \<Rightarrow> None
         | e # r \<Rightarrow>
             if e = CHR ''u'' then
               (case json_hex4 r of
                  None \<Rightarrow> None
                | Some x \<Rightarrow> map_option (map_prod ((#) x) id) (json_string (drop 4 r)))
             else
               (case json_unescape e of
                  None \<Rightarrow> None
                | Some x \<Rightarrow> map_option (map_prod ((#) x) id) (json_string r)))
      else if (of_char c :: int) < 32 then None
      else map_option (map_prod ((#) c) id) (json_string s))"

text \<open>A number: the longest prefix made of the characters of a number, checked as a whole.\<close>

definition json_num_char :: "char \<Rightarrow> bool" where
  "json_num_char c = (js_digit c \<or> c \<in> {CHR ''+'', CHR ''-'', CHR ''.'', CHR ''e'', CHR ''E''})"

definition json_num_ok :: "string \<Rightarrow> bool" where
  "json_num_ok s =
     (let u = (if js_starts_with s ''-'' then tl s else s);
          ip = takeWhile js_digit u; r = dropWhile js_digit u
      in ip \<noteq> [] \<and> (ip = ''0'' \<or> hd ip \<noteq> CHR ''0'') \<and>
         (js_starts_with r ''.'' \<longrightarrow> tl r \<noteq> [] \<and> js_digit (hd (tl r))) \<and>
         unsigned_decimal u \<noteq> None)"

definition json_number :: "string \<Rightarrow> (jsval \<times> string) option" where
  "json_number s =
     (let t = takeWhile json_num_char s in
      if json_num_ok t then Some (JNum (js_Number_str t), dropWhile json_num_char s) else None)"

definition json_literal :: "string \<Rightarrow> jsval \<Rightarrow> string \<Rightarrow> (jsval \<times> string) option" where
  "json_literal w v s = (if js_starts_with s w then Some (v, drop (length w) s) else None)"

fun json_value :: "nat \<Rightarrow> string \<Rightarrow> (jsval \<times> string) option"
and json_elems :: "nat \<Rightarrow> string \<Rightarrow> (jsval list \<times> string) option"
and json_members :: "nat \<Rightarrow> jsval jsobj \<Rightarrow> string \<Rightarrow> (jsval jsobj \<times> string) option" where
  "json_value 0 s = None"
| "json_value (Suc n) s =
     (case json_ws s of
        [] \<Rightarrow> None
      | c # r \<Rightarrow>
          if c = CHR 0x22 then map_option (map_prod JStr id) (json_string r)
          else if c = CHR ''['' then
            (case json_ws r of
               d # r' \<Rightarrow> if d = CHR '']'' then Some (JArr [], r')
                          else map_option (map_prod JArr id) (json_elems n r)
             | [] \<Rightarrow> None)
          else if c = CHR ''{'' then
            (case json_ws r of
               d # r' \<Rightarrow> if d = CHR ''}'' then Some (JObj [], r')
                          else map_option (map_prod JObj id) (json_members n [] r)
             | [] \<Rightarrow> None)
          else if c = CHR ''t'' then json_literal ''true'' (JBool True) (c # r)
          else if c = CHR ''f'' then json_literal ''false'' (JBool False) (c # r)
          else if c = CHR ''n'' then json_literal ''null'' JNull (c # r)
          else json_number (c # r))"
| "json_elems 0 s = None"
| "json_elems (Suc n) s =
     (case json_value n s of
        None \<Rightarrow> None
      | Some (v, r) \<Rightarrow>
          (case json_ws r of
             [] \<Rightarrow> None
           | d # r' \<Rightarrow>
               if d = CHR '']'' then Some ([v], r')
               else if d = CHR '','' then map_option (map_prod ((#) v) id) (json_elems n r')
               else None))"
| "json_members 0 ps s = None"
| "json_members (Suc n) ps s =
     (case json_ws s of
        [] \<Rightarrow> None
      | q # r \<Rightarrow>
          if q \<noteq> CHR 0x22 then None
          else case json_string r of
            None \<Rightarrow> None
          | Some (k, r1) \<Rightarrow>
              (case json_ws r1 of
                 [] \<Rightarrow> None
               | d # r2 \<Rightarrow>
                   if d \<noteq> CHR '':'' then None
                   else case json_value n r2 of
                     None \<Rightarrow> None
                   | Some (v, r3) \<Rightarrow>
                       (case json_ws r3 of
                          [] \<Rightarrow> None
                        | e # r4 \<Rightarrow>
                            if e = CHR ''}'' then Some (obj_put ps k v, r4)
                            else if e = CHR '','' then json_members n (obj_put ps k v) r4
                            else None)))"

definition json_parse :: "string \<Rightarrow> jsval option" where
  "json_parse s =
     (case json_value (2 * length s + 2) s of
        None \<Rightarrow> None
      | Some (v, r) \<Rightarrow> if json_ws r = [] then Some v else None)"

section \<open>The fuel is enough\<close>

lemma length_json_ws: "length (json_ws s) \<le> length s"
  by (simp add: json_ws_def length_dropWhile_le)

lemma length_json_ws_Cons: "json_ws s = c # r \<Longrightarrow> length r < length s"
  using length_json_ws [of s] by simp

lemma json_string_shorter: "json_string s = Some (t, r) \<Longrightarrow> length r < length s"
proof (induction s arbitrary: t r rule: json_string.induct)
  case (2 c s)
  then show ?case
    by (fastforce split: if_splits list.splits option.splits)
qed simp

lemma json_literal_shorter: "w \<noteq> [] \<Longrightarrow> json_literal w v s = Some (u, r) \<Longrightarrow> length r < length s"
  by (auto simp: json_literal_def js_starts_with_iff split: if_splits)

lemma json_number_shorter: "json_number s = Some (u, r) \<Longrightarrow> length r < length s"
proof -
  assume a: "json_number s = Some (u, r)"
  have "takeWhile json_num_char s \<noteq> []"
    using a by (auto simp: json_number_def json_num_ok_def js_starts_with_def Let_def split: if_splits)
  then have "0 < length (takeWhile json_num_char s)" by simp
  moreover have "length s = length (takeWhile json_num_char s) + length (dropWhile json_num_char s)"
    by (metis length_append takeWhile_dropWhile_id)
  ultimately show ?thesis using a by (auto simp: json_number_def Let_def split: if_splits)
qed

lemma json_shorter:
  "json_value n s = Some (v, r) \<Longrightarrow> length r < length s"
  "json_elems n s = Some (vs, r) \<Longrightarrow> length r < length s"
  "json_members n ps s = Some (qs, r) \<Longrightarrow> length r < length s"
proof (induction n s and n s and n ps s arbitrary: v r and vs r and qs r
    rule: json_value_json_elems_json_members.induct)
  case (2 n s)
  from "2.prems" obtain c t where ws: "json_ws s = c # t" by (auto split: list.splits)
  then have t: "length (c # t) \<le> length s" using length_json_ws_Cons by fastforce
  show ?case
    using "2.prems" 2(1,2) ws t
    by (auto split: if_splits list.splits dest!: json_string_shorter json_literal_shorter [rotated]
        json_number_shorter length_json_ws_Cons) force+
next
  case (4 n s)
  from "4.prems" obtain u t d r' where v: "json_value n s = Some (u, t)" and ws: "json_ws t = d # r'"
    by (auto split: option.splits list.splits)
  with 4(1) have "length r' < length s" using length_json_ws_Cons [OF ws] by fastforce
  then show ?case using "4.prems" 4(2) [OF v refl ws] v ws
    by (auto split: if_splits)
next
  case (6 n ps s)
  then show ?case
    by (auto split: if_splits list.splits option.splits
        dest!: json_string_shorter length_json_ws_Cons) (fastforce dest: length_json_ws_Cons)+
qed simp_all

text \<open>More fuel than twice the length of the text never changes the result.\<close>

lemma json_fuel_Suc:
  "2 * length s + 1 \<le> n \<Longrightarrow> json_value (Suc n) s = json_value n s"
  "2 * length s + 2 \<le> n \<Longrightarrow> json_elems (Suc n) s = json_elems n s"
  "2 * length s + 2 \<le> n \<Longrightarrow> json_members (Suc n) ps s = json_members n ps s"
proof (induction n arbitrary: s ps)
  case (Suc n)
  {
    case 1
    have "2 * length t + 2 \<le> n" if "json_ws s = c # t" for c t
      using length_json_ws_Cons [OF that] "1" by simp
    then show ?case
      by (auto simp del: json_value.simps json_elems.simps json_members.simps
          simp: json_value.simps(2) [of n s] json_value.simps(2) [of "Suc n" s] Suc.IH split: list.split)
  next
    case 2
    have v: "json_value (Suc n) s = json_value n s" using 2 by (intro Suc.IH) simp
    have "2 * length r' + 2 \<le> n" if "json_value n s = Some (u, t)" "json_ws t = d # r'" for u t d r'
      using json_shorter(1) [OF that(1)] length_json_ws_Cons [OF that(2)] 2 by simp
    then show ?case
      by (auto simp del: json_value.simps json_elems.simps json_members.simps
          simp: json_elems.simps(2) [of n s] json_elems.simps(2) [of "Suc n" s] v Suc.IH
          split: list.split option.split)
  next
    case 3
    have a: "2 * length r2 + 3 \<le> n"
      if "json_ws s = q # r" "json_string r = Some (k, r1)" "json_ws r1 = d # r2" for q r k r1 d r2
      using length_json_ws_Cons [OF that(1)] json_string_shorter [OF that(2)]
        length_json_ws_Cons [OF that(3)] 3 by simp
    have b: "2 * length r4 + 2 \<le> n"
      if "2 * length r2 + 3 \<le> n" "json_value n r2 = Some (v, r3)" "json_ws r3 = e # r4" for r2 v r3 e r4
      using json_shorter(1) [OF that(2)] length_json_ws_Cons [OF that(3)] that(1) by simp
    show ?case
      by (auto simp del: json_value.simps json_elems.simps json_members.simps
          simp: json_members.simps(2) [of n ps s] json_members.simps(2) [of "Suc n" ps s] Suc.IH
          split: list.split option.split dest!: a) (meson Suc.IH(3) b)
  }
qed simp_all

lemma json_value_fuel:
  "2 * length s + 1 \<le> n \<Longrightarrow> json_value (n + k) s = json_value n s"
  by (induction k) (simp_all add: json_fuel_Suc del: json_value.simps)

declare json_value.simps [simp del] json_elems.simps [simp del] json_members.simps [simp del]

section \<open>JSON.stringify\<close>

text \<open>
  \<^verbatim>\<open>JSON.stringify(v, null, n)\<close> with \<open>gap\<close> the \<open>n\<close> spaces (empty for the compact form):
  \<open>None\<close> is the \<^verbatim>\<open>undefined\<close> that an undefined value gives. Undefined members are left out,
  undefined elements are written \<^verbatim>\<open>null\<close>.
\<close>

definition hex_digit :: "int \<Rightarrow> char" where
  "hex_digit d = char_of (if d < 10 then d + 48 else d + 87)"

definition json_escape :: "char \<Rightarrow> string" where
  "json_escape c =
     (if c = CHR 0x22 \<or> c = CHR 0x5C then [CHR 0x5C, c]
      else if c = CHR 0x08 then [CHR 0x5C, CHR ''b'']
      else if c = CHR 0x0C then [CHR 0x5C, CHR ''f'']
      else if c = CHR 0x0A then [CHR 0x5C, CHR ''n'']
      else if c = CHR 0x0D then [CHR 0x5C, CHR ''r'']
      else if c = CHR 0x09 then [CHR 0x5C, CHR ''t'']
      else if (of_char c :: int) < 32 then
        [CHR 0x5C, CHR ''u'', CHR ''0'', CHR ''0'', hex_digit (of_char c div 16), hex_digit (of_char c mod 16)]
      else [c])"

definition json_quote :: "string \<Rightarrow> string" where
  "json_quote s = [CHR 0x22] @ concat (map json_escape s) @ [CHR 0x22]"

definition json_bracket :: "char \<Rightarrow> char \<Rightarrow> string \<Rightarrow> string \<Rightarrow> string list \<Rightarrow> string" where
  "json_bracket l r gap ind parts =
     (if parts = [] then [l, r]
      else if gap = [] then [l] @ js_join '','' parts @ [r]
      else [l, CHR 0x0A] @ ind @ gap @ js_join ('','' @ [CHR 0x0A] @ ind @ gap) parts
           @ [CHR 0x0A] @ ind @ [r])"

lemma size_js_entries [termination_simp]:
  "(k, v) \<in> set (js_entries ps) \<Longrightarrow> size v < Suc (size_list (size_prod (\<lambda>x. 0) size) ps)"
  by (induction ps) (auto simp: less_Suc_eq)

fun json_stringify :: "string \<Rightarrow> string \<Rightarrow> jsval \<Rightarrow> string option" where
  "json_stringify gap ind JUndef = None"
| "json_stringify gap ind JNull = Some ''null''"
| "json_stringify gap ind (JBool b) = Some (if b then ''true'' else ''false'')"
| "json_stringify gap ind (JNum n) = Some (if is_finite n then num_str n else ''null'')"
| "json_stringify gap ind (JStr s) = Some (json_quote s)"
| "json_stringify gap ind (JArr xs) =
     Some (json_bracket CHR ''['' CHR '']'' gap ind
       (map (\<lambda>x. case json_stringify gap (ind @ gap) x of None \<Rightarrow> ''null'' | Some t \<Rightarrow> t) xs))"
| "json_stringify gap ind (JObj ps) =
     Some (json_bracket CHR ''{'' CHR ''}'' gap ind
       (concat (map (\<lambda>(k, v). case json_stringify gap (ind @ gap) v of
                        None \<Rightarrow> []
                      | Some t \<Rightarrow> [json_quote k @ '':'' @ (if gap = [] then [] else '' '') @ t])
                    (js_entries ps))))"

abbreviation json_compact :: "jsval \<Rightarrow> string option" where
  "json_compact \<equiv> json_stringify [] []"

abbreviation json_pretty :: "jsval \<Rightarrow> string option" where
  "json_pretty \<equiv> json_stringify ''  '' []"

lemma json_stringify_None: "json_stringify gap ind v = None \<longleftrightarrow> v = JUndef"
  by (cases v) auto

end
