(* ===== verification/Broker_Events.thy ===== *)
theory Broker_Events
  imports Sse Live_Log Js_Json
begin

text \<open>
  \<^verbatim>\<open>src/ui/src/components/broker/useBrokerEventsState.ts\<close> and \<^verbatim>\<open>brokerPanelUtils.ts\<close>: the log of broker events, filled by a replay request and by
  an event stream, and the cursor that says from when on events are replayed, kept in local storage and in the
  preferences on the broker. \<open>broker_view\<close> holds the properties and the React state; what a
  callback closed over is the \<open>broker_view\<close> it was made for. A \<open>Commit\<close> runs the effects of a render in the order of the source, those whose
  dependencies changed since the last commit; state they set is seen by the next one. The credentials are represented by \<^verbatim>\<open>authKey\<close>.
\<close>

section \<open>Rows and cursors\<close>

definition asObjectRecord :: "jsval \<Rightarrow> jsval jsobj option" where
  "asObjectRecord v = (case v of JObj o' \<Rightarrow> Some o' | _ \<Rightarrow> None)"

definition finite_number :: "jsval \<Rightarrow> jsnum option" where
  "finite_number v = (case v of JNum n \<Rightarrow> if is_finite n then Some n else None | _ \<Rightarrow> None)"

definition normalizeDeploymentId :: "jsval \<Rightarrow> string" where
  "normalizeDeploymentId raw = str_or (js_trim (js_String (js_or raw (JStr [])))) ''default''"

record BrokerEventRow =
  br_type :: string
  br_ts_unix_ms :: "jsnum option"
  br_event_id :: "string option"
  br_trace_id :: "string option"
  br_payload :: "jsval jsobj option"

definition text_if_truthy :: "jsval \<Rightarrow> string option" where
  "text_if_truthy v = (if truthy v then Some (js_String v) else None)"

definition normalizeBrokerEventRow :: "jsval \<Rightarrow> jsval \<Rightarrow> BrokerEventRow option" where
  "normalizeBrokerEventRow parsed fallbackType =
     (let event = asObjectRecord parsed;
          field = (\<lambda>k. case event of None \<Rightarrow> JUndef | Some e \<Rightarrow> obj_get e k)
      in if event = None \<and> \<not> truthy fallbackType then None
         else
           let eventType = js_String (js_or (field ''type'') (js_or fallbackType (JStr ''message''))) in
           if eventType = [] then None
           else Some \<lparr>br_type = eventType, br_ts_unix_ms = as_num (field ''ts_unix_ms''), br_event_id = text_if_truthy (field ''event_id''),
                  br_trace_id = text_if_truthy (field ''trace_id''), br_payload = asObjectRecord (field ''payload'')\<rparr>)"

definition normalizeBrokerReplayEvents :: "jsval \<Rightarrow> BrokerEventRow list" where
  "normalizeBrokerReplayEvents events =
     (case events of JArr es \<Rightarrow> List.map_filter (\<lambda>e. normalizeBrokerEventRow e (js_get e ''type'')) es | _ \<Rightarrow> [])"

record BrokerFanoutResult =
  fr_deployment_id :: string
  fr_status :: jsnum
  fr_data :: "jsval jsobj"

definition fanout_row :: "string list option \<Rightarrow> nat \<times> jsval \<Rightarrow> BrokerFanoutResult" where
  "fanout_row fallbackIds p =
     (let rec = opt_or (asObjectRecord (snd p)) [];
          fallback = (case fallbackIds of None \<Rightarrow> JUndef | Some ids \<Rightarrow> if fst p < length ids then JStr (ids ! fst p) else JUndef);
          dep = normalizeDeploymentId (js_coalesce (obj_get rec ''deployment_id'') (js_coalesce (obj_get rec ''deploymentId'')
                  (js_coalesce (obj_get rec ''deployment'') (js_coalesce fallback (JStr [])))));
          statusRaw = obj_get rec ''status'';
          parsedStatus = (case statusRaw of JNum n \<Rightarrow> n | _ \<Rightarrow> js_Number (js_or statusRaw (JNum (Fin 0))));
          data = opt_or (asObjectRecord (js_coalesce (obj_get rec ''data'') (js_coalesce (obj_get rec ''response'') (obj_get rec ''body'')))) rec
      in \<lparr>fr_deployment_id = dep, fr_status = (if is_finite parsedStatus then parsedStatus else Fin 0), fr_data = data\<rparr>)"

definition normalizeBrokerFanoutResults :: "jsval \<Rightarrow> string list option \<Rightarrow> BrokerFanoutResult list option" where
  "normalizeBrokerFanoutResults rows fallbackIds =
     (case rows of JArr xs \<Rightarrow> Some (map (fanout_row fallbackIds) (List.enumerate 0 xs)) | _ \<Rightarrow> None)"

record BrokerCursorEntry =
  bc_cursor_ts :: jsnum
  bc_updated_unix_ms :: "jsnum option"

definition object_entries :: "jsval \<Rightarrow> jsval jsobj" where
  "object_entries v = (case v of JObj es \<Rightarrow> js_entries es | JArr xs \<Rightarrow> map (\<lambda>(i, x). (nat_str i, x)) (List.enumerate 0 xs) | _ \<Rightarrow> [])"

definition is_object :: "jsval \<Rightarrow> bool" where
  "is_object v = (truthy v \<and> typeof_object v)"

definition put_cursor :: "BrokerCursorEntry jsobj \<Rightarrow> string \<times> jsval \<Rightarrow> BrokerCursorEntry jsobj" where
  "put_cursor out p =
     (if \<not> is_object (snd p) then out
      else case js_get (snd p) ''cursor_ts'' of
        JNum cursor \<Rightarrow>
          if \<not> is_finite cursor \<or> num_le cursor (Fin 0) then out
          else obj_put out (fst p) \<lparr>bc_cursor_ts = cursor, bc_updated_unix_ms = as_num (js_get (snd p) ''updated_unix_ms'')\<rparr>
      | _ \<Rightarrow> out)"

definition extractBrokerEventsCursorByScope :: "jsval \<Rightarrow> BrokerCursorEntry jsobj" where
  "extractBrokerEventsCursorByScope prefs =
     (if \<not> is_object prefs then []
      else let raw = js_get prefs ''broker_events_cursor'' in
      if \<not> is_object raw then []
      else let byScope = js_get raw ''by_scope'' in
      if \<not> is_object byScope then []
      else foldl put_cursor [] (object_entries byScope))"

section \<open>State\<close>

datatype cursor_status = CsIdle | CsLoading | CsReady | CsError

record broker_view =
  bv_base :: string
  bv_authKey :: string
  bv_clientId :: string
  bv_open :: bool
  bv_canQuery :: bool
  bv_events :: "BrokerEventRow list"
  bv_error :: "string option"
  bv_active :: bool
  bv_connected :: bool
  bv_quorumOnly :: bool
  bv_replayBusy :: bool
  bv_replayError :: "string option"
  bv_replayNote :: "string option"
  bv_cursorTs :: jsnum
  bv_byScope :: "BrokerCursorEntry jsobj"
  bv_status :: cursor_status

datatype broker_call =
    GetPrefs broker_view
  | PostPrefs string jsval
  | GetReplay broker_view jsnum

record broker_world =
  bw_view :: broker_view
  bw_shown :: "broker_view option"
  bw_cursorRef :: jsnum
  bw_replayKey :: string
  bw_loadKey :: string
  bw_timer :: "broker_view option"
  bw_pending :: "BrokerCursorEntry jsobj option"
  bw_stream :: "string option"
  bw_store :: "string \<Rightarrow> string option"
  bw_flight :: "broker_call list"

definition BROKER_EVENTS_MAX :: nat where
  "BROKER_EVENTS_MAX = 200"

definition BROKER_EVENTS_PREFS_KIND :: string where
  "BROKER_EVENTS_PREFS_KIND = ''webui-broker-events''"

definition brokerEventsCursorKey :: "broker_view \<Rightarrow> string" where
  "brokerEventsCursorKey v =
     (if bv_base v = [] \<or> bv_authKey v = [] then [] else ''agentd:broker:eventsCursor:'' @ bv_base v @ '':'' @ bv_authKey v)"

definition brokerEventsScopeKey :: "broker_view \<Rightarrow> string" where
  "brokerEventsScopeKey v = (if bv_base v = [] then [] else bv_base v @ ''::'' @ js_trim (str_or (bv_authKey v) []))"

definition brokerPrefsClientId :: "broker_view \<Rightarrow> string" where
  "brokerPrefsClientId v = str_or (bv_clientId v) ''webui''"

definition prefs_ready :: "broker_view \<Rightarrow> bool" where
  "prefs_ready v = (bv_base v \<noteq> [] \<and> brokerPrefsClientId v \<noteq> [] \<and> brokerEventsScopeKey v \<noteq> [])"

text \<open>\<^verbatim>\<open>n || 0\<close>, \<^verbatim>\<open>Math.max(a, b)\<close>, and the cursor a table has for a scope.\<close>

definition num_or0 :: "jsnum option \<Rightarrow> jsnum" where
  "num_or0 n = (case n of None \<Rightarrow> Fin 0 | Some x \<Rightarrow> if x = NaN then Fin 0 else x)"

definition math_max :: "jsnum \<Rightarrow> jsnum \<Rightarrow> jsnum" where
  "math_max a b = (if a = NaN \<or> b = NaN then NaN else if num_lt a b then b else a)"

definition scope_ts :: "BrokerCursorEntry jsobj \<Rightarrow> string \<Rightarrow> jsnum" where
  "scope_ts m k = num_or0 (map_option bc_cursor_ts (map_of m k))"

definition cursor_json :: "BrokerCursorEntry \<Rightarrow> jsval" where
  "cursor_json e = JObj [(''cursor_ts'', JNum (bc_cursor_ts e)), (''updated_unix_ms'', case bc_updated_unix_ms e of None \<Rightarrow> JUndef | Some n \<Rightarrow> JNum n)]"

definition prefs_payload :: "broker_view \<Rightarrow> BrokerCursorEntry jsobj \<Rightarrow> jsval" where
  "prefs_payload v m =
     JObj [(''client_id'', JStr (brokerPrefsClientId v)), (''client_kind'', JStr BROKER_EVENTS_PREFS_KIND),
       (''prefs'', JObj [(''broker_events_cursor'', JObj [(''version'', JNum (Fin 1)), (''by_scope'', JObj (map (\<lambda>(k, e). (k, cursor_json e)) m))])])]"

section \<open>The callbacks\<close>

definition set_view :: "(broker_view \<Rightarrow> broker_view) \<Rightarrow> broker_world \<Rightarrow> broker_world" where
  "set_view f w = w\<lparr>bw_view := f (bw_view w)\<rparr>"

definition send :: "broker_call \<Rightarrow> broker_world \<Rightarrow> broker_world" where
  "send c w = w\<lparr>bw_flight := bw_flight w @ [c]\<rparr>"

definition pushBrokerEventsCursor :: "broker_view \<Rightarrow> BrokerCursorEntry jsobj \<Rightarrow> broker_world \<Rightarrow> broker_world" where
  "pushBrokerEventsCursor cl m w = (if \<not> prefs_ready cl then w else send (PostPrefs (bv_base cl) (prefs_payload cl m)) w)"

definition scheduleBrokerEventsCursorPersist :: "broker_view \<Rightarrow> BrokerCursorEntry jsobj \<Rightarrow> broker_world \<Rightarrow> broker_world" where
  "scheduleBrokerEventsCursorPersist cl nextMap w =
     (if \<not> prefs_ready cl \<or> bv_status cl = CsError then w
      else w\<lparr>bw_pending := Some nextMap, bw_timer := (if bw_timer w = None then Some cl else bw_timer w)\<rparr>)"

definition cursor_timer :: "broker_world \<Rightarrow> broker_world" where
  "cursor_timer w =
     (case bw_timer w of
        None \<Rightarrow> w
      | Some cl \<Rightarrow>
          let w1 = w\<lparr>bw_pending := None, bw_timer := None\<rparr> in
          case bw_pending w of None \<Rightarrow> w1 | Some pending \<Rightarrow> pushBrokerEventsCursor cl pending w1)"

definition loadBrokerEventsCursor :: "broker_view \<Rightarrow> broker_world \<Rightarrow> broker_world" where
  "loadBrokerEventsCursor cl w =
     (if \<not> bv_canQuery cl \<or> \<not> prefs_ready cl then w
      else send (GetPrefs cl) (set_view (\<lambda>v. v\<lparr>bv_status := CsLoading\<rparr>) w))"

definition set_cursor :: "jsnum \<Rightarrow> broker_world \<Rightarrow> broker_world" where
  "set_cursor ts = set_view (\<lambda>v. v\<lparr>bv_cursorTs := ts\<rparr>)"

definition set_byScope :: "BrokerCursorEntry jsobj \<Rightarrow> broker_world \<Rightarrow> broker_world" where
  "set_byScope m = set_view (\<lambda>v. v\<lparr>bv_byScope := m\<rparr>)"

text \<open>The answer of the preferences.\<close>

definition prefs_loaded :: "rat \<Rightarrow> broker_view \<Rightarrow> jsval \<Rightarrow> broker_world \<Rightarrow> broker_world" where
  "prefs_loaded now cl prefs w =
     (let remoteMap = extractBrokerEventsCursorByScope prefs;
          w1 = set_byScope remoteMap w;
          remoteTs = scope_ts remoteMap (brokerEventsScopeKey cl);
          localTs = num_or0 (Some (bw_cursorRef w));
          merged = math_max localTs remoteTs;
          w2 = (if num_lt localTs merged then set_cursor merged w1 else w1);
          nextMap = obj_put remoteMap (brokerEventsScopeKey cl) \<lparr>bc_cursor_ts = merged, bc_updated_unix_ms = Some (Fin now)\<rparr>;
          w3 = (if num_lt remoteTs merged then scheduleBrokerEventsCursorPersist cl nextMap (set_byScope nextMap w2) else w2)
      in set_view (\<lambda>v. v\<lparr>bv_status := CsReady\<rparr>) w3)"

definition event_key :: "BrokerEventRow \<Rightarrow> string" where
  "event_key r =
     str_or (opt_or (br_event_id r) [])
       (br_type r @ '':'' @ num_str (num_or0 (br_ts_unix_ms r)) @ '':'' @ opt_or (br_trace_id r) [])"

fun append_rows :: "string set \<Rightarrow> BrokerEventRow list \<Rightarrow> BrokerEventRow list \<Rightarrow> BrokerEventRow list" where
  "append_rows seen next [] = next"
| "append_rows seen next (row # rows) =
     (if event_key row \<in> seen then append_rows seen next rows else append_rows (insert (event_key row) seen) (next @ [row]) rows)"

definition append_events :: "BrokerEventRow list \<Rightarrow> BrokerEventRow list \<Rightarrow> BrokerEventRow list" where
  "append_events prev rows =
     (if length rows = 0 then prev
      else let next = append_rows (set (map event_key prev)) prev rows in
        if length next \<le> BROKER_EVENTS_MAX then next else drop (length next - BROKER_EVENTS_MAX) next)"

definition appendBrokerEvents :: "BrokerEventRow list \<Rightarrow> broker_world \<Rightarrow> broker_world" where
  "appendBrokerEvents rows = set_view (\<lambda>v. v\<lparr>bv_events := append_events (bv_events v) rows\<rparr>)"

definition updateBrokerEventsCursor :: "jsnum option \<Rightarrow> jsnum option \<Rightarrow> broker_world \<Rightarrow> broker_world" where
  "updateBrokerEventsCursor rowTs nextSince w =
     (let current = num_or0 (Some (bw_cursorRef w));
          candidate = math_max (math_max current (num_or0 rowTs)) (num_or0 nextSince)
      in if num_lt current candidate then set_cursor candidate w else w)"

definition loadBrokerEventsReplay :: "broker_view \<Rightarrow> broker_world \<Rightarrow> broker_world" where
  "loadBrokerEventsReplay cl w =
     (if \<not> bv_canQuery cl \<or> bv_base cl = [] then w
      else send (GetReplay cl (num_or0 (Some (bw_cursorRef w)))) (set_view (\<lambda>v. v\<lparr>bv_replayBusy := True, bv_replayError := None\<rparr>) w))"

definition replay_failed :: "string \<Rightarrow> broker_world \<Rightarrow> broker_world" where
  "replay_failed e = set_view (\<lambda>v. v\<lparr>bv_replayError := Some e, bv_replayBusy := False\<rparr>)"

definition replay_loaded :: "jsval \<Rightarrow> jsval \<Rightarrow> broker_world \<Rightarrow> broker_world" where
  "replay_loaded events next_since_ts w =
     (let rows = normalizeBrokerReplayEvents events;
          w1 = appendBrokerEvents rows w;
          w2 = (case as_num next_since_ts of
                  Some n \<Rightarrow> updateBrokerEventsCursor None (Some n) w1
                | None \<Rightarrow> fold (\<lambda>row. updateBrokerEventsCursor (br_ts_unix_ms row) None) rows w1)
      in set_view (\<lambda>v. v\<lparr>bv_replayNote := Some (''replay +'' @ nat_str (length rows)), bv_replayBusy := False\<rparr>) w2)"

definition stream_event :: "SseEvent \<Rightarrow> broker_world \<Rightarrow> broker_world" where
  "stream_event ev w =
     (let parsed = (if ev_data ev = [] then JNull else opt_or (json_parse (ev_data ev)) JNull) in
      case normalizeBrokerEventRow parsed (JStr (ev_event ev)) of
        None \<Rightarrow> w
      | Some row \<Rightarrow> updateBrokerEventsCursor (br_ts_unix_ms row) None (appendBrokerEvents [row] w))"

definition brokerEventRows :: "broker_view \<Rightarrow> BrokerEventRow list" where
  "brokerEventRows v =
     rev (if bv_quorumOnly v then filter (\<lambda>ev. js_starts_with (br_type ev) ''team_quorum'') (bv_events v) else bv_events v)"

section \<open>The effects of a render\<close>

definition changed :: "(broker_view \<Rightarrow> 'd) \<Rightarrow> broker_view option \<Rightarrow> broker_view \<Rightarrow> bool" where
  "changed deps prev v = (case prev of None \<Rightarrow> True | Some p \<Rightarrow> deps p \<noteq> deps v)"

definition ref_effect :: "broker_view option \<Rightarrow> broker_view \<Rightarrow> broker_world \<Rightarrow> broker_world" where
  "ref_effect prev v w = (if changed bv_cursorTs prev v then w\<lparr>bw_cursorRef := bv_cursorTs v\<rparr> else w)"

definition reset_effect :: "broker_view option \<Rightarrow> broker_view \<Rightarrow> broker_world \<Rightarrow> broker_world" where
  "reset_effect prev v w =
     (if \<not> changed brokerEventsCursorKey prev v then w
      else
        let w1 = set_view (\<lambda>u. u\<lparr>bv_events := [], bv_error := None, bv_replayError := None, bv_replayNote := None, bv_cursorTs := Fin 0\<rparr>)
                   (w\<lparr>bw_replayKey := []\<rparr>);
            key = brokerEventsCursorKey v
        in if key = [] then w1
           else case bw_store w key of
             None \<Rightarrow> w1
           | Some raw \<Rightarrow>
               if raw = [] then w1
               else case json_parse raw of
                 None \<Rightarrow> w1
               | Some parsed \<Rightarrow>
                   let ts = opt_or (as_num (js_get parsed ''ts'')) (Fin 0) in
                   if num_lt (Fin 0) ts then set_cursor ts w1 else w1)"

definition prefs_effect :: "broker_view option \<Rightarrow> broker_view \<Rightarrow> broker_world \<Rightarrow> broker_world" where
  "prefs_effect prev v w =
     (if \<not> changed (\<lambda>u. (bv_authKey u, bv_base u, brokerPrefsClientId u, bv_canQuery u)) prev v then w
      else if \<not> bv_canQuery v \<or> bv_base v = [] \<or> brokerPrefsClientId v = [] \<or> bv_authKey v = [] then w
      else
        let nextKey = bv_base v @ ''::'' @ brokerPrefsClientId v @ ''::'' @ bv_authKey v in
        if bw_loadKey w = nextKey then w
        else loadBrokerEventsCursor v (w\<lparr>bw_loadKey := nextKey\<rparr>))"

definition unload_effect :: "broker_view option \<Rightarrow> broker_view \<Rightarrow> broker_world \<Rightarrow> broker_world" where
  "unload_effect prev v w =
     (if \<not> changed bv_canQuery prev v then w else if bv_canQuery v then w else w\<lparr>bw_loadKey := []\<rparr>)"

definition cursor_text :: "rat \<Rightarrow> jsnum \<Rightarrow> string" where
  "cursor_text now ts = opt_or (json_compact (JObj [(''ts'', JNum ts), (''updated'', JNum (Fin now))])) []"

definition store_effect :: "rat \<Rightarrow> bool \<Rightarrow> broker_view option \<Rightarrow> broker_view \<Rightarrow> broker_world \<Rightarrow> broker_world" where
  "store_effect now writable prev v w =
     (if \<not> changed (\<lambda>u. (brokerEventsCursorKey u, bv_cursorTs u)) prev v then w
      else if brokerEventsCursorKey v = [] \<or> num_le (bv_cursorTs v) (Fin 0) \<or> \<not> writable then w
      else w\<lparr>bw_store := (bw_store w)(brokerEventsCursorKey v \<mapsto> cursor_text now (bv_cursorTs v))\<rparr>)"

definition scope_effect :: "rat \<Rightarrow> broker_view option \<Rightarrow> broker_view \<Rightarrow> broker_world \<Rightarrow> broker_world" where
  "scope_effect now prev v w =
     (if \<not> changed (\<lambda>u. (bv_byScope u, bv_cursorTs u, brokerEventsScopeKey u, bv_status u, bv_base u, brokerPrefsClientId u)) prev v then w
      else if brokerEventsScopeKey v = [] \<or> num_le (bv_cursorTs v) (Fin 0) then w
      else if num_le (bv_cursorTs v) (scope_ts (bv_byScope v) (brokerEventsScopeKey v)) then w
      else
        let nextMap = obj_put (bv_byScope v) (brokerEventsScopeKey v) \<lparr>bc_cursor_ts = bv_cursorTs v, bc_updated_unix_ms = Some (Fin now)\<rparr>
        in scheduleBrokerEventsCursorPersist v nextMap (set_byScope nextMap w))"

text \<open>The stream: its cleanup aborts the previous request, whose callbacks do nothing from then on.\<close>

definition stream_effect :: "broker_view option \<Rightarrow> broker_view \<Rightarrow> broker_world \<Rightarrow> broker_world" where
  "stream_effect prev v w =
     (if \<not> changed (\<lambda>u. (bv_authKey u, bv_base u, bv_active u, bv_canQuery u, bv_open u)) prev v then w
      else if \<not> bv_open v \<or> \<not> bv_canQuery v \<or> \<not> bv_active v
      then set_view (\<lambda>u. u\<lparr>bv_connected := False\<rparr>) (w\<lparr>bw_stream := None\<rparr>)
      else set_view (\<lambda>u. u\<lparr>bv_error := None, bv_connected := False\<rparr>) (w\<lparr>bw_stream := Some (bv_base v @ ''/v1/events'')\<rparr>))"

definition replay_effect :: "broker_view option \<Rightarrow> broker_view \<Rightarrow> broker_world \<Rightarrow> broker_world" where
  "replay_effect prev v w =
     (if \<not> changed (\<lambda>u. (bv_authKey u, bv_base u, bv_active u, bv_canQuery u, bv_open u)) prev v then w
      else if \<not> bv_open v \<or> \<not> bv_canQuery v \<or> \<not> bv_active v \<or> bv_base v = [] then w
      else
        let key = bv_base v @ ''::'' @ bv_authKey v @ '':'' @ (if bv_active v then ''on'' else ''off'') in
        if bw_replayKey w = key then w
        else loadBrokerEventsReplay v (w\<lparr>bw_replayKey := key\<rparr>))"

definition commit_render :: "rat \<Rightarrow> bool \<Rightarrow> broker_world \<Rightarrow> broker_world" where
  "commit_render now writable w =
     (let v = bw_view w; prev = bw_shown w;
          w1 = ref_effect prev v w;
          w2 = reset_effect prev v w1;
          w3 = prefs_effect prev v w2;
          w4 = unload_effect prev v w3;
          w5 = store_effect now writable prev v w4;
          w6 = scope_effect now prev v w5;
          w7 = stream_effect prev v w6;
          w8 = replay_effect prev v w7
      in w8\<lparr>bw_shown := Some v\<rparr>)"

section \<open>Runs\<close>

datatype broker_answer =
    Fails string
  | PrefsAre jsval
  | Posted
  | ReplayIs jsval jsval

datatype broker_act =
    Props string string string bool bool
  | SetActive bool
  | SetQuorumOnly bool
  | ClearBrokerEvents
  | ReplayNow
  | Commit rat bool
  | PersistTimer
  | Answer nat rat broker_answer
  | StreamAnswer bool nat
  | StreamEvent SseEvent
  | StreamFails string
  | StreamEnds

text \<open>An answer with \<^verbatim>\<open>ok\<close> false is thrown with its text; \<open>Fails\<close> stands for it and for a failed request.\<close>

fun resume_call :: "rat \<Rightarrow> broker_call \<Rightarrow> broker_answer \<Rightarrow> broker_world \<Rightarrow> broker_world" where
  "resume_call now (GetPrefs cl) (PrefsAre prefs) w = prefs_loaded now cl prefs w"
| "resume_call now (GetPrefs cl) (Fails e) w = set_view (\<lambda>v. v\<lparr>bv_status := CsError\<rparr>) w"
| "resume_call now (PostPrefs b j) Posted w = set_view (\<lambda>v. v\<lparr>bv_status := CsReady\<rparr>) w"
| "resume_call now (PostPrefs b j) (Fails e) w = set_view (\<lambda>v. v\<lparr>bv_status := CsError\<rparr>) w"
| "resume_call now (GetReplay cl since) (ReplayIs events nextTs) w = replay_loaded events nextTs w"
| "resume_call now (GetReplay cl since) (Fails e) w = replay_failed e w"
| "resume_call now _ _ w = w"

definition answer_call :: "nat \<Rightarrow> rat \<Rightarrow> broker_answer \<Rightarrow> broker_world \<Rightarrow> broker_world" where
  "answer_call k now ans w =
     (if k < length (bw_flight w)
      then resume_call now (bw_flight w ! k) ans (w\<lparr>bw_flight := take k (bw_flight w) @ drop (Suc k) (bw_flight w)\<rparr>) else w)"

definition on_stream :: "(broker_world \<Rightarrow> broker_world) \<Rightarrow> broker_world \<Rightarrow> broker_world" where
  "on_stream f w = (if bw_stream w = None then w else f w)"

definition stream_failed :: "string \<Rightarrow> broker_world \<Rightarrow> broker_world" where
  "stream_failed e w = set_view (\<lambda>v. v\<lparr>bv_connected := False, bv_error := Some e\<rparr>) (w\<lparr>bw_stream := None\<rparr>)"

fun broker_step :: "broker_act \<Rightarrow> broker_world \<Rightarrow> broker_world" where
  "broker_step (Props b a c op q) w = set_view (\<lambda>v. v\<lparr>bv_base := b, bv_authKey := a, bv_clientId := c, bv_open := op, bv_canQuery := q\<rparr>) w"
| "broker_step (SetActive b) w = set_view (\<lambda>v. v\<lparr>bv_active := b\<rparr>) w"
| "broker_step (SetQuorumOnly b) w = set_view (\<lambda>v. v\<lparr>bv_quorumOnly := b\<rparr>) w"
| "broker_step ClearBrokerEvents w = set_view (\<lambda>v. v\<lparr>bv_events := []\<rparr>) w"
| "broker_step ReplayNow w = loadBrokerEventsReplay (bw_view w) w"
| "broker_step (Commit now writable) w = commit_render now writable w"
| "broker_step PersistTimer w = cursor_timer w"
| "broker_step (Answer k now ans) w = answer_call k now ans w"
| "broker_step (StreamAnswer ok status) w =
     on_stream (if ok then set_view (\<lambda>v. v\<lparr>bv_connected := True\<rparr>)
                else stream_failed (''Error: broker events failed ('' @ nat_str status @ '')'')) w"
| "broker_step (StreamEvent ev) w = on_stream (stream_event ev) w"
| "broker_step (StreamFails e) w = on_stream (stream_failed e) w"
| "broker_step StreamEnds w = on_stream (\<lambda>w. w\<lparr>bw_stream := None\<rparr>) w"

definition initial_broker_view :: "string \<Rightarrow> string \<Rightarrow> string \<Rightarrow> bool \<Rightarrow> bool \<Rightarrow> broker_view" where
  "initial_broker_view b a c op q =
     \<lparr>bv_base = b, bv_authKey = a, bv_clientId = c, bv_open = op, bv_canQuery = q, bv_events = [], bv_error = None, bv_active = True,
      bv_connected = False, bv_quorumOnly = True, bv_replayBusy = False, bv_replayError = None, bv_replayNote = None,
      bv_cursorTs = Fin 0, bv_byScope = [], bv_status = CsIdle\<rparr>"

definition initial_broker_world :: "broker_view \<Rightarrow> (string \<Rightarrow> string option) \<Rightarrow> broker_world" where
  "initial_broker_world v store =
     \<lparr>bw_view = v, bw_shown = None, bw_cursorRef = Fin 0, bw_replayKey = [], bw_loadKey = [], bw_timer = None, bw_pending = None,
      bw_stream = None, bw_store = store, bw_flight = []\<rparr>"

section \<open>The log\<close>

definition log_ok :: "BrokerEventRow list \<Rightarrow> bool" where
  "log_ok es = (length es \<le> BROKER_EVENTS_MAX \<and> distinct (map event_key es))"

text \<open>The rows that are added: those whose key is new, once each.\<close>

fun new_rows :: "string set \<Rightarrow> BrokerEventRow list \<Rightarrow> BrokerEventRow list" where
  "new_rows seen [] = []"
| "new_rows seen (row # rows) =
     (if event_key row \<in> seen then new_rows seen rows else row # new_rows (insert (event_key row) seen) rows)"

lemma append_rows_new: "append_rows seen next rows = next @ new_rows seen rows"
  by (induction rows arbitrary: seen "next") simp_all

lemma new_rows_keys: "distinct (map event_key (new_rows seen rows)) \<and> event_key ` set (new_rows seen rows) = event_key ` set rows - seen"
  by (induction rows arbitrary: seen) auto

lemma new_rows_fresh: "distinct (map event_key rows) \<Longrightarrow> event_key ` set rows \<inter> seen = {} \<Longrightarrow> new_rows seen rows = rows"
  by (induction rows arbitrary: seen) auto

lemma append_events_newest:
  assumes "length prev \<le> BROKER_EVENTS_MAX"
  shows "append_events prev rows = newest BROKER_EVENTS_MAX (prev @ new_rows (event_key ` set prev) rows)"
  using assms by (auto simp: append_events_def append_rows_new newest_def Let_def)

lemma append_events_ok:
  assumes "log_ok prev"
  shows "log_ok (append_events prev rows)"
proof -
  have "distinct (map event_key (prev @ new_rows (event_key ` set prev) rows))"
    using new_rows_keys [of "event_key ` set prev" rows] assms by (auto simp: log_ok_def)
  then have "distinct (newest BROKER_EVENTS_MAX (map event_key (prev @ new_rows (event_key ` set prev) rows)))" by (rule distinct_newest)
  then show ?thesis using assms by (simp add: log_ok_def append_events_newest) (simp add: newest_def drop_map)
qed

interpretation broker_log: bounded_log BROKER_EVENTS_MAX "\<lambda>s. s" append_events
  "\<lambda>prev rows. distinct (map event_key rows) \<and> event_key ` set rows \<inter> event_key ` set prev = {}"
  by unfold_locales (simp add: append_events_newest new_rows_fresh)

section \<open>The cursor\<close>

text \<open>What the log and the cursor depend on; most operations leave it as it is.\<close>

definition broker_core :: "broker_world \<Rightarrow> jsnum \<times> broker_view option \<times> jsnum \<times> BrokerEventRow list \<times> string \<times> string" where
  "broker_core w = (bw_cursorRef w, bw_shown w, bv_cursorTs (bw_view w), bv_events (bw_view w), bv_base (bw_view w), bv_authKey (bw_view w))"

lemma core_basic [simp]:
  "broker_core (send c w) = broker_core w"
  "broker_core (set_byScope m w) = broker_core w"
  "broker_core (w\<lparr>bw_pending := pe\<rparr>) = broker_core w"
  "broker_core (w\<lparr>bw_timer := ti\<rparr>) = broker_core w"
  "broker_core (w\<lparr>bw_loadKey := k\<rparr>) = broker_core w"
  "broker_core (w\<lparr>bw_replayKey := k\<rparr>) = broker_core w"
  "broker_core (w\<lparr>bw_stream := sm\<rparr>) = broker_core w"
  "broker_core (w\<lparr>bw_store := st\<rparr>) = broker_core w"
  "broker_core (w\<lparr>bw_flight := fl\<rparr>) = broker_core w"
  by (simp_all add: broker_core_def send_def set_byScope_def set_view_def)

lemma core_set_view:
  assumes "\<And>v. bv_cursorTs (f v) = bv_cursorTs v \<and> bv_events (f v) = bv_events v \<and> bv_base (f v) = bv_base v \<and> bv_authKey (f v) = bv_authKey v"
  shows "broker_core (set_view f w) = broker_core w"
  using assms by (simp add: broker_core_def set_view_def)

lemma core_fields [simp]:
  "broker_core (set_view (\<lambda>v. v\<lparr>bv_status := cs\<rparr>) w) = broker_core w"
  "broker_core (set_view (\<lambda>v. v\<lparr>bv_connected := x\<rparr>) w) = broker_core w"
  "broker_core (set_view (\<lambda>v. v\<lparr>bv_active := x\<rparr>) w) = broker_core w"
  "broker_core (set_view (\<lambda>v. v\<lparr>bv_quorumOnly := x\<rparr>) w) = broker_core w"
  "broker_core (set_view (\<lambda>v. v\<lparr>bv_replayNote := n, bv_replayBusy := x\<rparr>) w) = broker_core w"
  by (simp_all add: core_set_view)

lemma core_quiet [simp]:
  "broker_core (pushBrokerEventsCursor cl m w) = broker_core w"
  "broker_core (scheduleBrokerEventsCursorPersist cl m w) = broker_core w"
  "broker_core (loadBrokerEventsCursor cl w) = broker_core w"
  "broker_core (loadBrokerEventsReplay cl w) = broker_core w"
  "broker_core (replay_failed e w) = broker_core w"
  "broker_core (stream_failed e w) = broker_core w"
  by (simp_all add: pushBrokerEventsCursor_def scheduleBrokerEventsCursorPersist_def loadBrokerEventsCursor_def
      loadBrokerEventsReplay_def replay_failed_def stream_failed_def core_set_view)

lemma core_timer [simp]: "broker_core (cursor_timer w) = broker_core w"
  by (simp add: cursor_timer_def Let_def split: option.split)

lemma core_effects [simp]:
  "broker_core (prefs_effect prev v w) = broker_core w"
  "broker_core (unload_effect prev v w) = broker_core w"
  "broker_core (store_effect now ok prev v w) = broker_core w"
  "broker_core (scope_effect now prev v w) = broker_core w"
  "broker_core (stream_effect prev v w) = broker_core w"
  "broker_core (replay_effect prev v w) = broker_core w"
  by (simp_all add: prefs_effect_def unload_effect_def store_effect_def scope_effect_def stream_effect_def replay_effect_def core_set_view Let_def)

text \<open>An operation between two commits: rows are added and the cursor, when it is set, is set beyond the one of the last commit.\<close>

definition moved :: "broker_world \<Rightarrow> broker_world \<Rightarrow> bool" where
  "moved w w' =
     (bw_cursorRef w' = bw_cursorRef w \<and> bw_shown w' = bw_shown w \<and>
      bv_base (bw_view w') = bv_base (bw_view w) \<and> bv_authKey (bw_view w') = bv_authKey (bw_view w) \<and>
      (log_ok (bv_events (bw_view w)) \<longrightarrow> log_ok (bv_events (bw_view w'))) \<and>
      (bv_cursorTs (bw_view w') = bv_cursorTs (bw_view w) \<or> num_lt (num_or0 (Some (bw_cursorRef w))) (bv_cursorTs (bw_view w'))))"

lemma moved_refl [simp]: "moved w w"
  by (simp add: moved_def)

lemma moved_trans [trans]: "moved u v \<Longrightarrow> moved v w \<Longrightarrow> moved u w"
  by (auto simp: moved_def)

lemma moved_core: "broker_core w' = broker_core w \<Longrightarrow> moved w w'"
  by (simp add: moved_def broker_core_def)

lemma moved_append: "moved w (appendBrokerEvents rows w)"
  by (simp add: moved_def appendBrokerEvents_def set_view_def append_events_ok)

lemma moved_cursor: "num_lt (num_or0 (Some (bw_cursorRef w))) ts \<Longrightarrow> moved w (set_cursor ts w)"
  by (simp add: moved_def set_cursor_def set_view_def)

lemma moved_update: "moved w (updateBrokerEventsCursor rowTs nextSince w)"
  by (simp add: updateBrokerEventsCursor_def Let_def moved_cursor)

lemma moved_updates: "moved w (fold (\<lambda>row. updateBrokerEventsCursor (br_ts_unix_ms row) None) rows w)"
  by (induction rows arbitrary: w) (auto intro: moved_trans moved_update)

lemma moved_prefs: "moved w (prefs_loaded now cl prefs w)"
proof -
  let ?r = "extractBrokerEventsCursorByScope prefs"
  let ?l = "num_or0 (Some (bw_cursorRef w))" and ?t = "scope_ts ?r (brokerEventsScopeKey cl)"
  let ?w1 = "set_byScope ?r w"
  let ?w2 = "if num_lt ?l (math_max ?l ?t) then set_cursor (math_max ?l ?t) ?w1 else ?w1"
  have "bw_cursorRef ?w1 = bw_cursorRef w" by (simp add: set_byScope_def set_view_def)
  then have "moved ?w1 ?w2" by (simp add: moved_cursor)
  moreover have "moved w ?w1" by (rule moved_core) simp
  ultimately have 1: "moved w ?w2" using moved_trans by blast
  have "broker_core (prefs_loaded now cl prefs w) = broker_core ?w2" by (simp add: prefs_loaded_def Let_def)
  then show ?thesis using 1 moved_core moved_trans by blast
qed

lemma moved_replay: "moved w (replay_loaded events nextTs w)"
proof -
  let ?rows = "normalizeBrokerReplayEvents events"
  let ?w1 = "appendBrokerEvents ?rows w"
  let ?w2 = "case as_num nextTs of Some n \<Rightarrow> updateBrokerEventsCursor None (Some n) ?w1
    | None \<Rightarrow> fold (\<lambda>row. updateBrokerEventsCursor (br_ts_unix_ms row) None) ?rows ?w1"
  have "moved w ?w1" by (rule moved_append)
  also have "moved ?w1 ?w2" by (cases "as_num nextTs") (simp_all add: moved_update moved_updates)
  also have "moved ?w2 (replay_loaded events nextTs w)" by (rule moved_core) (simp only: replay_loaded_def Let_def core_fields)
  finally show ?thesis .
qed

lemma moved_stream: "moved w (stream_event ev w)"
  using moved_trans [OF moved_append moved_update] by (simp add: stream_event_def Let_def split: option.split)

lemma moved_resume: "moved w (resume_call now c ans w)"
  by (cases c; cases ans) (simp_all add: moved_prefs moved_replay moved_core)

lemma moved_answer: "moved w (answer_call k now ans w)"
proof -
  have "moved w (w\<lparr>bw_flight := fl\<rparr>)" for fl by (rule moved_core) simp
  then show ?thesis using moved_trans [OF _ moved_resume] by (simp add: answer_call_def)
qed

text \<open>Every action but a commit and a change of the properties.\<close>

lemma moved_step:
  assumes "\<forall>now ok. act \<noteq> Commit now ok" "\<forall>b a c op q. act \<noteq> Props b a c op q"
  shows "moved w (broker_step act w)"
proof (cases act)
  case ClearBrokerEvents
  then show ?thesis by (simp add: moved_def set_view_def log_ok_def)
qed (use assms in \<open>simp_all add: on_stream_def moved_answer moved_stream moved_core\<close>)

text \<open>A commit: the reference takes the cursor of the render, and only a change of the key resets log and cursor.\<close>

lemma commit_core:
  "broker_core (commit_render now ok w) =
     (case broker_core (reset_effect (bw_shown w) (bw_view w) (ref_effect (bw_shown w) (bw_view w) w)) of
        (r, sh, x) \<Rightarrow> (r, Some (bw_view w), x))"
proof -
  have upd: "broker_core (u\<lparr>bw_shown := sh\<rparr>) = (case broker_core u of (r, _, x) \<Rightarrow> (r, sh, x))" for u sh by (simp add: broker_core_def)
  show ?thesis unfolding commit_render_def Let_def upd by simp
qed

lemma reset_effect_ref [simp]: "bw_cursorRef (reset_effect prev v w) = bw_cursorRef w"
  by (simp add: reset_effect_def set_view_def set_cursor_def Let_def split: option.split)

lemma commit_ref:
  assumes "\<forall>p. bw_shown w = Some p \<longrightarrow> bw_cursorRef w = bv_cursorTs p"
  shows "bw_cursorRef (commit_render now ok w) = bv_cursorTs (bw_view w) \<and> bw_shown (commit_render now ok w) = Some (bw_view w)"
proof -
  have "bw_cursorRef (ref_effect (bw_shown w) (bw_view w) w) = bv_cursorTs (bw_view w)"
    using assms by (auto simp: ref_effect_def changed_def split: option.split)
  then show ?thesis using commit_core [of now ok w] by (auto simp: broker_core_def split: prod.splits)
qed

lemma reset_effect_view:
  "log_ok (bv_events (bw_view w)) \<Longrightarrow> log_ok (bv_events (bw_view (reset_effect prev v w)))"
  "bv_cursorTs (bw_view w) \<noteq> NaN \<Longrightarrow> bv_cursorTs (bw_view (reset_effect prev v w)) \<noteq> NaN"
  by (auto simp: reset_effect_def set_view_def set_cursor_def log_ok_def num_lt_def Let_def split: option.split)

lemma ref_effect_view [simp]: "bw_view (ref_effect prev v w) = bw_view w"
  by (simp add: ref_effect_def)

lemma commit_view:
  assumes "log_ok (bv_events (bw_view w))" "bv_cursorTs (bw_view w) \<noteq> NaN"
  shows "log_ok (bv_events (bw_view (commit_render now ok w))) \<and> bv_cursorTs (bw_view (commit_render now ok w)) \<noteq> NaN"
  using commit_core [of now ok w] reset_effect_view [of "ref_effect (bw_shown w) (bw_view w) w" "bw_shown w" "bw_view w"] assms
  by (simp add: broker_core_def)

lemma commit_same_key:
  assumes "bw_shown w = Some p" "brokerEventsCursorKey p = brokerEventsCursorKey (bw_view w)"
  shows "bv_cursorTs (bw_view (commit_render now ok w)) = bv_cursorTs (bw_view w) \<and> bv_base (bw_view (commit_render now ok w)) = bv_base (bw_view w) \<and>
    bv_authKey (bw_view (commit_render now ok w)) = bv_authKey (bw_view w)"
  using commit_core [of now ok w] assms by (simp add: broker_core_def reset_effect_def changed_def)

definition broker_inv :: "broker_world \<Rightarrow> bool" where
  "broker_inv w = (log_ok (bv_events (bw_view w)) \<and> bv_cursorTs (bw_view w) \<noteq> NaN \<and>
     (\<forall>p. bw_shown w = Some p \<longrightarrow> bw_cursorRef w = bv_cursorTs p))"

lemma num_lt_NaN [simp]: "\<not> num_lt a NaN"
  by (cases a) (simp_all add: num_lt_def)

lemma moved_inv: "broker_inv w \<Longrightarrow> moved w w' \<Longrightarrow> broker_inv w'"
  by (auto simp: broker_inv_def moved_def)

lemma broker_inv_step:
  assumes "broker_inv w"
  shows "broker_inv (broker_step act w)"
proof (cases act)
  case (Commit now ok)
  then show ?thesis using assms commit_ref [of w now ok] commit_view [of w now ok] by (simp add: broker_inv_def)
next
  case (Props b a c op q)
  then show ?thesis using assms by (simp add: broker_inv_def set_view_def)
qed (use assms moved_inv moved_step in \<open>blast+\<close>)

lemma broker_inv_run: "broker_inv w \<Longrightarrow> broker_inv (fold broker_step acts w)"
  by (induction acts arbitrary: w) (simp_all add: broker_inv_step)

lemma broker_inv_init: "broker_inv (initial_broker_world (initial_broker_view b a c op q) store)"
  by (simp add: broker_inv_def initial_broker_world_def initial_broker_view_def log_ok_def)

text \<open>A run on one broker: what the properties may change to, and what it keeps.\<close>

fun same_broker :: "string \<Rightarrow> string \<Rightarrow> broker_act \<Rightarrow> bool" where
  "same_broker b a (Props b' a' c op q) = (b' = b \<and> a' = a)"
| "same_broker b a act = True"

definition on_broker :: "string \<Rightarrow> string \<Rightarrow> jsnum \<Rightarrow> broker_world \<Rightarrow> bool" where
  "on_broker b a r w =
     (broker_inv w \<and> bv_base (bw_view w) = b \<and> bv_authKey (bw_view w) = a \<and>
      (\<exists>p. bw_shown w = Some p \<and> bv_base p = b \<and> bv_authKey p = a) \<and>
      num_le r (bw_cursorRef w) \<and> num_le (bw_cursorRef w) (bv_cursorTs (bw_view w)))"

lemma moved_on_broker:
  assumes "on_broker b a r w" "moved w w'"
  shows "on_broker b a r w'"
  using assms moved_inv [of w w'] by (auto simp: on_broker_def moved_def num_le_def num_or0_def)

lemma on_broker_step:
  assumes "on_broker b a r w" "same_broker b a act"
  shows "on_broker b a r (broker_step act w)"
proof (cases act)
  case (Commit now ok)
  obtain p where p: "bw_shown w = Some p" "bv_base p = b" "bv_authKey p = a" using assms(1) by (auto simp: on_broker_def)
  have "broker_inv w" "broker_inv (commit_render now ok w)" using assms(1) broker_inv_step [of w act] Commit by (simp_all add: on_broker_def)
  moreover have "brokerEventsCursorKey p = brokerEventsCursorKey (bw_view w)"
    using assms(1) p by (simp add: on_broker_def brokerEventsCursorKey_def)
  ultimately show ?thesis
    using assms(1) p commit_ref [of w now ok] commit_same_key [OF p(1)] num_le_trans [of r "bw_cursorRef w" "bv_cursorTs (bw_view w)"] Commit
    by (auto simp: on_broker_def broker_inv_def num_le_refl)
next
  case (Props b' a' c op q)
  then show ?thesis using assms by (simp add: on_broker_def broker_inv_def set_view_def)
qed (use assms moved_on_broker moved_step in \<open>blast+\<close>)

lemma on_broker_run: "on_broker b a r w \<Longrightarrow> list_all (same_broker b a) acts \<Longrightarrow> on_broker b a r (fold broker_step acts w)"
  by (induction acts arbitrary: w) (simp_all add: on_broker_step)

text \<open>
  C18. Whatever is delivered by the replay, by the stream and by the stored preferences, in whatever order, the log of broker events holds at most 200
  events, no two with the same key; and once a render is committed, the cursor from which events are
  replayed never moves back while the broker and its credentials stay the same.
\<close>

theorem broker_log_and_cursor:
  assumes w: "w = fold broker_step acts (initial_broker_world (initial_broker_view b a c op q) store)"
    and settled: "bw_shown w = Some (bw_view w)"
    and later: "list_all (same_broker (bv_base (bw_view w)) (bv_authKey (bw_view w))) later"
  shows "length (bv_events (bw_view (fold broker_step later w))) \<le> 200 \<and>
    distinct (map event_key (bv_events (bw_view (fold broker_step later w)))) \<and>
    num_le (bw_cursorRef w) (bw_cursorRef (fold broker_step later w))"
proof -
  have inv: "broker_inv w" unfolding w by (intro broker_inv_run broker_inv_init)
  then have "on_broker (bv_base (bw_view w)) (bv_authKey (bw_view w)) (bw_cursorRef w) w"
    using settled by (simp add: on_broker_def broker_inv_def num_le_refl)
  then have "num_le (bw_cursorRef w) (bw_cursorRef (fold broker_step later w))"
    using on_broker_run [OF _ later] by (simp add: on_broker_def)
  then show ?thesis using broker_inv_run [OF inv, of later] by (simp add: broker_inv_def log_ok_def BROKER_EVENTS_MAX_def)
qed

definition example_world :: broker_world where
  "example_world =
     (let v = (initial_broker_view ''h'' ''k'' ''c'' True True)\<lparr>bv_replayBusy := True, bv_status := CsLoading\<rparr> in
      \<lparr>bw_view = v, bw_shown = Some v, bw_cursorRef = Fin 0, bw_replayKey = ''h::k:on'', bw_loadKey = ''h::c::k'', bw_timer = None, bw_pending = None,
       bw_stream = Some ''h/v1/events'', bw_store = (\<lambda>_. None),
       bw_flight = [GetPrefs (initial_broker_view ''h'' ''k'' ''c'' True True), GetReplay (initial_broker_view ''h'' ''k'' ''c'' True True) (Fin 0)]\<rparr>)"

lemmas broker_effects = commit_render_def ref_effect_def reset_effect_def prefs_effect_def unload_effect_def store_effect_def scope_effect_def
  stream_effect_def replay_effect_def changed_def Let_def

lemmas broker_callbacks = loadBrokerEventsCursor_def loadBrokerEventsReplay_def send_def set_view_def prefs_ready_def brokerEventsCursorKey_def
  brokerEventsScopeKey_def brokerPrefsClientId_def str_or_def num_or0_def

lemma example_world_opened:
  "example_world = fold broker_step [Commit 1 True, Commit 2 True] (initial_broker_world (initial_broker_view ''h'' ''k'' ''c'' True True) (\<lambda>_. None))"
  by (simp add: example_world_def initial_broker_world_def initial_broker_view_def broker_effects broker_callbacks)

definition example_replay :: "broker_act list" where
  "example_replay =
     [Answer 1 3 (ReplayIs (JArr [JObj [(''type'', JStr ''team_quorum''), (''ts_unix_ms'', JNum (Fin 5)), (''event_id'', JStr ''e1'')]]) (JNum (Fin 6))),
      Commit 4 True]"

theorem broker_log_and_cursor_witness:
  "length (bv_events (bw_view (fold broker_step example_replay example_world))) \<le> 200 \<and>
   distinct (map event_key (bv_events (bw_view (fold broker_step example_replay example_world)))) \<and>
   num_le (bw_cursorRef example_world) (bw_cursorRef (fold broker_step example_replay example_world))"
  by (rule broker_log_and_cursor [OF example_world_opened])
    (simp_all add: example_world_def example_replay_def Let_def)

section \<open>What the cursor is not\<close>

text \<open>
  When the broker changes, the render that changes it still has the cursor of the previous broker, and the effects of that render store it
  under the key of the new one and start the replay of the new broker's events from it.
\<close>

lemma store_effects:
  "bw_store (ref_effect prev v w) = bw_store w" "bw_store (reset_effect prev v w) = bw_store w" "bw_store (prefs_effect prev v w) = bw_store w"
  "bw_store (unload_effect prev v w) = bw_store w" "bw_store (scope_effect now prev v w) = bw_store w"
  "bw_store (stream_effect prev v w) = bw_store w" "bw_store (replay_effect prev v w) = bw_store w"
  by (simp_all add: ref_effect_def reset_effect_def prefs_effect_def unload_effect_def scope_effect_def stream_effect_def replay_effect_def
      loadBrokerEventsCursor_def loadBrokerEventsReplay_def scheduleBrokerEventsCursorPersist_def send_def set_view_def set_cursor_def set_byScope_def
      Let_def split: option.split)

lemma cursor_follows_to_other_broker:
  assumes "bw_shown w = Some p" "brokerEventsCursorKey (bw_view w) \<noteq> brokerEventsCursorKey p" "brokerEventsCursorKey (bw_view w) \<noteq> []"
    "bv_cursorTs (bw_view w) = Fin ts" "0 < ts"
  shows "bw_store (commit_render now True w) (brokerEventsCursorKey (bw_view w)) = Some (cursor_text now (Fin ts))"
proof -
  have "bw_store (commit_render now True w) = bw_store (store_effect now True (Some p) (bw_view w) u)"
    if "u = unload_effect (Some p) (bw_view w) (prefs_effect (Some p) (bw_view w) (reset_effect (Some p) (bw_view w) (ref_effect (Some p) (bw_view w) w)))" for u
    using assms(1) that by (simp add: commit_render_def Let_def store_effects)
  then show ?thesis using assms by (simp add: store_effect_def changed_def)
qed

text \<open>
  All rows of a replay are compared with the cursor of the last commit: without \<^verbatim>\<open>next_since_ts\<close> the cursor becomes that of the last
  newer row, not of the newest.
\<close>

lemma replay_cursor_last:
  assumes "bw_cursorRef w = Fin c" "br_ts_unix_ms r1 = Some (Fin s)" "br_ts_unix_ms r2 = Some (Fin t)" "0 \<le> c" "c < t" "t < s"
  shows "bv_cursorTs (bw_view (fold (\<lambda>row. updateBrokerEventsCursor (br_ts_unix_ms row) None) [r1, r2] w)) = Fin t"
  using assms by (auto simp: updateBrokerEventsCursor_def num_or0_def math_max_def set_cursor_def set_view_def Let_def)

text \<open>The end of the stream is not noticed: the panel stays connected and no new stream is opened.\<close>

lemma stream_end_unnoticed: "bw_view (broker_step StreamEnds w) = bw_view w"
  by (simp add: on_stream_def)

end
