(* ===== verification/Scene_Cache.thy ===== *)
theory Scene_Cache
  imports Live_Log
begin

text \<open>
  \<^verbatim>\<open>src/ui/src/sceneCache.ts\<close>: the per-session scene stores form a cache of at most 12
  entries with least-recently-used eviction. The function mutates its three arguments; the
  model takes and returns them as a record.
\<close>

definition SCENE_STORE_MAX :: int where
  "SCENE_STORE_MAX = 12"

record 'v scene_cache =
  sc_store :: "'v jsobj"
  sc_order :: "string list"
  sc_updated :: "rat jsobj"

text \<open>\<^verbatim>\<open>splice(idx, 1)\<close> at \<^verbatim>\<open>indexOf(key)\<close> removes the first occurrence; \<^verbatim>\<open>delete\<close> in a loop.\<close>

definition touchSceneStoreKey :: "'v scene_cache \<Rightarrow> string \<Rightarrow> int \<Rightarrow> 'v scene_cache" where
  "touchSceneStoreKey c key maxEntries =
     (if key = [] then c
      else
        let order = remove1 key (sc_order c) @ [key] in
        if maxEntries \<le> 0 \<or> int (length order) \<le> maxEntries then c\<lparr>sc_order := order\<rparr>
        else
          let evictCount = length order - nat maxEntries;
              evicted = take evictCount order
          in c\<lparr>sc_order := drop evictCount order,
               sc_store := foldl (\<lambda>ps k. obj_del ps k) (sc_store c) evicted,
               sc_updated := foldl (\<lambda>ps k. obj_del ps k) (sc_updated c) evicted\<rparr>)"

lemma map_of_foldl_del:
  "map_of (foldl (\<lambda>ps k. obj_del ps k) ps ks) k = (if k \<in> set ks then None else map_of ps k)"
  by (induction ks arbitrary: ps) (auto simp: delete_conv')

lemma touch_empty_key [simp]: "touchSceneStoreKey c [] m = c"
  by (simp add: touchSceneStoreKey_def)

lemma touch_order:
  "key \<noteq> [] \<Longrightarrow> 0 < m \<Longrightarrow>
   sc_order (touchSceneStoreKey c key m) = newest (nat m) (remove1 key (sc_order c) @ [key])"
  by (auto simp: touchSceneStoreKey_def newest_def Let_def)

lemma touch_store:
  "key \<noteq> [] \<Longrightarrow> 0 < m \<Longrightarrow> distinct (sc_order c) \<Longrightarrow>
   map_of (sc_store (touchSceneStoreKey c key m)) k =
     (if k \<in> insert key (set (sc_order c)) - set (sc_order (touchSceneStoreKey c key m))
      then None else map_of (sc_store c) k)"
proof -
  assume a: "key \<noteq> []" "0 < m" "distinct (sc_order c)"
  let ?o = "remove1 key (sc_order c) @ [key]"
  let ?e = "length ?o - nat m"
  have d: "distinct ?o" using a(3) by (simp add: set_remove1_eq)
  have s: "set ?o = insert key (set (sc_order c))" using a(3) by (auto simp: set_remove1_eq)
  have "set (take ?e ?o) = set ?o - set (drop ?e ?o)"
    using d by (metis Diff_cancel Diff_triv Int_commute Un_Diff append_take_drop_id
        distinct_append set_append sup_bot.right_neutral)
  then show ?thesis
    using a s by (auto simp: touchSceneStoreKey_def Let_def map_of_foldl_del)
qed

text \<open>The cache invariant: a recency list without repetition that covers the stored keys.\<close>

definition cache_inv :: "int \<Rightarrow> 'v scene_cache \<Rightarrow> bool" where
  "cache_inv m c = (distinct (sc_order c) \<and> int (length (sc_order c)) \<le> m \<and>
     fst ` set (sc_store c) \<subseteq> set (sc_order c))"

text \<open>A touch also takes in a key whose scene was stored just before.\<close>

lemma cache_inv_put_touch:
  assumes "distinct (sc_order c)" "fst ` set (sc_store c) \<subseteq> insert key (set (sc_order c))" "0 < m" "key \<noteq> []"
  shows "cache_inv m (touchSceneStoreKey c key m)"
proof -
  let ?c = "touchSceneStoreKey c key m"
  note store = touch_store [OF assms(4,3,1)]
  have "distinct (sc_order ?c)" "int (length (sc_order ?c)) \<le> m"
    using assms(1,3) by (auto simp: touch_order [OF assms(4,3)] set_remove1_eq intro: distinct_newest)
  moreover have "k \<in> set (sc_order ?c)" if "map_of (sc_store ?c) k \<noteq> None" for k
  proof -
    have "map_of (sc_store c) k \<noteq> None" using that by (auto simp: store split: if_splits)
    then have "k \<in> insert key (set (sc_order c))" using assms(2) by (meson map_of_eq_None_iff subsetD)
    with that show ?thesis by (auto simp: store split: if_splits)
  qed
  ultimately show ?thesis by (metis cache_inv_def map_of_eq_None_iff subsetI)
qed

lemma cache_inv_touch:
  "cache_inv m c \<Longrightarrow> 0 < m \<Longrightarrow> cache_inv m (touchSceneStoreKey c key m)"
  by (cases "key = []") (simp, rule cache_inv_put_touch, auto simp: cache_inv_def)

text \<open>
  The abstract cache: the keys touched, without repetition, most recent last. \<^const>\<open>remdups\<close>
  keeps the last occurrence of each.
\<close>

lemma remdups_snoc: "remdups (ks @ [k]) = remove1 k (remdups ks) @ [k]"
proof (induction ks)
  case (Cons a ks)
  have "remove1 k (remdups ks) = removeAll k (remdups ks)"
    by (simp add: distinct_remove1_removeAll)
  with Cons show ?case by auto
qed simp

lemma newest_remove1:
  assumes "distinct xs" "0 < n"
  shows "newest n (remove1 k (newest n xs) @ [k]) = newest n (remove1 k xs @ [k])"
proof (cases "k \<in> set (newest n xs)")
  case True
  obtain us where us: "xs = us @ newest n xs"
    using suffix_newest [of n xs] by (auto simp: suffix_def)
  then have "k \<notin> set us" using True assms(1)
    by (metis disjoint_iff distinct_append)
  then have r: "remove1 k xs = us @ remove1 k (newest n xs)"
    by (metis remove1_append us)
  show ?thesis
  proof (cases "n \<le> length xs")
    case t: True
    have l: "length (remove1 k (newest n xs) @ [k]) = n"
      using True t assms(2) by (simp add: length_remove1)
    show ?thesis unfolding r using l by (simp add: newest_def)
  qed simp
next
  case False
  obtain us where us: "xs = us @ newest n xs"
    using suffix_newest [of n xs] by (auto simp: suffix_def)
  have r: "remove1 k xs = remove1 k us @ newest n xs"
    by (metis False remove1_append remove1_idem us)
  show ?thesis
  proof (cases "length xs \<le> n")
    case False
    have "length (newest n xs) = n" using False by simp
    then show ?thesis
      unfolding r using \<open>k \<notin> set (newest n xs)\<close> assms(2) by (simp add: remove1_idem newest_def)
  qed simp
qed

text \<open>
  C23. The cache is least-recently-used: after any sequence of touches the recency list is
  exactly the \<open>m\<close> most recently touched distinct keys, in order of last use.
\<close>

theorem touch_lru:
  assumes "0 < m"
  shows "sc_order (foldl (\<lambda>c k. touchSceneStoreKey c k m) \<lparr>sc_store = st, sc_order = [], sc_updated = up\<rparr> ks)
       = newest (nat m) (remdups (filter (\<lambda>k. k \<noteq> []) ks))"
proof (induction ks rule: rev_induct)
  case Nil
  then show ?case by simp
next
  case (snoc k ks)
  then show ?case
    using assms by (cases "k = []")
      (simp_all add: touch_order remdups_snoc newest_remove1)
qed

theorem touch_lru_witness:
  "(0::int) < 2 \<and>
   sc_order (foldl (\<lambda>c k. touchSceneStoreKey c k 2) \<lparr>sc_store = [], sc_order = [], sc_updated = []\<rparr>
     [''a'', ''b'', ''a'', ''c'']) = [''a'', ''c'']"
  using touch_lru [of 2 "[]" "[]" "[''a'', ''b'', ''a'', ''c'']"] by (simp add: newest_def)

text \<open>
  Eviction is complete and exact: a touch keeps the invariant (at most \<open>m\<close> keys, no
  repetition, every stored scene listed), and it removes the stored scene of a key exactly
  when the key leaves the recency list; the scenes of the keys that stay are untouched.
\<close>

lemma touch_evicts_exactly:
  assumes "cache_inv m c" "0 < m" "key \<noteq> []"
  shows "cache_inv m (touchSceneStoreKey c key m) \<and>
    (\<forall>k. map_of (sc_store (touchSceneStoreKey c key m)) k =
       (if k \<in> set (sc_order (touchSceneStoreKey c key m)) then map_of (sc_store c) k else None))"
proof -
  have d: "distinct (sc_order c)" and sub: "fst ` set (sc_store c) \<subseteq> set (sc_order c)"
    using assms(1) by (auto simp: cache_inv_def)
  have "map_of (sc_store c) k = None" if "k \<notin> set (sc_order c)" for k
    using that sub by (metis in_mono map_of_eq_None_iff)
  then show ?thesis
    using assms by (auto simp: cache_inv_touch touch_store [OF assms(3,2) d])
qed

end
