(* ===== verification/Json_Utils.thy ===== *)
theory Json_Utils
  imports Js_Json
begin

text \<open>
  \<^verbatim>\<open>src/ui/src/jsonUtils.ts\<close>: the guarded JSON helpers every other module goes through.
  A failed parse is \<^verbatim>\<open>null\<close>, never an exception, and a record test admits exactly the
  objects that are neither \<^verbatim>\<open>null\<close> nor arrays.
\<close>

definition safeJsonParse :: "string \<Rightarrow> jsval" where
  "safeJsonParse raw = (case json_parse (str_or raw []) of None \<Rightarrow> JNull | Some v \<Rightarrow> v)"

definition isUnknownRecord :: "jsval \<Rightarrow> bool" where
  "isUnknownRecord v = (truthy v \<and> typeof_object v \<and> \<not> is_JArr v)"

definition safeObject :: "jsval \<Rightarrow> jsval jsobj" where
  "safeObject v = (if isUnknownRecord v then (case v of JObj ps \<Rightarrow> ps | _ \<Rightarrow> []) else [])"

definition normalizeEventData :: "jsval \<Rightarrow> jsval" where
  "normalizeEventData data =
     (case data of
        JStr s \<Rightarrow> js_coalesce (safeJsonParse s) data
      | _ \<Rightarrow> js_coalesce data (JObj []))"

definition prettyJsonOrRaw :: "string \<Rightarrow> string" where
  "prettyJsonOrRaw raw =
     (let parsed = safeJsonParse raw in
      if parsed = JNull then raw
      else case json_pretty parsed of None \<Rightarrow> [] | Some t \<Rightarrow> t)"

text \<open>\<^verbatim>\<open>slice(0, Math.max(0, max - 1))\<close> followed by the one-unit ellipsis.\<close>

definition safeTrunc :: "string \<Rightarrow> int \<Rightarrow> string" where
  "safeTrunc text m =
     (if int (length text) \<le> m then text
      else take (nat (max 0 (m - 1))) text @ [ellipsis])"

definition loadJson :: "string \<Rightarrow> jsval jsobj option" where
  "loadJson raw =
     (let v = safeJsonParse raw in
      if isUnknownRecord v then (case v of JObj ps \<Rightarrow> Some ps | _ \<Rightarrow> None) else None)"

lemma isUnknownRecord_iff [simp]: "isUnknownRecord v \<longleftrightarrow> (\<exists>ps. v = JObj ps)"
  by (cases v) (auto simp: isUnknownRecord_def typeof_object_def)

lemma safeObject_JObj [simp]: "safeObject (JObj ps) = ps"
  by (simp add: safeObject_def)

lemma safeObject_other: "\<not> is_JObj v \<Longrightarrow> safeObject v = []"
  by (cases v) (auto simp: safeObject_def)

lemma safeObject_simps [simp]:
  "safeObject JUndef = []" "safeObject JNull = []" "safeObject (JBool b) = []"
  "safeObject (JNum n) = []" "safeObject (JStr s) = []" "safeObject (JArr xs) = []"
  by (simp_all add: safeObject_def)

lemma loadJson_eq: "loadJson raw = as_obj (safeJsonParse raw)"
  by (cases "safeJsonParse raw") (auto simp: loadJson_def Let_def)

lemma safeJsonParse_ne_undef: "json_value n s = Some (v, r) \<Longrightarrow> v \<noteq> JUndef"
  by (cases n) (auto simp: json_value.simps json_literal_def json_number_def Let_def
      split: list.splits if_splits option.splits)

lemma safeJsonParse_defined: "safeJsonParse raw \<noteq> JUndef"
  by (auto simp: safeJsonParse_def json_parse_def split: option.splits if_splits
      dest: safeJsonParse_ne_undef)

text \<open>
  Normalising event data never yields a nullish value, so the
  renderers may read properties of the result.
\<close>

lemma normalizeEventData_not_nullish: "\<not> nullish (normalizeEventData d)"
  by (cases d) (auto simp: normalizeEventData_def js_value_simps)

lemma safeTrunc_length:
  "int (length (safeTrunc t m)) \<le> max 1 m"
  by (auto simp: safeTrunc_def)

lemma safeTrunc_prefix: "m \<le> int (length t) \<Longrightarrow> 1 \<le> m \<Longrightarrow>
  take (nat (m - 1)) (safeTrunc t m) = take (nat (m - 1)) t"
  by (auto simp: safeTrunc_def)

section \<open>Objects filled property by property\<close>

text \<open>\<^verbatim>\<open>if (..) out.k = v;\<close> for a list of keys, starting from \<^verbatim>\<open>{}\<close>.\<close>

definition put_some :: "jsval jsobj \<Rightarrow> string \<times> jsval option \<Rightarrow> jsval jsobj" where
  "put_some ps e = (case snd e of None \<Rightarrow> ps | Some v \<Rightarrow> obj_put ps (fst e) v)"

definition obj_of_opts :: "(string \<times> jsval option) list \<Rightarrow> jsval jsobj" where
  "obj_of_opts es = foldl put_some [] es"

definition given :: "bool \<Rightarrow> 'a \<Rightarrow> 'a option" where
  "given b v = (if b then Some v else None)"

lemma given_simps [simp]: "given True v = Some v" "given False v = None" "given b v = Some w \<longleftrightarrow> b \<and> v = w" "given b v = None \<longleftrightarrow> \<not> b"
  by (auto simp: given_def)

lemma foldl_put_some:
  "distinct (map fst es) \<Longrightarrow> fst ` set es \<inter> fst ` set ps = {} \<Longrightarrow>
   foldl put_some ps es = ps @ List.map_filter (\<lambda>e. map_option (Pair (fst e)) (snd e)) es"
proof (induction es arbitrary: ps)
  case (Cons e es)
  show ?case
  proof (cases "snd e")
    case None
    with Cons show ?thesis by (simp add: put_some_def map_filter_simps)
  next
    case (Some v)
    have "foldl put_some (ps @ [(fst e, v)]) es = (ps @ [(fst e, v)]) @ List.map_filter (\<lambda>e. map_option (Pair (fst e)) (snd e)) es"
      using Cons.prems by (intro Cons.IH) auto
    moreover have "put_some ps e = ps @ [(fst e, v)]" using Some Cons.prems by (simp add: put_some_def update_notin)
    ultimately show ?thesis using Some by (simp add: map_filter_simps)
  qed
qed (simp add: map_filter_simps)

lemma obj_of_opts_eq:
  "distinct (map fst es) \<Longrightarrow> obj_of_opts es = List.map_filter (\<lambda>e. map_option (Pair (fst e)) (snd e)) es"
  by (simp add: obj_of_opts_def foldl_put_some)

lemma map_of_opts:
  assumes "distinct (map fst es)"
  shows "map_of (obj_of_opts es) k = (case map_of es k of Some (Some v) \<Rightarrow> Some v | _ \<Rightarrow> None)"
  unfolding obj_of_opts_eq [OF assms] using assms
proof (induction es)
  case (Cons e es)
  obtain k' o' where e: "e = (k', o')" by (cases e)
  have "map_of es k' = None" using Cons.prems e by (simp add: map_of_eq_None_iff)
  with Cons e show ?case by (cases o') (auto simp: map_filter_simps split: option.splits)
qed (simp add: map_filter_simps)

lemma obj_get_opts:
  "distinct (map fst es) \<Longrightarrow> (k, v) \<in> set es \<Longrightarrow> obj_get (obj_of_opts es) k = (case v of Some w \<Rightarrow> w | None \<Rightarrow> JUndef)"
  by (simp add: obj_get.simps map_of_opts map_of_is_SomeI split: option.split)

lemma obj_get_opts_other:
  "distinct (map fst es) \<Longrightarrow> k \<notin> fst ` set es \<Longrightarrow> obj_get (obj_of_opts es) k = JUndef"
  by (simp add: obj_get.simps map_of_opts map_of_eq_None_iff [THEN iffD2])

lemma wf_obj_of_opts: "distinct (map fst es) \<Longrightarrow> wf_obj (obj_of_opts es)"
proof -
  have "wf_obj ps \<Longrightarrow> wf_obj (foldl put_some ps es)" for ps
    by (induction es arbitrary: ps) (simp_all add: put_some_def distinct_update split: option.split)
  then show ?thesis by (simp add: obj_of_opts_def)
qed

text \<open>\<^verbatim>\<open>{ ...v }\<close>: the own properties of a value.\<close>

fun spread :: "jsval \<Rightarrow> jsval jsobj" where
  "spread (JObj ps) = ps"
| "spread (JArr xs) = map (\<lambda>(i, v). (nat_str i, v)) (enumerate 0 xs)"
| "spread (JStr s) = map (\<lambda>(i, c). (nat_str i, JStr [c])) (enumerate 0 s)"
| "spread _ = []"

section \<open>Typed rows\<close>

text \<open>
  The declared type of an optional property, the test \<^verbatim>\<open>typeof raw.k === ".."\<close> that goes with it,
  and the defensive copy \<^verbatim>\<open>typeof raw.k === ".." ? raw.k : undefined\<close>. A schema lists the optional
  properties of a row type.
\<close>

datatype field_type = TStr | TNum | TBool | TRec | TStrArr

fun has_type :: "field_type \<Rightarrow> jsval \<Rightarrow> bool" where
  "has_type TStr v = is_JStr v"
| "has_type TNum v = is_JNum v"
| "has_type TBool v = is_JBool v"
| "has_type TRec v = is_JObj v"
| "has_type TStrArr v = (case v of JArr xs \<Rightarrow> list_all is_JStr xs | _ \<Rightarrow> False)"

type_synonym schema = "(string \<times> field_type) list"

definition keep_typed :: "field_type \<Rightarrow> jsval \<Rightarrow> jsval" where
  "keep_typed T v = (if has_type T v then v else JUndef)"

definition fields_ok :: "schema \<Rightarrow> jsval jsobj \<Rightarrow> bool" where
  "fields_ok sch ps = list_all (\<lambda>(k, T). obj_get ps k = JUndef \<or> has_type T (obj_get ps k)) sch"

definition id_text :: "jsval jsobj \<Rightarrow> string \<Rightarrow> string" where
  "id_text ps k = (case obj_get ps k of JStr s \<Rightarrow> js_trim s | _ \<Rightarrow> [])"

text \<open>
  The row normalisers \<^verbatim>\<open>{ ...raw, id, k: typeof raw.k === ".." ? raw.k : undefined, .. }\<close> of the panels: the
  identifiers are trimmed and must not be blank, the properties of the schema keep their
  value or become undefined, all others are copied.
\<close>

definition typed_row :: "string list \<Rightarrow> schema \<Rightarrow> jsval \<Rightarrow> jsval jsobj option" where
  "typed_row ids sch raw =
     (case raw of
        JObj ps \<Rightarrow>
          if list_ex (\<lambda>k. id_text ps k = []) ids then None
          else Some (obj_put_all ps
            (map (\<lambda>k. (k, JStr (id_text ps k))) ids @ map (\<lambda>(k, T). (k, keep_typed T (obj_get ps k))) sch))
      | _ \<Rightarrow> None)"

lemma keep_typed_idem [simp]: "keep_typed T (keep_typed T v) = keep_typed T v"
  by (simp add: keep_typed_def)

lemma keep_typed_ok: "keep_typed T v = JUndef \<or> has_type T (keep_typed T v)"
  by (simp add: keep_typed_def)

locale row_normalizer =
  fixes ids :: "string list" and sch :: schema and norm :: "jsval \<Rightarrow> jsval jsobj option"
  assumes norm_eq: "norm raw = typed_row ids sch raw"
    and distinct_fields: "distinct (ids @ map fst sch)"
begin

lemma norm_row:
  assumes "norm raw = Some row"
  obtains ps where "raw = JObj ps" "\<And>k. k \<in> set ids \<Longrightarrow> id_text ps k \<noteq> []"
    "\<And>k. map_of row k =
       (if k \<in> set ids then Some (JStr (id_text ps k))
        else case map_of sch k of Some T \<Rightarrow> Some (keep_typed T (obj_get ps k)) | None \<Rightarrow> map_of ps k)"
    "row = obj_put_all ps (map (\<lambda>k. (k, JStr (id_text ps k))) ids @ map (\<lambda>(k, T). (k, keep_typed T (obj_get ps k))) sch)"
proof -
  from assms obtain ps where ps: "raw = JObj ps" "\<not> list_ex (\<lambda>k. id_text ps k = []) ids"
    and row: "row = obj_put_all ps
      (map (\<lambda>k. (k, JStr (id_text ps k))) ids @ map (\<lambda>(k, T). (k, keep_typed T (obj_get ps k))) sch)" (is "_ = obj_put_all ps ?qs")
    by (auto simp: norm_eq typed_row_def split: jsval.splits if_splits)
  have fst: "map fst ?qs = ids @ map fst sch" by (simp add: comp_def case_prod_beta)
  have wf: "wf_obj ?qs" unfolding fst by (rule distinct_fields)
  have "map_of ?qs k = (if k \<in> set ids then Some (JStr (id_text ps k))
      else map_option (\<lambda>T. keep_typed T (obj_get ps k)) (map_of sch k))" for k
  proof -
    have 1: "map_of (map (\<lambda>k. (k, JStr (id_text ps k))) ids) k = (if k \<in> set ids then Some (JStr (id_text ps k)) else None)"
      by (induction ids) auto
    have 2: "map_of (map (\<lambda>(k, T). (k, keep_typed T (obj_get ps k))) sch) k = map_option (\<lambda>T. keep_typed T (obj_get ps k)) (map_of sch k)"
      by (induction sch) auto
    show ?thesis using distinct_fields by (simp add: map_add_def 1 2 split: option.split)
  qed
  then have "map_of row k =
       (if k \<in> set ids then Some (JStr (id_text ps k))
        else case map_of sch k of Some T \<Rightarrow> Some (keep_typed T (obj_get ps k)) | None \<Rightarrow> map_of ps k)" for k
    unfolding row map_of_obj_put_all [OF wf] by (auto split: option.split)
  with ps row show ?thesis by (intro that) (auto simp: list_ex_iff)
qed

lemma norm_fields: "norm raw = Some row \<Longrightarrow> fields_ok sch row"
proof (erule norm_row)
  fix ps assume r: "\<And>k. map_of row k = (if k \<in> set ids then Some (JStr (id_text ps k))
        else case map_of sch k of Some T \<Rightarrow> Some (keep_typed T (obj_get ps k)) | None \<Rightarrow> map_of ps k)"
  have "obj_get row k = keep_typed T (obj_get ps k)" if "(k, T) \<in> set sch" for k T
  proof -
    have "k \<notin> set ids" using that distinct_fields by force
    moreover have "map_of sch k = Some T" using that distinct_fields by (simp add: map_of_is_SomeI)
    ultimately show ?thesis by (simp add: obj_get.simps r)
  qed
  then show ?thesis using keep_typed_ok by (fastforce simp: fields_ok_def list_all_iff)
qed

lemma norm_ids: "norm raw = Some row \<Longrightarrow> k \<in> set ids \<Longrightarrow> \<exists>s. obj_get row k = JStr s \<and> trimmed s \<and> s \<noteq> []"
  by (erule norm_row) (auto simp: obj_get.simps id_text_def split: jsval.splits option.splits)

lemma norm_others: "norm (JObj ps) = Some row \<Longrightarrow> k \<notin> set ids \<Longrightarrow> k \<notin> fst ` set sch \<Longrightarrow> obj_get row k = obj_get ps k"
  by (erule norm_row) (simp add: obj_get.simps map_of_eq_None_iff [THEN iffD2])

lemma norm_idem: "norm raw = Some row \<Longrightarrow> norm (JObj row) = Some row"
proof (erule norm_row)
  fix ps assume ne: "\<And>k. k \<in> set ids \<Longrightarrow> id_text ps k \<noteq> []"
    and r: "\<And>k. map_of row k = (if k \<in> set ids then Some (JStr (id_text ps k))
        else case map_of sch k of Some T \<Rightarrow> Some (keep_typed T (obj_get ps k)) | None \<Rightarrow> map_of ps k)"
  have i: "id_text row k = id_text ps k" if "k \<in> set ids" for k
    using that by (auto simp: id_text_def obj_get.simps r split: jsval.split option.split)
  have f: "map_of row k = Some (keep_typed T (obj_get row k))" if "(k, T) \<in> set sch" for k T
  proof -
    have "k \<notin> set ids" using that distinct_fields by force
    moreover have "map_of sch k = Some T" using that distinct_fields by (simp add: map_of_is_SomeI)
    ultimately show ?thesis by (simp add: obj_get.simps r)
  qed
  have "obj_put_all row (map (\<lambda>k. (k, JStr (id_text row k))) ids @ map (\<lambda>(k, T). (k, keep_typed T (obj_get row k))) sch) = row"
  proof (rule obj_put_all_same)
    fix k v assume "(k, v) \<in> set (map (\<lambda>k. (k, JStr (id_text row k))) ids @ map (\<lambda>(k, T). (k, keep_typed T (obj_get row k))) sch)"
    then consider "k \<in> set ids" "v = JStr (id_text row k)"
      | T where "(k, T) \<in> set sch" "v = keep_typed T (obj_get row k)" by auto
    then show "map_of row k = Some v" by cases (simp_all add: f, simp add: r i)
  qed
  moreover have "\<not> list_ex (\<lambda>k. id_text row k = []) ids" using i ne by (auto simp: list_ex_iff)
  ultimately show ?thesis by (simp add: norm_eq typed_row_def)
qed

end

end
