(* ===== verification/Job_Store.thy ===== *)
theory Job_Store
  imports Json_Utils
begin

text \<open>
  \<^verbatim>\<open>src/ui/src/runWatchPrefs.ts\<close> and \<^verbatim>\<open>src/ui/src/jobStore.ts\<close>: the table of watched jobs, one
  entry per session scope, kept in local storage and in the server's preferences. An entry
  comes from JSON and is a plain value here; its timestamps are read defensively, as the
  code does. The locale \<open>lww_merge\<close> states what merging two such tables promises (the last
  writer wins); the workflow composer's table of awaited workflows satisfies it too.
\<close>

section \<open>Last writer wins\<close>

locale lww_merge =
  fixes ts :: "'e \<Rightarrow> jsnum"
    and look :: "'m \<Rightarrow> string \<Rightarrow> 'e option"
    and good :: "'m \<Rightarrow> bool"
    and merge :: "'m \<Rightarrow> 'm \<Rightarrow> 'm"
  assumes good_ts: "good m \<Longrightarrow> look m k = Some e \<Longrightarrow> ts e \<noteq> NaN"
    and good_merge: "good a \<Longrightarrow> good b \<Longrightarrow> good (merge a b)"
    and look_merge: "good a \<Longrightarrow> good b \<Longrightarrow>
      look (merge a b) k =
        (case look b k of
           None \<Rightarrow> look a k
         | Some y \<Rightarrow> (case look a k of
             None \<Rightarrow> Some y
           | Some x \<Rightarrow> if num_le (ts x) (ts y) then Some y else Some x))"
begin

lemma merge_idem: "good a \<Longrightarrow> look (merge a a) k = look a k"
  by (simp add: look_merge split: option.split)

lemma ts_total:
  "good m \<Longrightarrow> look m k = Some e \<Longrightarrow> good m' \<Longrightarrow> look m' k = Some e' \<Longrightarrow>
   num_le (ts e) (ts e') \<or> num_le (ts e') (ts e)"
  by (meson good_ts num_le_total)

lemma merge_absorb:
  "good a \<Longrightarrow> good b \<Longrightarrow> look (merge (merge a b) b) k = look (merge a b) k"
  by (simp add: look_merge good_merge split: option.split)

lemma merge_assoc:
  assumes "good a" "good b" "good c"
  shows "look (merge (merge a b) c) k = look (merge a (merge b c)) k"
proof -
  have "num_le (ts x) (ts y) \<or> num_le (ts y) (ts x)" if "look a k = Some x" "look b k = Some y" for x y
    using that assms by (intro ts_total [of a k x b])
  moreover have "num_le (ts y) (ts z) \<or> num_le (ts z) (ts y)" if "look b k = Some y" "look c k = Some z" for y z
    using that assms by (intro ts_total [of b k y c])
  ultimately show ?thesis
    using assms by (cases "look a k"; cases "look b k"; cases "look c k")
      (auto simp: look_merge good_merge dest: num_le_trans)
qed

text \<open>No entry is lost and none is invented; the one that stays is a newest one.\<close>

lemma merge_dom: "good a \<Longrightarrow> good b \<Longrightarrow>
  look (merge a b) k = None \<longleftrightarrow> look a k = None \<and> look b k = None"
  by (auto simp: look_merge split: option.split)

lemma merge_newest:
  assumes "good a" "good b" "look (merge a b) k = Some e"
  shows "(look a k = Some e \<or> look b k = Some e) \<and>
    (\<forall>e'. look a k = Some e' \<or> look b k = Some e' \<longrightarrow> num_le (ts e') (ts e))"
proof -
  have "num_le (ts x) (ts x)" if "look m k = Some x" "good m" for m x
    using good_ts [OF that(2,1)] by (rule num_le_refl)
  moreover have "num_le (ts x) (ts y) \<or> num_le (ts y) (ts x)" if "look a k = Some x" "look b k = Some y" for x y
    using that assms by (intro ts_total [of a k x b])
  ultimately show ?thesis
    using assms by (cases "look a k"; cases "look b k") (auto simp: look_merge split: if_splits)
qed

end

section \<open>Watched runs\<close>

type_synonym run_watch_map = "jsval jsobj"

definition extractRunWatchByScope :: "jsval \<Rightarrow> run_watch_map" where
  "extractRunWatchByScope prefs =
     (let root = (if truthy prefs \<and> typeof_object prefs \<and> js_has prefs ''run_watch''
                  then js_get prefs ''run_watch'' else JNull);
          byScope = (if truthy root \<and> typeof_object root \<and> js_has root ''by_scope''
                     then js_get root ''by_scope'' else JNull)
      in if \<not> truthy byScope \<or> \<not> typeof_object byScope \<or> is_JArr byScope then []
         else safeObject byScope)"

definition runWatchTs :: "jsval \<Rightarrow> rat" where
  "runWatchTs value =
     (let updated = (case js_get value ''updated_unix_ms'' of JNum n \<Rightarrow> n | _ \<Rightarrow> Fin 0);
          started = (case js_get value ''started_unix_ms'' of JNum n \<Rightarrow> n | _ \<Rightarrow> Fin 0)
      in case updated of
           Fin u \<Rightarrow> if u > 0 then u else (case started of Fin s \<Rightarrow> s | _ \<Rightarrow> 0)
         | _ \<Rightarrow> (case started of Fin s \<Rightarrow> s | _ \<Rightarrow> 0))"

text \<open>The body of the loop over the remote entries, and the loop.\<close>

definition merge_entry :: "run_watch_map \<Rightarrow> string \<times> jsval \<Rightarrow> run_watch_map" where
  "merge_entry nxt kv =
     (case kv of (key, value) \<Rightarrow>
       if \<not> truthy value \<or> \<not> typeof_object value \<or> is_JArr value then nxt
       else let cur = obj_get nxt key in
            if \<not> truthy cur \<or> runWatchTs value \<ge> runWatchTs cur then obj_put nxt key value
            else nxt)"

definition mergeRunWatchByScope :: "run_watch_map \<Rightarrow> run_watch_map \<Rightarrow> run_watch_map" where
  "mergeRunWatchByScope local remote = foldl merge_entry local (js_entries remote)"

text \<open>The conjunction of the tests in the body of the comparison's loop, and the comparison.\<close>

definition same_watch :: "jsval \<Rightarrow> jsval \<Rightarrow> bool" where
  "same_watch av bv =
     (truthy bv \<and>
      strict_eq (js_or (js_get av ''job_id'') (JStr [])) (js_or (js_get bv ''job_id'') (JStr [])) \<and>
      strict_eq (js_or (js_get av ''cursor'') (JNum (Fin 0))) (js_or (js_get bv ''cursor'') (JNum (Fin 0))) \<and>
      runWatchTs av = runWatchTs bv)"

definition runWatchMapsEqual :: "run_watch_map \<Rightarrow> run_watch_map \<Rightarrow> bool" where
  "runWatchMapsEqual a b = same_entries same_watch a b"

section \<open>Pruning\<close>

definition JOB_STORE_MAX :: int where
  "JOB_STORE_MAX = 64"

definition JOB_STORE_TTL_MS :: rat where
  "JOB_STORE_TTL_MS = 7 * 24 * 60 * 60 * 1000"

definition job_ts :: "jsval \<Rightarrow> rat" where
  "job_ts value =
     (let tsRaw = (case js_get value ''updated_unix_ms'' of
                     JNum n \<Rightarrow> n
                   | _ \<Rightarrow> (case js_get value ''started_unix_ms'' of JNum n \<Rightarrow> n | _ \<Rightarrow> Fin 0))
      in case tsRaw of Fin r \<Rightarrow> r | _ \<Rightarrow> 0)"

record pruned =
  pr_next :: run_watch_map
  pr_changed :: bool

definition expire_entry :: "rat \<Rightarrow> rat \<Rightarrow> pruned \<Rightarrow> string \<times> jsval \<Rightarrow> pruned" where
  "expire_entry nowMs ttlMs s e =
     (if ttlMs > 0 \<and> job_ts (snd e) > 0 \<and> nowMs - job_ts (snd e) > ttlMs
      then s\<lparr>pr_changed := True\<rparr>
      else s\<lparr>pr_next := obj_put (pr_next s) (fst e) (snd e)\<rparr>)"

definition drop_key :: "string set \<Rightarrow> pruned \<Rightarrow> string \<Rightarrow> pruned" where
  "drop_key keep s key =
     (if key \<notin> keep then \<lparr>pr_next = obj_del (pr_next s) key, pr_changed = True\<rparr> else s)"

definition pruneJobsBySession :: "rat \<Rightarrow> run_watch_map \<Rightarrow> int \<Rightarrow> rat \<Rightarrow> pruned" where
  "pruneJobsBySession nowMs jobs maxEntries ttlMs =
     (let entries = filter (\<lambda>e. truthy (snd e) \<and> typeof_object (snd e) \<and> \<not> is_JArr (snd e))
                      (js_entries jobs);
          s1 = foldl (expire_entry nowMs ttlMs) \<lparr>pr_next = [], pr_changed = False\<rparr> entries;
          keys = js_keys (pr_next s1);
          s2 = (if maxEntries > 0 \<and> int (length keys) > maxEntries then
                  let sorted = js_sort (key_desc snd)
                        (map (\<lambda>key. (key, job_ts (obj_get (pr_next s1) key))) keys);
                      keep = set (map fst (take (nat maxEntries) sorted))
                  in foldl (drop_key keep) s1 keys
                else s1)
      in if length (js_keys (pr_next s2)) \<noteq> length (js_keys jobs)
         then s2\<lparr>pr_changed := True\<rparr> else s2)"


section \<open>Merging is last-writer-wins\<close>

text \<open>What a table says about a key, and the tables of records the preferences hold.\<close>

definition watched :: "run_watch_map \<Rightarrow> string \<Rightarrow> jsval option" where
  "watched m k = (case map_of m k of Some v \<Rightarrow> if truthy v then Some v else None | None \<Rightarrow> None)"

definition record_map :: "run_watch_map \<Rightarrow> bool" where
  "record_map m = (wf_obj m \<and> list_all (\<lambda>e. isUnknownRecord (snd e)) m)"

lemma map_of_merge_entry:
  "map_of (merge_entry m (k', v)) k =
     (if k = k' \<and> isUnknownRecord v \<and> (\<not> truthy (obj_get m k) \<or> runWatchTs (obj_get m k) \<le> runWatchTs v)
      then Some v else map_of m k)"
  by (cases v) (auto simp: merge_entry_def Let_def update_conv' typeof_object_def)

lemma map_of_mergeRunWatchByScope:
  "wf_obj remote \<Longrightarrow> map_of (mergeRunWatchByScope local remote) k =
     (case map_of remote k of
        None \<Rightarrow> map_of local k
      | Some v \<Rightarrow> map_of (merge_entry local (k, v)) k)"
  unfolding mergeRunWatchByScope_def
  by (subst map_of_foldl_keyed) (auto simp: map_of_merge_entry obj_get.simps)

lemma watched_record: "record_map m \<Longrightarrow> watched m k = map_of m k"
  by (fastforce simp: watched_def record_map_def list_all_iff split: option.split dest: map_of_SomeD)

lemma record_map_merge_entry: "record_map m \<Longrightarrow> record_map (merge_entry m e)"
  by (cases "snd e")
    (auto simp: record_map_def merge_entry_def Let_def distinct_update list_all_put case_prod_beta typeof_object_def)

lemma record_map_merge: "record_map a \<Longrightarrow> record_map (mergeRunWatchByScope a b)"
proof -
  have "record_map a \<Longrightarrow> record_map (foldl merge_entry a es)" for es
    by (induction es arbitrary: a) (simp_all add: record_map_merge_entry)
  then show "record_map a \<Longrightarrow> ?thesis" by (simp add: mergeRunWatchByScope_def)
qed

lemma watched_merge:
  assumes "record_map a" "record_map b"
  shows "watched (mergeRunWatchByScope a b) k =
    (case watched b k of
       None \<Rightarrow> watched a k
     | Some y \<Rightarrow> (case watched a k of
         None \<Rightarrow> Some y
       | Some x \<Rightarrow> if num_le (Fin (runWatchTs x)) (Fin (runWatchTs y)) then Some y else Some x))"
proof -
  have r: "isUnknownRecord v" if "map_of m k = Some v" "record_map m" for m v
    using that by (auto simp: record_map_def list_all_iff dest!: map_of_SomeD)
  have "wf_obj b" using assms(2) by (simp add: record_map_def)
  then show ?thesis
    using r [of a] r [of b] assms
    by (auto simp: watched_record record_map_merge map_of_mergeRunWatchByScope map_of_merge_entry
        obj_get.simps split: option.split)
qed

interpretation run_watch: lww_merge "\<lambda>e. Fin (runWatchTs e)" watched record_map mergeRunWatchByScope
  by unfold_locales (simp_all add: record_map_merge watched_merge)

text \<open>
  C19. Merging the local table of watched jobs with the server's is a last-writer-wins join:
  a scope is watched in the result exactly when it is in one of the two, by the entry with
  the newest timestamp; merging the same remote table again changes nothing, and the order
  in which several tables are folded in does not matter.
\<close>

theorem mergeRunWatchByScope_lww:
  assumes "record_map a" "record_map b" "record_map c"
  shows "record_map (mergeRunWatchByScope a b) \<and>
    (watched (mergeRunWatchByScope a b) k = None \<longleftrightarrow> watched a k = None \<and> watched b k = None) \<and>
    (\<forall>e. watched (mergeRunWatchByScope a b) k = Some e \<longrightarrow>
       (watched a k = Some e \<or> watched b k = Some e) \<and>
       (\<forall>e'. watched a k = Some e' \<or> watched b k = Some e' \<longrightarrow> runWatchTs e' \<le> runWatchTs e)) \<and>
    watched (mergeRunWatchByScope (mergeRunWatchByScope a b) b) k = watched (mergeRunWatchByScope a b) k \<and>
    watched (mergeRunWatchByScope (mergeRunWatchByScope a b) c) k
      = watched (mergeRunWatchByScope a (mergeRunWatchByScope b c)) k"
  using run_watch.merge_dom [OF assms(1,2)] run_watch.merge_newest [OF assms(1,2)]
    run_watch.merge_absorb [OF assms(1,2)] run_watch.merge_assoc [OF assms]
    record_map_merge [OF assms(1)]
  by auto

theorem mergeRunWatchByScope_lww_witness:
  "watched (mergeRunWatchByScope
      [(''s'', JObj [(''job_id'', JStr ''j1''), (''updated_unix_ms'', JNum (Fin 5))])]
      [(''s'', JObj [(''job_id'', JStr ''j2''), (''started_unix_ms'', JNum (Fin 7))]),
       (''t'', JObj [])]) ''s''
   = Some (JObj [(''job_id'', JStr ''j2''), (''started_unix_ms'', JNum (Fin 7))])"
proof -
  let ?x = "JObj [(''job_id'', JStr ''j1''), (''updated_unix_ms'', JNum (Fin 5))]"
  let ?y = "JObj [(''job_id'', JStr ''j2''), (''started_unix_ms'', JNum (Fin 7))]"
  let ?a = "[(''s'', ?x)]" and ?b = "[(''s'', ?y), (''t'', JObj [])]"
  have g: "record_map ?a" "record_map ?b" by (simp_all add: record_map_def)
  note t = mergeRunWatchByScope_lww [OF g g(1), of "''s''"]
  have w: "watched ?a ''s'' = Some ?x" "watched ?b ''s'' = Some ?y" by (simp_all add: watched_def)
  have "runWatchTs ?x = 5" "runWatchTs ?y = 7" by (simp_all add: runWatchTs_def)
  with t w show ?thesis by (cases "watched (mergeRunWatchByScope ?a ?b) ''s''") auto
qed

text \<open>The comparison that decides whether the merged table is written back.\<close>

definition typed_entry :: "jsval \<Rightarrow> bool" where
  "typed_entry v = (isUnknownRecord v
     \<and> (is_JStr (js_get v ''job_id'') \<or> js_get v ''job_id'' = JUndef)
     \<and> (is_JNum (js_get v ''cursor'') \<or> js_get v ''cursor'' = JUndef))"

definition job_view :: "jsval \<Rightarrow> jsval \<times> jsval \<times> rat" where
  "job_view v = (js_or (js_get v ''job_id'') (JStr []), js_or (js_get v ''cursor'') (JNum (Fin 0)), runWatchTs v)"

definition typed_map :: "run_watch_map \<Rightarrow> bool" where
  "typed_map m = (wf_obj m \<and> list_all (\<lambda>e. typed_entry (snd e)) m)"

lemma same_watch_iff:
  "typed_entry a \<Longrightarrow> typed_entry b \<Longrightarrow> same_watch a b \<longleftrightarrow> job_view a = job_view b"
  by (auto simp: typed_entry_def same_watch_def job_view_def strict_eq_or_str strict_eq_or_num)

interpretation watch_comparison: entry_comparison same_watch job_view typed_entry
  by unfold_locales (simp_all add: same_watch_iff, simp add: same_watch_def)

text \<open>
  The comparison of two tables of watched jobs, made over one table's keys and the two
  sizes, decides exactly whether every scope shows the same job, cursor and
  timestamp in both: an equivalence, so a preference write is skipped only when nothing the
  client reads would change.
\<close>

lemma runWatchMapsEqual_iff:
  assumes "typed_map a" "typed_map b"
  shows "runWatchMapsEqual a b \<longleftrightarrow>
    (\<forall>k. map_option job_view (map_of a k) = map_option job_view (map_of b k))"
  unfolding runWatchMapsEqual_def
  using assms by (intro watch_comparison.same_entries_iff) (simp_all add: typed_map_def)

section \<open>Pruning keeps the newest live jobs\<close>

definition fresh_job :: "rat \<Rightarrow> rat \<Rightarrow> jsval \<Rightarrow> bool" where
  "fresh_job nowMs ttlMs v = (\<not> (ttlMs > 0 \<and> job_ts v > 0 \<and> nowMs - job_ts v > ttlMs))"

definition live_job :: "rat \<Rightarrow> rat \<Rightarrow> jsval \<Rightarrow> bool" where
  "live_job nowMs ttlMs v = (isUnknownRecord v \<and> fresh_job nowMs ttlMs v)"

abbreviation live_jobs :: "rat \<Rightarrow> rat \<Rightarrow> run_watch_map \<Rightarrow> run_watch_map" where
  "live_jobs nowMs ttlMs jobs \<equiv> filter (\<lambda>e. live_job nowMs ttlMs (snd e)) (js_entries jobs)"

text \<open>The keys that survive the cap: the first \<open>n\<close> by descending timestamp.\<close>

definition ranked :: "run_watch_map \<Rightarrow> (string \<times> rat) list" where
  "ranked m = js_sort (key_desc snd) (map (\<lambda>e. (fst e, job_ts (snd e))) m)"

definition top_keys :: "int \<Rightarrow> run_watch_map \<Rightarrow> string set" where
  "top_keys n m = set (map fst (take (nat n) (ranked m)))"

lemma foldl_expire:
  "foldl (expire_entry nowMs ttlMs) s es =
     \<lparr>pr_next = obj_put_all (pr_next s) (filter (\<lambda>e. fresh_job nowMs ttlMs (snd e)) es),
      pr_changed = (pr_changed s \<or> (\<exists>e\<in>set es. \<not> fresh_job nowMs ttlMs (snd e)))\<rparr>"
  by (induction es arbitrary: s) (auto simp: expire_entry_def fresh_job_def obj_put_all_def)

lemma foldl_drop_key:
  "foldl (drop_key keep) s ks =
     \<lparr>pr_next = obj_del_all (pr_next s) (filter (\<lambda>k. k \<notin> keep) ks),
      pr_changed = (pr_changed s \<or> (\<exists>k\<in>set ks. k \<notin> keep))\<rparr>"
  by (induction ks arbitrary: s) (auto simp: drop_key_def obj_del_all_def)

lemma record_test: "truthy v \<and> typeof_object v \<and> \<not> is_JArr v \<longleftrightarrow> isUnknownRecord v"
  by (simp only: isUnknownRecord_def)

lemma live_jobs_filter:
  "filter (\<lambda>e. fresh_job nowMs ttlMs (snd e))
     (filter (\<lambda>e. truthy (snd e) \<and> typeof_object (snd e) \<and> \<not> is_JArr (snd e)) (js_entries jobs))
   = live_jobs nowMs ttlMs jobs"
  by (simp add: record_test live_job_def conj_commute)

lemma ranked_live:
  assumes "wf_obj m" "js_entries m = m"
  shows "js_sort (key_desc snd) (map (\<lambda>key. (key, job_ts (obj_get m key))) (js_keys m)) = ranked m"
proof -
  have "obj_get m (fst e) = snd e" if "e \<in> set m" for e
    using map_of_is_SomeI [OF assms(1), of "fst e" "snd e"] that by (simp add: obj_get.simps)
  then have "map (\<lambda>key. (key, job_ts (obj_get m key))) (map fst m) = map (\<lambda>e. (fst e, job_ts (snd e))) m"
    by simp
  then show ?thesis by (simp only: ranked_def js_keys_def assms(2))
qed

lemma del_unlisted: "obj_del_all m (filter (\<lambda>k. k \<notin> K) (map fst m)) = filter (\<lambda>e. fst e \<in> K) m"
  by (auto simp: obj_del_all_filter intro: filter_cong)

text \<open>The whole function, with its loops summed up.\<close>

lemma pruneJobs_eq:
  assumes "wf_obj jobs" and l: "l = live_jobs nowMs ttlMs jobs"
    and c: "c = (\<exists>e\<in>set (js_entries jobs). isUnknownRecord (snd e) \<and> \<not> fresh_job nowMs ttlMs (snd e))"
  shows "pruneJobsBySession nowMs jobs maxEntries ttlMs =
    (let s2 = (if 0 < maxEntries \<and> maxEntries < int (length l)
               then \<lparr>pr_next = filter (\<lambda>e. fst e \<in> top_keys maxEntries l) l,
                     pr_changed = (c \<or> (\<exists>k\<in>set (map fst l). k \<notin> top_keys maxEntries l))\<rparr>
               else \<lparr>pr_next = l, pr_changed = c\<rparr>)
     in if length (pr_next s2) \<noteq> length jobs then s2\<lparr>pr_changed := True\<rparr> else s2)"
proof -
  have wf: "wf_obj l" and ent: "js_entries l = l" using assms by (simp_all add: js_entries_filter_idem)
  have keys: "js_keys l = map fst l" by (simp add: js_keys_def ent)
  have put: "obj_put_all [] (live_jobs nowMs ttlMs jobs) = l" using wf unfolding l by simp
  have c': "(\<exists>e\<in>set (filter (\<lambda>e. isUnknownRecord (snd e)) (js_entries jobs)). \<not> fresh_job nowMs ttlMs (snd e)) = c"
    unfolding c set_filter by blast
  have s1: "foldl (expire_entry nowMs ttlMs) \<lparr>pr_next = [], pr_changed = False\<rparr>
      (filter (\<lambda>e. truthy (snd e) \<and> typeof_object (snd e) \<and> \<not> is_JArr (snd e)) (js_entries jobs))
    = \<lparr>pr_next = l, pr_changed = c\<rparr>"
    unfolding foldl_expire live_jobs_filter pruned.simps put by (simp only: record_test c' simp_thms)
  show ?thesis
    unfolding pruneJobsBySession_def s1 Let_def pruned.simps ranked_live [OF wf ent] foldl_drop_key
    unfolding keys del_unlisted length_js_keys length_map top_keys_def
    by simp
qed

lemma pruneJobs_next:
  assumes "wf_obj jobs" and l: "l = live_jobs nowMs ttlMs jobs"
  shows "pr_next (pruneJobsBySession nowMs jobs maxEntries ttlMs) =
    (if 0 < maxEntries \<and> maxEntries < int (length l)
     then filter (\<lambda>e. fst e \<in> top_keys maxEntries l) l else l)"
  unfolding pruneJobs_eq [OF assms refl] Let_def by auto

lemma top_keys_spec:
  assumes wf: "wf_obj m" and n: "0 < n" "n < int (length m)"
  shows "top_keys n m \<subseteq> fst ` set m" and "card (top_keys n m) = nat n"
    and "\<lbrakk>map_of m k = Some v; map_of m k' = Some v'; k \<in> top_keys n m; k' \<notin> top_keys n m\<rbrakk>
      \<Longrightarrow> job_ts v' \<le> job_ts v"
proof -
  let ?r = "ranked m" and ?n = "nat n"
  have set_r: "set ?r = (\<lambda>e. (fst e, job_ts (snd e))) ` set m" by (simp add: ranked_def)
  have mr: "mset (map fst ?r) = mset (map fst m)"
    by (simp add: ranked_def multiset.map_comp comp_def)
  then have d: "distinct (map fst ?r)" using wf by (metis mset_eq_imp_distinct_iff)
  show "top_keys n m \<subseteq> fst ` set m"
    using set_r by (auto simp: top_keys_def image_iff dest!: in_set_takeD)
  have "length ?r = length m" by (simp add: ranked_def)
  then have "length (map fst (take ?n ?r)) = ?n" using n by simp
  moreover have "distinct (map fst (take ?n ?r))" using d by (metis distinct_take take_map)
  ultimately show "card (top_keys n m) = ?n" unfolding top_keys_def by (metis distinct_card)
  assume a: "map_of m k = Some v" "map_of m k' = Some v'" "k \<in> top_keys n m" "k' \<notin> top_keys n m"
  have in_r: "(k, job_ts v) \<in> set ?r" "(k', job_ts v') \<in> set ?r"
    using a(1,2) set_r by (force dest: map_of_SomeD)+
  have split: "?r = take ?n ?r @ drop ?n ?r" by simp
  then have "(k', job_ts v') \<in> set (drop ?n ?r)"
    using in_r(2) a(4) by (metis Un_iff image_eqI fst_conv list.set_map set_append top_keys_def)
  moreover have "(k, job_ts v) \<in> set (take ?n ?r)"
  proof -
    obtain t where "(k, t) \<in> set (take ?n ?r)" using a(3) by (auto simp: top_keys_def)
    moreover from this have "(k, t) = (k, job_ts v)"
      using in_r(1) d by (metis eq_key_imp_eq_value in_set_takeD)
    ultimately show ?thesis by simp
  qed
  moreover have "sorted_wrt (key_desc snd) (take ?n ?r @ drop ?n ?r)"
    unfolding split [symmetric] unfolding ranked_def by (rule desc.sorted_js_sort)
  ultimately have "key_desc snd (k, job_ts v) (k', job_ts v')"
    unfolding sorted_wrt_append by blast
  then show "job_ts v' \<le> job_ts v" by (simp add: key_desc_def)
qed

lemma length_filter_keys:
  assumes "wf_obj m" "K \<subseteq> fst ` set m"
  shows "length (filter (\<lambda>e. fst e \<in> K) m) = card K"
proof -
  let ?f = "filter (\<lambda>e. fst e \<in> K) m"
  have "fst ` set ?f = K" using assms(2) by auto
  moreover have "wf_obj ?f" using assms(1) by simp
  ultimately show ?thesis by (metis distinct_card length_map list.set_map)
qed

lemma map_of_live_jobs:
  "wf_obj jobs \<Longrightarrow> map_of (live_jobs nowMs ttlMs jobs) k = Some v \<longleftrightarrow>
     map_of jobs k = Some v \<and> live_job nowMs ttlMs v"
  by (cases "map_of jobs k") (auto simp: map_of_filter_wf simp del: map_of_eq_Some_iff)

lemma pruneJobs_bound:
  assumes "wf_obj jobs" "0 < maxEntries"
  shows "int (length (pr_next (pruneJobsBySession nowMs jobs maxEntries ttlMs))) \<le> maxEntries"
proof -
  let ?l = "live_jobs nowMs ttlMs jobs"
  have wf: "wf_obj ?l" using assms(1) by simp
  show ?thesis
  proof (cases "maxEntries < int (length ?l)")
    case True
    note top = top_keys_spec [OF wf assms(2) True]
    have "length (filter (\<lambda>e. fst e \<in> top_keys maxEntries ?l) ?l) = nat maxEntries"
      using top(2) by (subst length_filter_keys [OF wf top(1)]) simp
    with True assms show ?thesis by (simp add: pruneJobs_next [OF assms(1) refl])
  next
    case False
    with assms show ?thesis by (simp add: pruneJobs_next [OF assms(1) refl])
  qed
qed

text \<open>
  C13. Pruning keeps at most \<open>maxEntries\<close> jobs, invents none, keeps only records that have
  not expired, and drops a live job only when the table is full of jobs at least as recent.
\<close>

theorem pruneJobs_newest:
  assumes "wf_obj jobs"
    and "nxt = pr_next (pruneJobsBySession nowMs jobs maxEntries ttlMs)"
  shows "(0 < maxEntries \<longrightarrow> int (length nxt) \<le> maxEntries) \<and>
    (\<forall>k v. map_of nxt k = Some v \<longrightarrow> map_of jobs k = Some v \<and> live_job nowMs ttlMs v) \<and>
    (\<forall>k v. map_of jobs k = Some v \<and> live_job nowMs ttlMs v \<and> map_of nxt k = None \<longrightarrow>
       0 < maxEntries \<and> int (length nxt) = maxEntries \<and>
       (\<forall>k' v'. map_of nxt k' = Some v' \<longrightarrow> job_ts v \<le> job_ts v'))"
proof -
  let ?l = "live_jobs nowMs ttlMs jobs"
  note live = map_of_live_jobs [OF assms(1), of nowMs ttlMs]
  have wf: "wf_obj ?l" using assms(1) by simp
  show ?thesis
  proof (cases "0 < maxEntries \<and> maxEntries < int (length ?l)")
    case True
    then have nx: "nxt = filter (\<lambda>e. fst e \<in> top_keys maxEntries ?l) ?l"
      using assms(2) by (simp add: pruneJobs_next [OF assms(1) refl])
    note top = top_keys_spec [OF wf conjunct1 [OF True] conjunct2 [OF True]]
    have len: "int (length nxt) = maxEntries"
      unfolding nx using top(2) True by (subst length_filter_keys [OF wf top(1)]) simp
    have get: "map_of nxt k = Some v \<longleftrightarrow> map_of ?l k = Some v \<and> k \<in> top_keys maxEntries ?l" for k v
      unfolding nx by (subst map_of_filter_wf [OF wf]) (auto split: option.split)
    have none: "map_of ?l k = Some v \<Longrightarrow> map_of nxt k = None \<Longrightarrow> k \<notin> top_keys maxEntries ?l" for k v
      using get [of k v] by auto
    have "job_ts v \<le> job_ts v'"
      if "map_of jobs k = Some v" "live_job nowMs ttlMs v" "map_of nxt k = None" "map_of nxt k' = Some v'"
      for k v k' v'
      using top(3) [of k' v' k v] none [of k v] that live get by simp
    then show ?thesis using True len get live by auto
  next
    case False
    then have nx: "nxt = ?l" using assms by (auto simp: pruneJobs_next [OF assms(1) refl])
    have len: "0 < maxEntries \<longrightarrow> int (length nxt) \<le> maxEntries" using False unfolding nx by linarith
    have get: "map_of nxt k = Some v \<longleftrightarrow> map_of jobs k = Some v \<and> live_job nowMs ttlMs v" for k v
      unfolding nx by (rule live)
    have "map_of nxt k \<noteq> None" if "map_of jobs k = Some v" "live_job nowMs ttlMs v" for k v
      using that get [of k v] by simp
    with len get show ?thesis by blast
  qed
qed

theorem pruneJobs_newest_witness:
  "length (pr_next (pruneJobsBySession 10
      [(''a'', JObj [(''updated_unix_ms'', JNum (Fin 1))]), (''b'', JObj [(''updated_unix_ms'', JNum (Fin 2))])] 1 100)) \<le> 1"
  using pruneJobs_newest [of "[(''a'', JObj [(''updated_unix_ms'', JNum (Fin 1))]), (''b'', JObj [(''updated_unix_ms'', JNum (Fin 2))])]"
      _ 10 1 100, OF _ refl]
  by simp

lemma pruneJobs_changed:
  assumes "wf_obj jobs"
  shows "pr_changed (pruneJobsBySession nowMs jobs maxEntries ttlMs) \<longleftrightarrow>
    length (pr_next (pruneJobsBySession nowMs jobs maxEntries ttlMs)) < length jobs"
proof -
  define l where "l = live_jobs nowMs ttlMs jobs"
  define c where "c = (\<exists>e\<in>set (js_entries jobs). isUnknownRecord (snd e) \<and> \<not> fresh_job nowMs ttlMs (snd e))"
  have ll: "length l \<le> length jobs" unfolding l_def by (metis length_filter_le length_js_entries)
  have lc: "length l < length jobs" if c
  proof -
    from that obtain e where "e \<in> set (js_entries jobs)" "\<not> live_job nowMs ttlMs (snd e)"
      by (auto simp: live_job_def c_def)
    then show ?thesis unfolding l_def
      using length_filter_less [of e "js_entries jobs" "\<lambda>e. live_job nowMs ttlMs (snd e)"] by simp
  qed
  have lk: "length (filter (\<lambda>e. fst e \<in> K) l) < length l" if "\<exists>k\<in>set (map fst l). k \<notin> K" for K
    using that length_filter_less [of _ l "\<lambda>e. fst e \<in> K"] by auto
  define n where "n = length (filter (\<lambda>e. fst e \<in> top_keys maxEntries l) l)"
  have "n \<le> length l" by (simp add: n_def)
  then show ?thesis
    unfolding pruneJobs_eq [OF assms l_def c_def]
    using ll lc lk [of "top_keys maxEntries l"] by (fastforce simp add: Let_def simp flip: n_def)
qed

text \<open>
  The \<open>changed\<close> flag, which decides whether the table is written back to storage, is set
  exactly when a job was dropped; and pruning is idempotent: right after, it changes nothing.
\<close>

lemma pruneJobs_changed_exact:
  assumes "wf_obj jobs"
    and "nxt = pr_next (pruneJobsBySession nowMs jobs maxEntries ttlMs)"
  shows "(pr_changed (pruneJobsBySession nowMs jobs maxEntries ttlMs) \<longleftrightarrow> map_of nxt \<noteq> map_of jobs) \<and>
    pruneJobsBySession nowMs nxt maxEntries ttlMs = \<lparr>pr_next = nxt, pr_changed = False\<rparr>"
proof -
  let ?l = "live_jobs nowMs ttlMs jobs"
  have nx: "nxt = (if 0 < maxEntries \<and> maxEntries < int (length ?l)
     then filter (\<lambda>e. fst e \<in> top_keys maxEntries ?l) ?l else ?l)"
    unfolding assms(2) by (rule pruneJobs_next [OF assms(1) refl])
  obtain P where P: "nxt = filter P (js_entries jobs)" "\<And>e. P e \<Longrightarrow> live_job nowMs ttlMs (snd e)"
    using nx that [of "\<lambda>e. live_job nowMs ttlMs (snd e) \<and> (if 0 < maxEntries \<and> maxEntries < int (length ?l) then fst e \<in> top_keys maxEntries ?l else True)"]
    by (cases "0 < maxEntries \<and> maxEntries < int (length ?l)") (simp_all add: conj_commute)
  have wf: "wf_obj nxt" and ent: "js_entries nxt = nxt"
    using assms(1) by (simp_all add: P(1) js_entries_filter_idem)
  have "map_of nxt = map_of jobs \<longleftrightarrow> length nxt = length jobs"
  proof
    show "map_of nxt = map_of jobs \<Longrightarrow> length nxt = length jobs"
      using card_dom_wf [OF wf] card_dom_wf [OF assms(1)] by simp
    assume "length nxt = length jobs"
    then have "nxt = js_entries jobs"
      unfolding P(1) by (metis length_filter_less less_irrefl filter_True length_js_entries)
    then show "map_of nxt = map_of jobs" using assms(1) by simp
  qed
  moreover have "length nxt \<le> length jobs" unfolding P(1) by (metis length_filter_le length_js_entries)
  moreover have bound: "0 < maxEntries \<Longrightarrow> int (length nxt) \<le> maxEntries"
    unfolding assms(2) by (rule pruneJobs_bound [OF assms(1)])
  have all: "live_job nowMs ttlMs (snd e)" if "e \<in> set nxt" for e using P that by auto
  then have l': "live_jobs nowMs ttlMs nxt = nxt" unfolding ent by (simp add: filter_id_conv)
  have "\<not> (\<exists>e\<in>set (js_entries nxt). isUnknownRecord (snd e) \<and> \<not> fresh_job nowMs ttlMs (snd e))"
    using all by (auto simp: live_job_def simp del: isUnknownRecord_iff)
  then have "pruneJobsBySession nowMs nxt maxEntries ttlMs = \<lparr>pr_next = nxt, pr_changed = False\<rparr>"
    using bound by (auto simp add: pruneJobs_eq [OF wf l' [symmetric] refl] Let_def)
  ultimately show ?thesis using pruneJobs_changed [OF assms(1)] assms(2) by auto
qed

end
