(* ===== verification/Workflow_Levels.thy ===== *)
theory Workflow_Levels
  imports Js_Prelude
begin

text \<open>
  The depth-first level computation behind the two drawings of a workflow:
  \<^verbatim>\<open>computeLevel\<close> in \<^verbatim>\<open>src/ui/src/workflowGraph.ts\<close> (graph editor) and its copy in
  \<^verbatim>\<open>src/ui/src/components/workflow/workflowPanelUtils.ts\<close> (task timeline), which also records
  whether it met a cycle. Both share the closure variables \<^verbatim>\<open>levels\<close> and \<^verbatim>\<open>visiting\<close>, kept
  here in a record. The recursion is bounded by fuel; \<open>task_level_total\<close> shows that the
  number of nodes not yet on the stack is enough.
\<close>

section \<open>The two copies\<close>

record dfs =
  levels :: "string \<rightharpoonup> int"
  visiting :: "string set"

record task_dfs = dfs +
  hasCycle :: bool

text \<open>The editor's copy: the node function and its loop over the dependencies.\<close>

fun graph_level :: "nat \<Rightarrow> (string \<Rightarrow> string list) \<Rightarrow> dfs \<Rightarrow> string \<Rightarrow> (int \<times> dfs) option"
and graph_deps :: "nat \<Rightarrow> (string \<Rightarrow> string list) \<Rightarrow> dfs \<Rightarrow> int \<Rightarrow> string list \<Rightarrow> (int \<times> dfs) option" where
  "graph_level 0 deps s v = None"
| "graph_level (Suc n) deps s v =
     (case levels s v of
        Some l \<Rightarrow> Some (l, s)
      | None \<Rightarrow>
          if v \<in> visiting s then Some (0, s)
          else case graph_deps n deps (s\<lparr>visiting := insert v (visiting s)\<rparr>) (- 1) (deps v) of
                 None \<Rightarrow> None
               | Some (maxDep, s') \<Rightarrow>
                   Some (maxDep + 1, s'\<lparr>visiting := visiting s' - {v}, levels := (levels s')(v \<mapsto> maxDep + 1)\<rparr>))"
| "graph_deps n deps s maxDep [] = Some (maxDep, s)"
| "graph_deps n deps s maxDep (d # ds) =
     (case graph_level n deps s d of
        None \<Rightarrow> None
      | Some (l, s') \<Rightarrow> graph_deps n deps s' (max maxDep l) ds)"

text \<open>The timeline's copy, which sets \<^verbatim>\<open>hasCycle\<close> when it meets a node on the stack.\<close>

fun task_level :: "nat \<Rightarrow> (string \<Rightarrow> string list) \<Rightarrow> task_dfs \<Rightarrow> string \<Rightarrow> (int \<times> task_dfs) option"
and task_deps :: "nat \<Rightarrow> (string \<Rightarrow> string list) \<Rightarrow> task_dfs \<Rightarrow> int \<Rightarrow> string list \<Rightarrow> (int \<times> task_dfs) option" where
  "task_level 0 deps s v = None"
| "task_level (Suc n) deps s v =
     (case levels s v of
        Some l \<Rightarrow> Some (l, s)
      | None \<Rightarrow>
          if v \<in> visiting s then Some (0, s\<lparr>hasCycle := True\<rparr>)
          else case task_deps n deps (s\<lparr>visiting := insert v (visiting s)\<rparr>) (- 1) (deps v) of
                 None \<Rightarrow> None
               | Some (maxDep, s') \<Rightarrow>
                   Some (maxDep + 1, s'\<lparr>visiting := visiting s' - {v}, levels := (levels s')(v \<mapsto> maxDep + 1)\<rparr>))"
| "task_deps n deps s maxDep [] = Some (maxDep, s)"
| "task_deps n deps s maxDep (d # ds) =
     (case task_level n deps s d of
        None \<Rightarrow> None
      | Some (l, s') \<Rightarrow> task_deps n deps s' (max maxDep l) ds)"

text \<open>\<^verbatim>\<open>nodes.forEach((n) => computeLevel(n.id))\<close>: the results are dropped, the state stays.\<close>

definition graph_levels :: "nat \<Rightarrow> (string \<Rightarrow> string list) \<Rightarrow> string list \<Rightarrow> dfs option" where
  "graph_levels n deps vs =
     map_option snd (graph_deps n deps \<lparr>levels = Map.empty, visiting = {}\<rparr> 0 vs)"

definition task_levels :: "nat \<Rightarrow> (string \<Rightarrow> string list) \<Rightarrow> string list \<Rightarrow> task_dfs option" where
  "task_levels n deps vs =
     map_option snd (task_deps n deps \<lparr>levels = Map.empty, visiting = {}, hasCycle = False\<rparr> 0 vs)"

section \<open>The copies agree\<close>

lemma graph_task_level:
  "graph_level n deps (dfs.truncate s) v = map_option (map_prod id dfs.truncate) (task_level n deps s v)"
  "graph_deps n deps (dfs.truncate s) m ds = map_option (map_prod id dfs.truncate) (task_deps n deps s m ds)"
proof (induction n deps s v and n deps s m ds rule: task_level_task_deps.induct)
  case (2 n deps s v)
  have tr: "(dfs.truncate s)\<lparr>visiting := insert v (visiting s)\<rparr> = dfs.truncate (s\<lparr>visiting := insert v (visiting s)\<rparr>)"
    by (simp add: dfs.truncate_def)
  show ?case
    using 2 by (auto simp: dfs.truncate_def split: option.split)
next
  case (4 n deps s m d ds)
  then show ?case by (auto split: option.split)
qed (simp_all)

lemma graph_levels_eq: "graph_levels n deps vs = map_option dfs.truncate (task_levels n deps vs)"
proof -
  have "\<lparr>levels = Map.empty, visiting = {}\<rparr> = dfs.truncate \<lparr>levels = Map.empty, visiting = {}, hasCycle = False\<rparr>"
    by (simp add: dfs.truncate_def)
  then show ?thesis
    by (simp only: graph_levels_def task_levels_def graph_task_level) (auto split: option.split simp: option.map_comp comp_def)
qed

section \<open>The fuel is enough\<close>

text \<open>
  \<open>closed_deps deps V\<close>: a finite set of nodes that holds every dependency; other identifiers
  have none (\<^verbatim>\<open>depsMap.get(id) ?? []\<close>).
\<close>

definition closed_deps :: "(string \<Rightarrow> string list) \<Rightarrow> string set \<Rightarrow> bool" where
  "closed_deps deps V = (finite V \<and> (\<forall>v\<in>V. set (deps v) \<subseteq> V) \<and> (\<forall>v. v \<notin> V \<longrightarrow> deps v = []))"

lemma task_level_total:
  "\<lbrakk>closed_deps deps V; v \<in> V; card (V - visiting s) < n\<rbrakk> \<Longrightarrow>
      \<exists>l s'. task_level n deps s v = Some (l, s') \<and> visiting s' = visiting s"
  "\<lbrakk>closed_deps deps V; set ds \<subseteq> V; 0 < n; card (V - visiting s) < n\<rbrakk> \<Longrightarrow>
      \<exists>l s'. task_deps n deps s m ds = Some (l, s') \<and> visiting s' = visiting s"
proof (induction n deps s v and n deps s m ds rule: task_level_task_deps.induct)
  case (2 n deps s v)
  show ?case
  proof (cases "levels s v = None \<and> v \<notin> visiting s")
    case True
    let ?s = "s\<lparr>visiting := insert v (visiting s)\<rparr>"
    have "V - visiting ?s = (V - visiting s) - {v}" by auto
    moreover have v: "v \<in> V - visiting s" and f: "finite V" using True 2 by (simp_all add: closed_deps_def)
    ultimately have c: "card (V - visiting ?s) < card (V - visiting s)"
      using f by (metis card_Diff1_less finite_Diff)
    show ?thesis
    proof (cases "deps v = []")
      case True
      with \<open>levels s v = None \<and> v \<notin> visiting s\<close> show ?thesis by auto
    next
      case False
      have "card (V - visiting s) \<le> n" using 2 by simp
      moreover have "n \<noteq> 0" using c 2 by linarith
      ultimately have "\<exists>l s'. task_deps n deps ?s (- 1) (deps v) = Some (l, s') \<and> visiting s' = visiting ?s"
        using True c 2(2-4) by (intro 2(1)) (auto simp: closed_deps_def)
      then show ?thesis using True by auto
    qed
  next
    case False
    then show ?thesis by (auto split: option.split)
  qed
next
  case (4 n deps s m d ds)
  then obtain l s' where "task_level n deps s d = Some (l, s')" "visiting s' = visiting s" by auto
  with 4 show ?case by auto
qed simp_all

section \<open>What the search computes\<close>

text \<open>
  The dependency relation, and the equation a level satisfies: above the levels of all
  dependencies, and zero or directly above one of them.
\<close>

definition dep_rel :: "(string \<Rightarrow> string list) \<Rightarrow> (string \<times> string) set" where
  "dep_rel deps = {(v, d). d \<in> set (deps v)}"

definition level_ok :: "(string \<Rightarrow> string list) \<Rightarrow> (string \<rightharpoonup> int) \<Rightarrow> string \<Rightarrow> int \<Rightarrow> bool" where
  "level_ok deps lv v l =
     (0 \<le> l \<and> (\<forall>d\<in>set (deps v). \<exists>k. lv d = Some k \<and> k < l) \<and>
      (l = 0 \<or> (\<exists>d\<in>set (deps v). lv d = Some (l - 1))))"

definition dfs_inv :: "(string \<Rightarrow> string list) \<Rightarrow> task_dfs \<Rightarrow> bool" where
  "dfs_inv deps s =
     ((\<forall>v l. levels s v = Some l \<longrightarrow> 0 \<le> l) \<and>
      (\<not> hasCycle s \<longrightarrow> (\<forall>v l. levels s v = Some l \<longrightarrow> level_ok deps (levels s) v l)) \<and>
      (hasCycle s \<longrightarrow> (\<exists>v. (v, v) \<in> (dep_rel deps)\<^sup>+)))"

lemma level_ok_mono: "level_ok deps lv v l \<Longrightarrow> lv \<subseteq>\<^sub>m lv' \<Longrightarrow> level_ok deps lv' v l"
  by (fastforce simp: level_ok_def map_le_def dom_def)

text \<open>What one call leaves behind: \<open>s\<close> before, \<open>s'\<close> after.\<close>

definition dfs_step :: "(string \<Rightarrow> string list) \<Rightarrow> task_dfs \<Rightarrow> task_dfs \<Rightarrow> bool" where
  "dfs_step deps s s' =
     (dfs_inv deps s' \<and> visiting s' = visiting s \<and> levels s \<subseteq>\<^sub>m levels s' \<and>
      (\<forall>v\<in>visiting s. levels s' v = levels s v) \<and> (hasCycle s \<longrightarrow> hasCycle s'))"

lemma dfs_step_refl: "dfs_inv deps s \<Longrightarrow> dfs_step deps s s"
  by (simp add: dfs_step_def)

lemma dfs_step_trans: "dfs_step deps s s' \<Longrightarrow> dfs_step deps s' s'' \<Longrightarrow> dfs_step deps s s''"
  unfolding dfs_step_def by (metis map_le_trans)

lemma dfs_step_finish:
  assumes inv: "dfs_step deps (s\<lparr>visiting := insert v (visiting s)\<rparr>) s2"
    and new: "levels s v = None" "v \<notin> visiting s" and m: "- 1 \<le> m"
    and ok: "\<not> hasCycle s2 \<Longrightarrow> level_ok deps (levels s2) v (m + 1)"
  shows "dfs_step deps s (s2\<lparr>visiting := visiting s2 - {v}, levels := (levels s2)(v \<mapsto> m + 1)\<rparr>)"
proof -
  let ?lv = "(levels s2)(v \<mapsto> m + 1)"
  have none: "levels s2 v = None" and i2: "dfs_inv deps s2" and vis: "visiting s2 = insert v (visiting s)"
    and le: "levels s \<subseteq>\<^sub>m levels s2" and keep: "\<And>u. u \<in> visiting s \<Longrightarrow> levels s2 u = levels s u"
    using inv new by (auto simp: dfs_step_def)
  have le2: "levels s2 \<subseteq>\<^sub>m ?lv" using none by (auto simp: map_le_def dom_def)
  have "level_ok deps ?lv u l" if "\<not> hasCycle s2" "?lv u = Some l" for u l
  proof (cases "u = v")
    case True
    with that ok [THEN level_ok_mono, OF _ le2] show ?thesis by simp
  next
    case False
    with that i2 have "level_ok deps (levels s2) u l" by (simp add: dfs_inv_def)
    then show ?thesis using le2 by (rule level_ok_mono)
  qed
  moreover have "0 \<le> l" if "?lv u = Some l" for u l
    using that i2 m by (cases "u = v") (auto simp: dfs_inv_def)
  ultimately have "dfs_inv deps (s2\<lparr>visiting := visiting s2 - {v}, levels := ?lv\<rparr>)"
    using i2 unfolding dfs_inv_def by simp
  moreover have "levels s \<subseteq>\<^sub>m ?lv" using le le2 by (rule map_le_trans)
  ultimately show ?thesis
    using inv keep new(2) vis by (auto simp: dfs_step_def)
qed

lemma task_level_correct:
  "\<lbrakk>task_level n deps s v = Some (l, s'); dfs_inv deps s; \<forall>u\<in>visiting s. (u, v) \<in> (dep_rel deps)\<^sup>+;
     dom (levels s) \<inter> visiting s = {}\<rbrakk> \<Longrightarrow>
   dfs_step deps s s' \<and> 0 \<le> l \<and> (\<not> hasCycle s' \<longrightarrow> levels s' v = Some l) \<and>
   (v \<in> visiting s \<or> v \<in> dom (levels s'))"
  "\<lbrakk>task_deps n deps s m ds = Some (l, s'); dfs_inv deps s;
     \<forall>u\<in>visiting s. \<forall>d\<in>set ds. (u, d) \<in> (dep_rel deps)\<^sup>+;
     dom (levels s) \<inter> visiting s = {}\<rbrakk> \<Longrightarrow>
   dfs_step deps s s' \<and> m \<le> l \<and>
   (\<not> hasCycle s' \<longrightarrow> (\<forall>d\<in>set ds. \<exists>k. levels s' d = Some k \<and> k \<le> l) \<and>
      (l = m \<or> (\<exists>d\<in>set ds. levels s' d = Some l))) \<and>
   (\<forall>d\<in>set ds. d \<in> visiting s \<or> d \<in> dom (levels s'))"
proof (induction n deps s v and n deps s m ds arbitrary: l s' and l s' rule: task_level_task_deps.induct)
  case (2 n deps s v)
  consider (known) k where "levels s v = Some k"
    | (stack) "levels s v = None" "v \<in> visiting s"
    | (new) "levels s v = None" "v \<notin> visiting s" by (cases "levels s v") auto
  then show ?case
  proof cases
    case known
    with 2 show ?thesis by (auto simp: dfs_step_refl dfs_inv_def)
  next
    case stack
    then have "(v, v) \<in> (dep_rel deps)\<^sup>+" using 2(4) by blast
    with stack 2 show ?thesis by (auto simp: dfs_step_def dfs_inv_def)
  next
    case new
    let ?s = "s\<lparr>visiting := insert v (visiting s)\<rparr>"
    from new 2(2) obtain m s2 where d: "task_deps n deps ?s (- 1) (deps v) = Some (m, s2)"
      and l: "l = m + 1" and s': "s' = s2\<lparr>visiting := visiting s2 - {v}, levels := (levels s2)(v \<mapsto> m + 1)\<rparr>"
      by (auto split: option.splits)
    have "(u, d) \<in> (dep_rel deps)\<^sup>+" if "u \<in> insert v (visiting s)" "d \<in> set (deps v)" for u d
    proof -
      have e: "(v, d) \<in> dep_rel deps" using that by (simp add: dep_rel_def)
      then show ?thesis using 2(4) that e by (metis insertE r_into_trancl' trancl.trancl_into_trancl)
    qed
    then have ih: "dfs_step deps ?s s2 \<and> - 1 \<le> m \<and>
      (\<not> hasCycle s2 \<longrightarrow> (\<forall>d\<in>set (deps v). \<exists>k. levels s2 d = Some k \<and> k \<le> m) \<and>
        (m = - 1 \<or> (\<exists>d\<in>set (deps v). levels s2 d = Some m)))"
      using 2(1) [OF new(1) new(2) d] 2(3,5) new by (auto simp: dfs_inv_def)
    then have "dfs_step deps s s'"
      unfolding s' using new by (intro dfs_step_finish) (force simp: level_ok_def)+
    with ih l s' show ?thesis by auto
  qed
next
  case (4 n deps s m d ds)
  from 4(3) obtain k s1 where d: "task_level n deps s d = Some (k, s1)"
    and ds: "task_deps n deps s1 (max m k) ds = Some (l, s')"
    by (auto split: option.splits)
  have a: "dfs_step deps s s1 \<and> 0 \<le> k \<and> (\<not> hasCycle s1 \<longrightarrow> levels s1 d = Some k) \<and>
    (d \<in> visiting s \<or> d \<in> dom (levels s1))"
    using 4(1) [OF d] 4(4-6) by simp
  then have vis: "visiting s1 = visiting s" by (simp add: dfs_step_def)
  have "levels s1 u = None" if "u \<in> visiting s" for u
    using a that 4(6) by (metis IntI domIff dfs_step_def empty_iff)
  then have dis: "dom (levels s1) \<inter> visiting s1 = {}" using vis by auto
  have b: "dfs_step deps s1 s' \<and> max m k \<le> l \<and>
    (\<not> hasCycle s' \<longrightarrow> (\<forall>d\<in>set ds. \<exists>k. levels s' d = Some k \<and> k \<le> l) \<and>
      (l = max m k \<or> (\<exists>d\<in>set ds. levels s' d = Some l))) \<and>
    (\<forall>d\<in>set ds. d \<in> visiting s1 \<or> d \<in> dom (levels s'))"
    using 4(2) [OF d refl ds] 4(5) a vis dis by (auto simp: dfs_step_def)
  have le: "levels s1 \<subseteq>\<^sub>m levels s'" and "hasCycle s1 \<longrightarrow> hasCycle s'" using b by (simp_all add: dfs_step_def)
  then have "\<not> hasCycle s' \<longrightarrow> levels s' d = Some k" "d \<in> visiting s \<or> d \<in> dom (levels s')"
    using a by (auto simp: map_le_def dom_def)
  moreover have "dfs_step deps s s'" using a b dfs_step_trans by blast
  ultimately show ?case using b vis by (auto simp: max_def split: if_splits)
qed (simp_all add: dfs_step_refl)

section \<open>The result of the whole search\<close>

text \<open>Chains of dependencies: \<open>dep_chain deps k v\<close> when one of length \<open>k\<close> starts at \<open>v\<close>.\<close>

primrec dep_chain :: "(string \<Rightarrow> string list) \<Rightarrow> nat \<Rightarrow> string \<Rightarrow> bool" where
  "dep_chain deps 0 v = True"
| "dep_chain deps (Suc k) v = (\<exists>d\<in>set (deps v). dep_chain deps k d)"

definition cyclic :: "(string \<Rightarrow> string list) \<Rightarrow> bool" where
  "cyclic deps = (\<exists>v. (v, v) \<in> (dep_rel deps)\<^sup>+)"

lemma level_ok_decreasing:
  assumes "\<And>v l. lv v = Some l \<Longrightarrow> level_ok deps lv v l" "lv v = Some l"
  shows "(v, d) \<in> (dep_rel deps)\<^sup>+ \<Longrightarrow> \<exists>k. lv d = Some k \<and> k < l"
proof (induction d rule: trancl_induct)
  case (base d)
  with assms(1) [OF assms(2)] show ?case by (auto simp: level_ok_def dep_rel_def)
next
  case (step d e)
  then obtain k where k: "lv d = Some k" "k < l" by blast
  from assms(1) [OF k(1)] step(2) obtain j where "lv e = Some j" "j < k"
    by (auto simp: level_ok_def dep_rel_def)
  with k show ?case by auto
qed

lemma level_ok_chain:
  assumes "\<And>v l. lv v = Some l \<Longrightarrow> level_ok deps lv v l"
  shows "lv v = Some l \<Longrightarrow> dep_chain deps k v \<longleftrightarrow> int k \<le> l"
proof (induction k arbitrary: v l)
  case 0
  then show ?case using assms by (auto simp: level_ok_def)
next
  case (Suc k)
  have ok: "level_ok deps lv v l" using assms Suc.prems by blast
  have "(\<exists>d\<in>set (deps v). dep_chain deps k d) \<longleftrightarrow> (\<exists>d\<in>set (deps v). \<exists>j. lv d = Some j \<and> int k \<le> j)"
    using ok Suc.IH unfolding level_ok_def by (metis option.inject)
  also have "\<dots> \<longleftrightarrow> int (Suc k) \<le> l"
  proof
    assume "\<exists>d\<in>set (deps v). \<exists>j. lv d = Some j \<and> int k \<le> j"
    with ok show "int (Suc k) \<le> l" unfolding level_ok_def by fastforce
  next
    assume "int (Suc k) \<le> l"
    with ok show "\<exists>d\<in>set (deps v). \<exists>j. lv d = Some j \<and> int k \<le> j" unfolding level_ok_def by fastforce
  qed
  finally show ?case by simp
qed

definition levels_result :: "(string \<Rightarrow> string list) \<Rightarrow> string set \<Rightarrow> (string \<rightharpoonup> int) \<Rightarrow> bool" where
  "levels_result deps V lv =
     ((\<forall>v\<in>V. \<exists>l\<ge>0. lv v = Some l) \<and>
      (\<not> cyclic deps \<longrightarrow> (\<forall>v l. lv v = Some l \<longrightarrow> level_ok deps lv v l)))"

lemma task_levels_result:
  assumes V: "closed_deps deps (set vs)" and n: "card (set vs) < n"
  obtains s where "task_levels n deps vs = Some s" "levels_result deps (set vs) (levels s)"
    "hasCycle s \<longleftrightarrow> cyclic deps"
proof -
  let ?s0 = "\<lparr>levels = Map.empty, visiting = {}, hasCycle = False\<rparr>"
  obtain m s where r: "task_deps n deps ?s0 0 vs = Some (m, s)"
    using task_level_total(2) [OF V, of vs n ?s0 0] n by auto
  have step: "dfs_step deps ?s0 s" and all: "set vs \<subseteq> dom (levels s)"
    using task_level_correct(2) [OF r] by (auto simp: dfs_inv_def)
  then have inv: "dfs_inv deps s" by (simp add: dfs_step_def)
  have cyc: "hasCycle s \<longleftrightarrow> cyclic deps"
  proof
    show "hasCycle s \<Longrightarrow> cyclic deps" using inv by (auto simp: dfs_inv_def cyclic_def)
    assume "cyclic deps"
    then obtain v where v: "(v, v) \<in> (dep_rel deps)\<^sup>+" by (auto simp: cyclic_def)
    then obtain d where "(v, d) \<in> dep_rel deps" by (metis tranclD)
    then have "v \<in> set vs" using V by (cases "v \<in> set vs") (auto simp: closed_deps_def dep_rel_def)
    then obtain l where l: "levels s v = Some l" using all by auto
    show "hasCycle s"
    proof (rule ccontr)
      assume "\<not> hasCycle s"
      then have "\<And>v l. levels s v = Some l \<Longrightarrow> level_ok deps (levels s) v l"
        using inv by (simp add: dfs_inv_def)
      from level_ok_decreasing [OF this l v] show False using l by simp
    qed
  qed
  have "levels_result deps (set vs) (levels s)"
    using inv all cyc unfolding levels_result_def dfs_inv_def by blast
  with r cyc show ?thesis by (intro that [of s]) (simp_all add: task_levels_def)
qed

lemma graph_levels_result:
  assumes "closed_deps deps (set vs)" "card (set vs) < n"
  obtains s where "graph_levels n deps vs = Some s" "levels_result deps (set vs) (levels s)"
  using task_levels_result [OF assms] that by (metis graph_levels_eq option.simps(9) dfs.truncate_def dfs.select_convs(1))

text \<open>
  C12. On every finite dependency graph, cyclic or not, the search returns within a fuel of
  one more than the number of nodes. It reports a cycle exactly when there is one; without
  a cycle the level of a node is the length of the longest chain of dependencies
  that starts there.
\<close>

theorem task_levels_longest_chain:
  assumes "closed_deps deps (set vs)"
  shows "\<exists>s. task_levels (Suc (length vs)) deps vs = Some s \<and>
    (hasCycle s \<longleftrightarrow> cyclic deps) \<and>
    (\<not> cyclic deps \<longrightarrow> (\<forall>v\<in>set vs. \<exists>l. levels s v = Some l \<and>
       (\<forall>k. dep_chain deps k v \<longleftrightarrow> int k \<le> l)))"
proof -
  obtain s where s: "task_levels (Suc (length vs)) deps vs = Some s"
      "levels_result deps (set vs) (levels s)" "hasCycle s \<longleftrightarrow> cyclic deps"
    using task_levels_result [OF assms] card_length [of vs] by (metis less_Suc_eq_le)
  moreover have "\<exists>l. levels s v = Some l \<and> (\<forall>k. dep_chain deps k v \<longleftrightarrow> int k \<le> l)"
    if "\<not> cyclic deps" "v \<in> set vs" for v
    using s(2) that level_ok_chain [of "levels s" deps v] unfolding levels_result_def by blast
  ultimately show ?thesis by blast
qed

text \<open>A three-node graph: \<open>C\<close> depends on \<open>A\<close> and \<open>B\<close>, \<open>B\<close> on \<open>A\<close>.\<close>

definition sample_deps :: "string \<Rightarrow> string list" where
  "sample_deps v = (if v = ''C'' then [''A'', ''B''] else if v = ''B'' then [''A''] else [])"

theorem task_levels_longest_chain_witness:
  "(\<exists>s. task_levels 4 sample_deps [''A'', ''B'', ''C''] = Some s \<and> (hasCycle s \<longleftrightarrow> cyclic sample_deps)) \<and>
   map_option (\<lambda>s. (levels s ''C'', hasCycle s)) (task_levels 4 sample_deps [''A'', ''B'', ''C'']) = Some (Some 2, False)"
proof
  have "closed_deps sample_deps (set [''A'', ''B'', ''C''])"
    by (auto simp: closed_deps_def sample_deps_def)
  from task_levels_longest_chain [OF this]
  show "\<exists>s. task_levels 4 sample_deps [''A'', ''B'', ''C''] = Some s \<and> (hasCycle s \<longleftrightarrow> cyclic sample_deps)"
    by (auto simp: eval_nat_numeral)
  show "map_option (\<lambda>s. (levels s ''C'', hasCycle s)) (task_levels 4 sample_deps [''A'', ''B'', ''C'']) = Some (Some 2, False)"
    by code_simp
qed

end
