(* ===== verification/Workflow_Graph.thy ===== *)
theory Workflow_Graph
  imports Workflow_Levels Json_Utils
begin

text \<open>
  \<^verbatim>\<open>src/ui/src/workflowGraph.ts\<close>: the graph editor's state, its layered layout, the workflow
  specification it submits and the import of a specification into the editor. The objects
  the code writes as literals are the same objects here; \<^verbatim>\<open>throw new Error(..)\<close> is the left
  side of a sum; \<open>Out_of_fuel\<close> is the model's own and never occurs (\<open>layoutGraph_total\<close>). \<^verbatim>\<open>localeCompare\<close> is the environment's collation, the parameter \<open>collate\<close>.
\<close>

section \<open>Data\<close>

datatype GraphNodeKind = Llm | Agent_parallel

record GraphNode =
  gn_id :: string
  gn_kind :: GraphNodeKind
  gn_x :: jsnum
  gn_y :: jsnum
  gn_prompt :: string
  gn_targets :: "string list option"

record GraphEdge =
  ge_from :: string
  ge_to :: string

record GraphState =
  gs_nodes :: "GraphNode list"
  gs_edges :: "GraphEdge list"

record GraphBuildOptions =
  bo_defaults :: "jsval jsobj"
  bo_allowInlineKeys :: bool
  bo_targets :: "string list"
  bo_bearerEnv :: "string option"

record GraphBuildResult =
  br_workflow :: jsval
  br_warnings :: "string list"

record GraphImportResult =
  ir_state :: GraphState
  ir_warnings :: "string list"

datatype graph_error =
    No_nodes
  | No_valid_nodes
  | Invalid_JSON
  | No_tasks
  | No_supported_tasks
  | Out_of_fuel

definition DEFAULT_PROMPT :: string where
  "DEFAULT_PROMPT = ''Draft a short plan for the goal.''"

definition DEFAULT_GRAPH_STATE :: GraphState where
  "DEFAULT_GRAPH_STATE =
     \<lparr>gs_nodes = [\<lparr>gn_id = ''A'', gn_kind = Llm, gn_x = Fin 60, gn_y = Fin 60,
                   gn_prompt = DEFAULT_PROMPT, gn_targets = None\<rparr>],
      gs_edges = []\<rparr>"

definition isNonEmptyObject :: "jsval \<Rightarrow> bool" where
  "isNonEmptyObject value = (isUnknownRecord value \<and> length (js_keys (safeObject value)) > 0)"

definition normalizeTargets :: "string list option \<Rightarrow> string list" where
  "normalizeTargets targets =
     (case targets of None \<Rightarrow> [] | Some ts \<Rightarrow> filter (\<lambda>t. t \<noteq> []) (map js_trim ts))"

section \<open>Unique identifiers\<close>

definition suffixed :: "string \<Rightarrow> nat \<Rightarrow> string" where
  "suffixed candidate i = candidate @ ''_'' @ nat_str i"

lemma suffixed_inject [simp]: "suffixed c i = suffixed c j \<longleftrightarrow> i = j"
  by (simp add: suffixed_def)

lemma finite_suffixes: "finite {j. i \<le> j \<and> suffixed c j \<in> set ids}"
proof (rule finite_subset)
  show "{j. i \<le> j \<and> suffixed c j \<in> set ids} \<subseteq> suffixed c -` set ids" by auto
  show "finite (suffixed c -` set ids)"
    by (rule finite_vimageI) (simp_all add: inj_def)
qed

text \<open>The \<^verbatim>\<open>while\<close> loop: it ends because only finitely many suffixes are taken.\<close>

function next_suffix :: "string list \<Rightarrow> string \<Rightarrow> nat \<Rightarrow> nat" where
  "next_suffix ids candidate i =
     (if suffixed candidate i \<in> set ids then next_suffix ids candidate (i + 1) else i)"
  by pat_completeness auto
termination
proof (relation "measure (\<lambda>(ids, c, i). card {j. i \<le> j \<and> suffixed c j \<in> set ids})")
  fix ids :: "string list" and c i
  assume a: "suffixed c i \<in> set ids"
  have "{j. i + 1 \<le> j \<and> suffixed c j \<in> set ids} \<subset> {j. i \<le> j \<and> suffixed c j \<in> set ids}"
    using a by (auto simp: psubset_eq) (metis (mono_tags) Suc_n_not_le_n le_refl mem_Collect_eq)
  then show "((ids, c, i + 1), (ids, c, i)) \<in> measure (\<lambda>(ids, c, i). card {j. i \<le> j \<and> suffixed c j \<in> set ids})"
    using finite_suffixes by (auto intro: psubset_card_mono)
qed simp

declare next_suffix.simps [simp del]

definition ensureUniqueId :: "string list \<Rightarrow> string \<Rightarrow> string" where
  "ensureUniqueId ids baseId =
     (let candidate = str_or (js_trim baseId) ''T'' in
      if candidate \<notin> set ids then candidate
      else suffixed candidate (next_suffix ids candidate 2))"

definition clampNumber :: "jsnum \<Rightarrow> rat \<Rightarrow> rat \<Rightarrow> jsnum" where
  "clampNumber value lo hi =
     (case value of
        Fin r \<Rightarrow> Fin (min (max r lo) hi)
      | PInf \<Rightarrow> Fin hi
      | NInf \<Rightarrow> Fin (min lo hi)
      | NaN \<Rightarrow> NaN)"

section \<open>Layout\<close>

text \<open>The dependency map: an empty list for every node, then one entry per valid edge.\<close>

definition push_dep :: "string list \<Rightarrow> (string \<rightharpoonup> string list) \<Rightarrow> GraphEdge \<Rightarrow> (string \<rightharpoonup> string list)" where
  "push_dep ids m e =
     (if ge_from e \<notin> set ids \<or> ge_to e \<notin> set ids then m
      else case m (ge_to e) of None \<Rightarrow> m | Some deps \<Rightarrow> m(ge_to e \<mapsto> deps @ [ge_from e]))"

definition layout_deps :: "GraphNode list \<Rightarrow> GraphEdge list \<Rightarrow> (string \<rightharpoonup> string list)" where
  "layout_deps nodes edges =
     foldl (push_dep (map gn_id nodes)) (foldl (\<lambda>m n. m(gn_id n \<mapsto> [])) Map.empty nodes) edges"

abbreviation deps_of :: "(string \<rightharpoonup> string list) \<Rightarrow> string \<Rightarrow> string list" where
  "deps_of m v \<equiv> opt_or (m v) []"

text \<open>Rows by level, in the insertion order of a \<^verbatim>\<open>Map\<close>; also used by the task timeline.\<close>

definition bucket_push :: "('n \<Rightarrow> int) \<Rightarrow> (int \<times> 'n list) list \<Rightarrow> 'n \<Rightarrow> (int \<times> 'n list) list" where
  "bucket_push lvl b n = AList.update (lvl n) (opt_or (map_of b (lvl n)) [] @ [n]) b"

definition buckets :: "('n \<Rightarrow> int) \<Rightarrow> 'n list \<Rightarrow> (int \<times> 'n list) list" where
  "buckets lvl ns = foldl (bucket_push lvl) [] ns"

definition place :: "int \<Rightarrow> nat \<times> GraphNode \<Rightarrow> GraphNode" where
  "place lvl p = (snd p)\<lparr>gn_x := Fin (40 + of_int lvl * 240), gn_y := Fin (40 + of_nat (fst p) * 140)\<rparr>"

definition layoutGraph :: "(string \<Rightarrow> string \<Rightarrow> bool) \<Rightarrow> GraphNode list \<Rightarrow> GraphEdge list \<Rightarrow> GraphNode list option" where
  "layoutGraph collate nodes edges =
     (let depsMap = layout_deps nodes edges in
      case graph_levels (Suc (length nodes)) (deps_of depsMap) (map gn_id nodes) of
        None \<Rightarrow> None
      | Some s \<Rightarrow>
          let bs = buckets (\<lambda>n. opt_or (levels s (gn_id n)) 0) nodes;
              orderedLevels = js_sort (key_asc of_int) (map fst bs)
          in Some (concat (map (\<lambda>lvl.
               let row = js_sort (\<lambda>a b. collate (gn_id a) (gn_id b)) (opt_or (map_of bs lvl) [])
               in map (place lvl) (enumerate 0 row)) orderedLevels)))"

definition withAutoLayout :: "(string \<Rightarrow> string \<Rightarrow> bool) \<Rightarrow> GraphState \<Rightarrow> GraphState option" where
  "withAutoLayout collate state =
     map_option (\<lambda>nodes. state\<lparr>gs_nodes := nodes\<rparr>) (layoutGraph collate (gs_nodes state) (gs_edges state))"

definition clamp_node :: "GraphNode \<Rightarrow> GraphNode" where
  "clamp_node node =
     node\<lparr>gn_id := js_trim (gn_id node),
          gn_kind := (if gn_kind node = Agent_parallel then Agent_parallel else Llm),
          gn_x := clampNumber (js_Number (js_or (JNum (gn_x node)) (JNum (Fin 0)))) (- 2000) 2000,
          gn_y := clampNumber (js_Number (js_or (JNum (gn_y node)) (JNum (Fin 0)))) (- 2000) 2000\<rparr>"

definition clampGraphState :: "GraphState \<Rightarrow> GraphState" where
  "clampGraphState state = \<lparr>gs_nodes = map clamp_node (gs_nodes state), gs_edges = gs_edges state\<rparr>"

section \<open>Building the workflow specification\<close>

definition target_entry :: "nat \<times> string \<Rightarrow> jsval" where
  "target_entry p = JObj [(''id'', JStr (''t'' @ nat_str (fst p + 1))), (''base_url'', JStr (snd p))]"

definition buildAgentParallelTask ::
  "GraphNode \<Rightarrow> GraphBuildOptions \<Rightarrow> string list \<Rightarrow> jsval jsobj \<times> string list" where
  "buildAgentParallelTask node options warnings =
     (let nodeTargets = normalizeTargets (gn_targets node);
          targets0 = (if nodeTargets \<noteq> [] then nodeTargets else normalizeTargets (Some (bo_targets options)));
          warnings' = (if targets0 = []
             then warnings @ [''Node '' @ gn_id node @ '': no targets configured; using placeholder base_url.'']
             else warnings);
          targets = (if targets0 = [] then [''http://127.0.0.1:8123''] else targets0);
          ids = map (\<lambda>i. ''t'' @ nat_str (i + 1)) [0..<length targets];
          nestedWorkflow =
            [(''tasks'', JArr [JObj [(''task_id'', JStr ''RUN''),
               (''request'', JObj [(''prompt'', JStr (str_or (gn_prompt node) DEFAULT_PROMPT)),
                                   (''no_session'', JBool True)])]])]
            @ (if isNonEmptyObject (JObj (bo_defaults options))
               then [(''defaults'', JObj (bo_defaults options))] else [])
            @ (if bo_allowInlineKeys options \<and> truthy (obj_get (bo_defaults options) ''api_key'')
               then [(''allow_inline_api_keys'', JBool True)] else [])
      in ([(''task_id'', JStr (gn_id node)),
           (''kind'', JStr ''agentd_parallel''),
           (''agentd_parallel'', JObj
             [(''targets'', JArr (map target_entry (enumerate 0 targets))),
              (''agentd_call'', JObj
                ([(''op'', JStr ''workflow_submit_and_wait''),
                  (''timeout_ms'', JNum (Fin 20000)),
                  (''poll_ms'', JNum (Fin 50)),
                  (''include_results'', JBool True),
                  (''include_tasks'', JBool False)]
                 @ (case bo_bearerEnv options of
                      Some b \<Rightarrow> if b \<noteq> [] then [(''bearer_env'', JStr b)] else []
                    | None \<Rightarrow> [])
                 @ [(''workflow'', JObj nestedWorkflow)])),
              (''aggregate'', JObj
                [(''mode'', JStr ''first_ok''),
                 (''task_ids'', JArr (map (\<lambda>i. JStr (gn_id node @ '':'' @ i)) ids)),
                 (''ok_pointer'', JStr ''/ok''),
                 (''value_pointer'', JStr ''/agentd/final/result/results_by_task/RUN/assistant_text'')])])],
          warnings'))"

text \<open>The loop that trims, skips and renames the nodes: warnings, identifiers, nodes so far.\<close>

record cleaning =
  cl_warnings :: "string list"
  cl_ids :: "string list"
  cl_nodes :: "GraphNode list"

definition clean_node :: "cleaning \<Rightarrow> GraphNode \<Rightarrow> cleaning" where
  "clean_node c node =
     (let nid = js_trim (gn_id node) in
      if nid = [] then c\<lparr>cl_warnings := cl_warnings c @ [''Found node with empty id; skipping.'']\<rparr>
      else
        let uniqueId = ensureUniqueId (cl_ids c) nid in
        \<lparr>cl_warnings = (if uniqueId \<noteq> nid
            then cl_warnings c @ [''Renamed duplicate node id '' @ [CHR 0x27] @ nid @ [CHR 0x27] @ '' to '' @ [CHR 0x27] @ uniqueId @ [CHR 0x27] @ ''.'']
            else cl_warnings c),
         cl_ids = cl_ids c @ [uniqueId],
         cl_nodes = cl_nodes c @ [node\<lparr>gn_id := uniqueId\<rparr>]\<rparr>)"

definition push_unique_dep :: "(string \<rightharpoonup> string list) \<Rightarrow> GraphEdge \<Rightarrow> (string \<rightharpoonup> string list)" where
  "push_unique_dep m e =
     (case m (ge_to e) of
        None \<Rightarrow> m
      | Some deps \<Rightarrow> if ge_from e \<in> set deps then m else m(ge_to e \<mapsto> deps @ [ge_from e]))"

definition build_deps :: "GraphNode list \<Rightarrow> GraphEdge list \<Rightarrow> (string \<rightharpoonup> string list)" where
  "build_deps nodes edges = foldl push_unique_dep (foldl (\<lambda>m n. m(gn_id n \<mapsto> [])) Map.empty nodes) edges"

abbreviation depends_on :: "string list \<Rightarrow> jsval jsobj" where
  "depends_on deps \<equiv> (if deps = [] then [] else [(''depends_on'', JArr (map JStr deps))])"

definition build_task ::
  "GraphBuildOptions \<Rightarrow> (string \<rightharpoonup> string list) \<Rightarrow> jsval list \<times> string list \<Rightarrow> GraphNode \<Rightarrow> jsval list \<times> string list" where
  "build_task options depsMap acc node =
     (let deps = deps_of depsMap (gn_id node) in
      if gn_kind node = Agent_parallel then
        (case buildAgentParallelTask node options (snd acc) of
           (task, warnings) \<Rightarrow> (fst acc @ [JObj (task @ depends_on deps)], warnings))
      else
        (fst acc @ [JObj ([(''task_id'', JStr (gn_id node))] @ depends_on deps @
           [(''request'', JObj [(''prompt'', JStr (str_or (gn_prompt node) DEFAULT_PROMPT)),
                                (''no_session'', JBool True)])])], snd acc))"

definition buildWorkflowFromGraph ::
  "(string \<Rightarrow> string \<Rightarrow> bool) \<Rightarrow> GraphState \<Rightarrow> GraphBuildOptions \<Rightarrow> graph_error + GraphBuildResult" where
  "buildWorkflowFromGraph collate state options =
     (if gs_nodes state = [] then Inl No_nodes
      else
        let c = foldl clean_node \<lparr>cl_warnings = [], cl_ids = [], cl_nodes = []\<rparr> (gs_nodes state) in
        if cl_nodes c = [] then Inl No_valid_nodes
        else
          let edges = filter (\<lambda>e. ge_from e \<in> set (cl_ids c) \<and> ge_to e \<in> set (cl_ids c) \<and> ge_from e \<noteq> ge_to e)
                        (gs_edges state);
              depsMap = build_deps (cl_nodes c) edges;
              (tasks, warnings) = foldl (build_task options depsMap) ([], cl_warnings c)
                (js_sort (\<lambda>a b. collate (gn_id a) (gn_id b)) (cl_nodes c));
              workflow = [(''tasks'', JArr tasks)]
                @ (if isNonEmptyObject (JObj (bo_defaults options)) then [(''defaults'', JObj (bo_defaults options))] else [])
                @ (if bo_allowInlineKeys options \<and> truthy (obj_get (bo_defaults options) ''api_key'')
                   then [(''allow_inline_api_keys'', JBool True)] else [])
          in Inr \<lparr>br_workflow = JObj workflow, br_warnings = warnings\<rparr>)"

section \<open>Importing a specification\<close>

definition record_of :: "jsval \<Rightarrow> jsval" where
  "record_of v = (if isUnknownRecord v then v else JNull)"

fun first_prompt :: "jsval list \<Rightarrow> string option" where
  "first_prompt [] = None"
| "first_prompt (t # ts) =
     (if \<not> isUnknownRecord t then first_prompt ts
      else case js_get (record_of (js_get t ''request'')) ''prompt'' of
             JStr prompt \<Rightarrow> if js_trim prompt \<noteq> [] then Some (js_trim prompt) else first_prompt ts
           | _ \<Rightarrow> first_prompt ts)"

definition parseAgentParallelPrompt :: "jsval \<Rightarrow> string option" where
  "parseAgentParallelPrompt task =
     (let agentdParallel = record_of (js_get task ''agentd_parallel'');
          agentdCall = record_of (js_get agentdParallel ''agentd_call'');
          wf = record_of (js_get agentdCall ''workflow'')
      in case js_get wf ''tasks'' of JArr ts \<Rightarrow> first_prompt ts | _ \<Rightarrow> None)"

text \<open>\<^verbatim>\<open>replace(/\/$/, "")\<close>: one slash at the end.\<close>

definition strip_slash :: "string \<Rightarrow> string" where
  "strip_slash s = (if s \<noteq> [] \<and> last s = CHR ''/'' then butlast s else s)"

definition parse_target :: "string list \<times> string list \<Rightarrow> jsval \<Rightarrow> string list \<times> string list" where
  "parse_target acc t =
     (let (out, warnings) = acc in
      if isUnknownRecord t \<and> is_JStr (js_get t ''base_url'') \<and> js_trim (text_of (js_get t ''base_url'')) \<noteq> []
      then (out @ [js_trim (text_of (js_get t ''base_url''))], warnings)
      else
        let broker = record_of (js_get t ''broker_proxy'');
            brokerBase = js_trim (text_of (js_get broker ''broker_base_url''));
            agentId = js_trim (text_of (js_get broker ''agent_id''))
        in if isUnknownRecord t \<and> isUnknownRecord broker \<and> brokerBase \<noteq> [] \<and> agentId \<noteq> []
           then (out @ [strip_slash brokerBase @ ''/v1/agents/'' @ agentId @ ''/proxy''],
                 warnings @ [''Converted broker_proxy target to base_url for '' @ agentId @ ''.''])
           else (out, warnings))"

definition parseAgentParallelTargets :: "jsval \<Rightarrow> string list \<Rightarrow> string list \<times> string list" where
  "parseAgentParallelTargets task warnings =
     (case js_get (record_of (js_get task ''agentd_parallel'')) ''targets'' of
        JArr targets \<Rightarrow> foldl parse_target ([], warnings) targets
      | _ \<Rightarrow> ([], warnings))"

record importing =
  im_nodes :: "GraphNode list"
  im_edges :: "GraphEdge list"
  im_warnings :: "string list"

definition import_task :: "importing \<Rightarrow> jsval \<Rightarrow> importing" where
  "import_task im task =
     (if \<not> isUnknownRecord task then im\<lparr>im_warnings := im_warnings im @ [''Skipped non-object task entry.'']\<rparr>
      else
        let taskId = js_trim (text_of (js_get task ''task_id'')) in
        if taskId = [] then im\<lparr>im_warnings := im_warnings im @ [''Skipped task with missing task_id.'']\<rparr>
        else
          let dependsOn = (case js_get task ''depends_on'' of
                JArr ds \<Rightarrow> filter (\<lambda>d. d \<noteq> []) (map (\<lambda>d. js_trim (text_of d)) ds) | _ \<Rightarrow> []);
              im1 = im\<lparr>im_edges := im_edges im @ map (\<lambda>d. \<lparr>ge_from = d, ge_to = taskId\<rparr>) dependsOn\<rparr>;
              prompt = (case js_get (record_of (js_get task ''request'')) ''prompt'' of JStr p \<Rightarrow> js_trim p | _ \<Rightarrow> [])
          in if prompt \<noteq> [] then
               im1\<lparr>im_nodes := im_nodes im1 @ [\<lparr>gn_id = taskId, gn_kind = Llm, gn_x = Fin 0, gn_y = Fin 0,
                                               gn_prompt = prompt, gn_targets = None\<rparr>]\<rparr>
             else if text_of (js_get task ''kind'') = ''agentd_parallel'' then
               (let remotePrompt = (case parseAgentParallelPrompt task of
                       None \<Rightarrow> DEFAULT_PROMPT | Some p \<Rightarrow> str_or p DEFAULT_PROMPT);
                    (targets, warnings) = parseAgentParallelTargets task (im_warnings im1)
                in im1\<lparr>im_nodes := im_nodes im1 @ [\<lparr>gn_id = taskId, gn_kind = Agent_parallel, gn_x = Fin 0, gn_y = Fin 0,
                                                 gn_prompt = remotePrompt, gn_targets = Some targets\<rparr>],
                       im_warnings := warnings\<rparr>)
             else
               im1\<lparr>im_warnings := im_warnings im1 @
                 [''Unsupported task '' @ [CHR 0x27] @ taskId @ [CHR 0x27] @ '' ignored (kind: '' @
                  str_or (text_of (js_get task ''kind'')) ''request'' @ '').'']\<rparr>)"

text \<open>The import after \<^verbatim>\<open>JSON.parse\<close>, and the whole function on the text.\<close>

definition import_workflow :: "(string \<Rightarrow> string \<Rightarrow> bool) \<Rightarrow> jsval \<Rightarrow> graph_error + GraphImportResult" where
  "import_workflow collate parsed =
     (let tasks = (case js_get (record_of parsed) ''tasks'' of JArr ts \<Rightarrow> ts | _ \<Rightarrow> []) in
      if tasks = [] then Inl No_tasks
      else
        let im = foldl import_task \<lparr>im_nodes = [], im_edges = [], im_warnings = []\<rparr> tasks in
        if im_nodes im = [] then Inl No_supported_tasks
        else case layoutGraph collate (im_nodes im) (im_edges im) of
               None \<Rightarrow> Inl Out_of_fuel
             | Some nodes \<Rightarrow>
                 Inr \<lparr>ir_state = \<lparr>gs_nodes = nodes, gs_edges = im_edges im\<rparr>, ir_warnings = im_warnings im\<rparr>)"

definition parseWorkflowToGraph :: "(string \<Rightarrow> string \<Rightarrow> bool) \<Rightarrow> string \<Rightarrow> graph_error + GraphImportResult" where
  "parseWorkflowToGraph collate jsonText =
     (case json_parse (str_or jsonText ''{}'') of
        None \<Rightarrow> Inl Invalid_JSON
      | Some parsed \<Rightarrow> import_workflow collate parsed)"

section \<open>The layout\<close>

lemma init_deps:
  "foldl (\<lambda>m n. m(gn_id n \<mapsto> [])) m nodes v = (if v \<in> gn_id ` set nodes then Some [] else m v)"
  by (induction nodes arbitrary: m) auto

lemma layout_deps_eq:
  "layout_deps nodes edges v =
     (if v \<in> gn_id ` set nodes
      then Some (map ge_from (filter (\<lambda>e. ge_from e \<in> gn_id ` set nodes \<and> ge_to e = v) edges))
      else None)"
proof (induction edges rule: rev_induct)
  case Nil
  then show ?case by (simp add: layout_deps_def init_deps)
next
  case (snoc e edges)
  then show ?case by (auto simp: layout_deps_def push_dep_def split: option.split)
qed

lemma layout_closed: "closed_deps (deps_of (layout_deps nodes edges)) (set (map gn_id nodes))"
  by (auto simp: closed_deps_def layout_deps_eq)

lemma map_of_buckets:
  "map_of (buckets lvl ns) l = (if l \<in> lvl ` set ns then Some (filter (\<lambda>n. lvl n = l) ns) else None)"
proof (induction ns arbitrary: l rule: rev_induct)
  case Nil
  then show ?case by (simp add: buckets_def)
next
  case (snoc n ns)
  have b: "buckets lvl (ns @ [n]) = bucket_push lvl (buckets lvl ns) n" by (simp add: buckets_def)
  have "filter (\<lambda>n'. lvl n' = lvl n) ns = []" if "lvl n \<notin> lvl ` set ns"
    using that by (metis (mono_tags, lifting) filter_False image_eqI)
  then show ?case
    unfolding b bucket_push_def by (auto simp: update_conv' snoc.IH)
qed

lemma keys_buckets: "distinct (map fst (buckets lvl ns))" "set (map fst (buckets lvl ns)) = lvl ` set ns"
proof -
  show "distinct (map fst (buckets lvl ns))"
    by (induction ns rule: rev_induct) (simp_all add: buckets_def bucket_push_def distinct_update)
  show "set (map fst (buckets lvl ns)) = lvl ` set ns"
  proof -
    have "k \<in> fst ` set (buckets lvl ns) \<longleftrightarrow> k \<in> lvl ` set ns" for k
      using map_of_buckets [of lvl ns k] by (metis map_of_eq_None_iff option.distinct(1))
    then show ?thesis by auto
  qed
qed

text \<open>Rows by level, in ascending order, hold every element once.\<close>

lemma mset_rows_aux:
  "distinct L \<Longrightarrow> mset (concat (map (\<lambda>l. filter (\<lambda>n. lvl n = l) ns) L)) = filter_mset (\<lambda>n. lvl n \<in> set L) (mset ns)"
proof (induction L)
  case (Cons l L)
  have "filter_mset (\<lambda>n. lvl n \<in> set (l # L)) (mset ns) =
    filter_mset (\<lambda>n. lvl n = l) (mset ns) + filter_mset (\<lambda>n. lvl n \<in> set L) (mset ns)"
    using Cons.prems by (induction ns) auto
  with Cons show ?case by simp
qed simp

lemma mset_rows:
  assumes "distinct L" "lvl ` set ns \<subseteq> set L"
  shows "mset (concat (map (\<lambda>l. filter (\<lambda>n. lvl n = l) ns) L)) = mset ns"
proof -
  have "filter_mset (\<lambda>n. lvl n \<in> set L) (mset ns) = mset ns"
    using assms(2) by (auto simp: filter_mset_eq_conv)
  then show ?thesis by (simp only: mset_rows_aux [OF assms(1)])
qed

text \<open>The level the search gives a node, and the layout written over it.\<close>

definition node_level :: "GraphNode list \<Rightarrow> GraphEdge list \<Rightarrow> string \<Rightarrow> int" where
  "node_level nodes edges v =
     (case graph_levels (Suc (length nodes)) (deps_of (layout_deps nodes edges)) (map gn_id nodes) of
        None \<Rightarrow> 0 | Some s \<Rightarrow> opt_or (levels s v) 0)"

definition layout_row :: "(string \<Rightarrow> string \<Rightarrow> bool) \<Rightarrow> GraphNode list \<Rightarrow> GraphEdge list \<Rightarrow> int \<Rightarrow> GraphNode list" where
  "layout_row collate nodes edges l =
     js_sort (\<lambda>a b. collate (gn_id a) (gn_id b)) (filter (\<lambda>n. node_level nodes edges (gn_id n) = l) nodes)"

lemma graph_levels_some:
  obtains s where "graph_levels (Suc (length nodes)) (deps_of (layout_deps nodes edges)) (map gn_id nodes) = Some s"
    "levels_result (deps_of (layout_deps nodes edges)) (gn_id ` set nodes) (levels s)"
proof -
  have "card (set (map gn_id nodes)) < Suc (length nodes)"
    using card_length [of "map gn_id nodes"] by simp
  from graph_levels_result [OF layout_closed this] that show ?thesis by (metis list.set_map)
qed

lemma layoutGraph_eq:
  "\<exists>L. distinct L \<and> set L = (\<lambda>n. node_level nodes edges (gn_id n)) ` set nodes \<and>
     layoutGraph collate nodes edges =
       Some (concat (map (\<lambda>l. map (place l) (enumerate 0 (layout_row collate nodes edges l))) L))"
proof -
  let ?lvl = "\<lambda>n. node_level nodes edges (gn_id n)"
  obtain s where s: "graph_levels (Suc (length nodes)) (deps_of (layout_deps nodes edges)) (map gn_id nodes) = Some s"
    by (rule graph_levels_some)
  then have lvl: "(\<lambda>n. opt_or (levels s (gn_id n)) 0) = ?lvl" by (simp add: node_level_def)
  let ?L = "js_sort (key_asc of_int) (map fst (buckets ?lvl nodes))"
  have L: "distinct ?L" "set ?L = ?lvl ` set nodes" using keys_buckets [of ?lvl nodes] by simp_all
  have "opt_or (map_of (buckets ?lvl nodes) l) [] = filter (\<lambda>n. ?lvl n = l) nodes" if "l \<in> set ?L" for l
    using that L(2) by (simp add: map_of_buckets)
  then have "layoutGraph collate nodes edges =
      Some (concat (map (\<lambda>l. map (place l) (enumerate 0 (layout_row collate nodes edges l))) ?L))"
    unfolding layoutGraph_def Let_def s option.case lvl layout_row_def
    by (intro arg_cong [where f = Some] arg_cong [where f = concat] map_cong) auto
  with L show ?thesis by blast
qed

lemma layoutGraph_total: "\<exists>out. layoutGraph collate nodes edges = Some out"
  using layoutGraph_eq by blast

text \<open>A node without its position.\<close>

definition unplaced :: "GraphNode \<Rightarrow> GraphNode" where
  "unplaced n = n\<lparr>gn_x := Fin 0, gn_y := Fin 0\<rparr>"

definition same_place :: "GraphNode \<Rightarrow> GraphNode \<Rightarrow> bool" where
  "same_place a b = (gn_x a = gn_x b \<and> gn_y a = gn_y b)"

lemma unplaced_place [simp]: "unplaced (place l p) = unplaced (snd p)"
  and gn_id_place [simp]: "gn_id (place l p) = gn_id (snd p)"
  by (simp_all add: unplaced_def place_def)

lemma map_unplaced_row: "map unplaced (map (place l) (enumerate k row)) = map unplaced row"
  by (induction row arbitrary: k) simp_all

lemma snd_enumerate: "p \<in> set (enumerate k xs) \<Longrightarrow> snd p \<in> set xs"
  by (metis image_eqI list.set_map map_snd_enumerate)

lemma layout_row_level:
  "p \<in> set (enumerate k (layout_row collate nodes edges l)) \<Longrightarrow>
     snd p \<in> set nodes \<and> node_level nodes edges (gn_id (snd p)) = l"
  by (drule snd_enumerate) (simp add: layout_row_def)

lemma layout_mset:
  assumes "layoutGraph collate nodes edges = Some out"
  shows "mset (map unplaced out) = mset (map unplaced nodes)"
proof -
  let ?lvl = "\<lambda>n. node_level nodes edges (gn_id n)"
  obtain L where L: "distinct L" "set L = ?lvl ` set nodes"
      "out = concat (map (\<lambda>l. map (place l) (enumerate 0 (layout_row collate nodes edges l))) L)"
    using layoutGraph_eq [of nodes edges collate] assms by auto
  have "mset (map unplaced out) = mset (map unplaced (concat (map (layout_row collate nodes edges) L)))"
    unfolding L(3) map_concat map_map comp_def map_unplaced_row [unfolded map_map comp_def] ..
  also have "\<dots> = image_mset unplaced (mset (concat (map (\<lambda>l. filter (\<lambda>n. ?lvl n = l) nodes) L)))"
    by (simp add: layout_row_def mset_concat comp_def)
  also have "\<dots> = mset (map unplaced nodes)"
    using mset_rows [OF L(1), of ?lvl nodes] L(2) by simp
  finally show ?thesis .
qed

lemma layout_x:
  assumes "layoutGraph collate nodes edges = Some out" "n \<in> set out"
  shows "gn_x n = Fin (40 + of_int (node_level nodes edges (gn_id n)) * 240) \<and> gn_id n \<in> gn_id ` set nodes"
proof -
  obtain L where "out = concat (map (\<lambda>l. map (place l) (enumerate 0 (layout_row collate nodes edges l))) L)"
    using layoutGraph_eq [of nodes edges collate] assms by auto
  with assms(2) obtain l p where p: "p \<in> set (enumerate 0 (layout_row collate nodes edges l))" "n = place l p"
    by auto
  from layout_row_level [OF p(1)] show ?thesis unfolding p(2) by (auto simp: place_def)
qed

lemma layout_distinct_places:
  assumes "layoutGraph collate nodes edges = Some out"
  shows "distinct (map (\<lambda>n. (gn_x n, gn_y n)) out)"
proof -
  let ?row = "\<lambda>l. map (place l) (enumerate 0 (layout_row collate nodes edges l))"
  let ?pos = "\<lambda>n. (gn_x n, gn_y n)"
  obtain L where L: "distinct L" "out = concat (map ?row L)"
    using layoutGraph_eq [of nodes edges collate] assms by auto
  have d: "distinct (map ?pos (?row l))" for l
    by (auto simp: distinct_map place_def inj_on_def in_set_enumerate_eq comp_def prod_eq_iff)
  have x: "fst p = Fin (40 + of_int l * 240)" if "p \<in> set (map ?pos (?row l))" for p l
    using that by (auto simp: place_def)
  have "distinct (concat (map (\<lambda>l. map ?pos (?row l)) L))"
    using L(1)
  proof (induction L)
    case (Cons l L)
    have "set (map ?pos (?row l)) \<inter> set (concat (map (\<lambda>l. map ?pos (?row l)) L)) = {}"
    proof (rule ccontr)
      assume "\<not> ?thesis"
      then obtain p k where p: "p \<in> set (map ?pos (?row l))" and k: "k \<in> set L" "p \<in> set (map ?pos (?row k))"
        by auto
      then have "l = k" using x [OF p] x [OF k(2)] by simp
      with k(1) have "l \<in> set L" by simp
      with Cons.prems show False by simp
    qed
    moreover have "distinct (concat (map (\<lambda>l. map ?pos (?row l)) L))" using Cons by simp
    ultimately show ?case
      using d [of l] by (simp only: list.map concat.simps distinct_append simp_thms)
  qed simp
  then show ?thesis unfolding L(2) by (simp add: map_concat comp_def)
qed

lemma edge_levels:
  assumes "\<not> cyclic (deps_of (layout_deps nodes edges))" "e \<in> set edges"
    and "ge_from e \<in> gn_id ` set nodes" "ge_to e \<in> gn_id ` set nodes"
  shows "node_level nodes edges (ge_from e) < node_level nodes edges (ge_to e)"
proof -
  obtain s where s: "graph_levels (Suc (length nodes)) (deps_of (layout_deps nodes edges)) (map gn_id nodes) = Some s"
    and r: "levels_result (deps_of (layout_deps nodes edges)) (gn_id ` set nodes) (levels s)"
    by (rule graph_levels_some)
  obtain l where l: "levels s (ge_to e) = Some l" using r assms(4) by (auto simp: levels_result_def)
  then have "level_ok (deps_of (layout_deps nodes edges)) (levels s) (ge_to e) l"
    using r assms(1) by (simp add: levels_result_def)
  moreover have "ge_from e \<in> set (deps_of (layout_deps nodes edges) (ge_to e))"
    using assms by (auto simp: layout_deps_eq)
  ultimately obtain k where "levels s (ge_from e) = Some k" "k < l" by (auto simp: level_ok_def)
  with l s show ?thesis by (simp add: node_level_def)
qed

text \<open>
  C16. The layout always succeeds, only moves nodes (each keeps its identity, kind, prompt and
  targets, and none is lost or doubled), never puts two nodes on the same place, and draws
  every edge of an acyclic graph from left to right, at least one column apart.
\<close>

theorem layoutGraph_layered:
  "\<exists>out. layoutGraph collate nodes edges = Some out \<and>
    mset (map unplaced out) = mset (map unplaced nodes) \<and>
    distinct (map (\<lambda>n. (gn_x n, gn_y n)) out) \<and>
    (\<not> cyclic (deps_of (layout_deps nodes edges)) \<longrightarrow>
      (\<forall>e\<in>set edges. \<forall>a\<in>set out. \<forall>b\<in>set out. gn_id a = ge_from e \<and> gn_id b = ge_to e \<longrightarrow>
        (\<exists>xa xb. gn_x a = Fin xa \<and> gn_x b = Fin xb \<and> xa + 240 \<le> xb)))"
proof -
  obtain out where out: "layoutGraph collate nodes edges = Some out" using layoutGraph_total by blast
  have "\<exists>xa xb. gn_x a = Fin xa \<and> gn_x b = Fin xb \<and> xa + 240 \<le> xb"
    if c: "\<not> cyclic (deps_of (layout_deps nodes edges))" and e: "e \<in> set edges"
      and ab: "a \<in> set out" "b \<in> set out" "gn_id a = ge_from e" "gn_id b = ge_to e" for e a b
  proof -
    note xa = layout_x [OF out ab(1)] and xb = layout_x [OF out ab(2)]
    have "node_level nodes edges (gn_id a) + 1 \<le> node_level nodes edges (gn_id b)"
      using edge_levels [OF c e] xa xb ab by auto
    then have "(of_int (node_level nodes edges (gn_id a)) :: rat) + 1 \<le> of_int (node_level nodes edges (gn_id b))"
      by (metis of_int_1 of_int_add of_int_le_iff)
    with xa xb show ?thesis by simp
  qed
  with out layout_mset [OF out] layout_distinct_places [OF out] show ?thesis by blast
qed

section \<open>The specification the editor submits\<close>

lemma next_suffix_first:
  "suffixed c (next_suffix ids c i) \<notin> set ids \<and> i \<le> next_suffix ids c i \<and>
   (\<forall>j. i \<le> j \<and> j < next_suffix ids c i \<longrightarrow> suffixed c j \<in> set ids)"
proof (induction ids c i rule: next_suffix.induct)
  case (1 ids c i)
  show ?case
  proof (cases "suffixed c i \<in> set ids")
    case True
    then have n: "next_suffix ids c i = next_suffix ids c (i + 1)" by (simp add: next_suffix.simps [of ids c i])
    have "suffixed c j \<in> set ids" if "i \<le> j" "j < next_suffix ids c (i + 1)" for j
      using 1 [OF True] True that by (cases "j = i") auto
    then show ?thesis unfolding n using 1 [OF True] by simp
  next
    case False
    then show ?thesis by (auto simp: next_suffix.simps [of ids c i])
  qed
qed

lemma ensureUniqueId_fresh: "ensureUniqueId ids b \<notin> set ids"
  using next_suffix_first by (simp add: ensureUniqueId_def Let_def)

lemma ensureUniqueId_ne: "ensureUniqueId ids b \<noteq> []"
  by (simp add: ensureUniqueId_def Let_def str_or_def suffixed_def)

lemma ensureUniqueId_same: "js_trim b \<noteq> [] \<Longrightarrow> js_trim b \<notin> set ids \<Longrightarrow> ensureUniqueId ids b = js_trim b"
  by (simp add: ensureUniqueId_def str_or_def)

definition cleaning_ok :: "cleaning \<Rightarrow> bool" where
  "cleaning_ok c = (cl_ids c = map gn_id (cl_nodes c) \<and> distinct (cl_ids c) \<and> [] \<notin> set (cl_ids c))"

lemma cleaning_ok_step: "cleaning_ok c \<Longrightarrow> cleaning_ok (clean_node c n)"
  using ensureUniqueId_fresh [of "cl_ids c" "js_trim (gn_id n)"] ensureUniqueId_ne [of "cl_ids c" "js_trim (gn_id n)"]
  by (auto simp add: cleaning_ok_def clean_node_def Let_def simp del: set_map)

lemma cleaning_ok_fold: "cleaning_ok c \<Longrightarrow> cleaning_ok (foldl clean_node c ns)"
  by (induction ns arbitrary: c) (simp_all add: cleaning_ok_step)

lemma cleaning_length:
  "length (cl_nodes (foldl clean_node c ns)) =
     length (cl_nodes c) + length (filter (\<lambda>n. js_trim (gn_id n) \<noteq> []) ns)"
  by (induction ns arbitrary: c) (simp_all add: clean_node_def Let_def)

abbreviation cleaned :: "GraphNode list \<Rightarrow> cleaning" where
  "cleaned ns \<equiv> foldl clean_node \<lparr>cl_warnings = [], cl_ids = [], cl_nodes = []\<rparr> ns"

lemma cleaned_ok: "cleaning_ok (cleaned ns)"
  by (rule cleaning_ok_fold) (simp add: cleaning_ok_def)

text \<open>Appending only what is not there yet.\<close>

definition push_new :: "'a list \<Rightarrow> 'a \<Rightarrow> 'a list" where
  "push_new ds x = (if x \<in> set ds then ds else ds @ [x])"

lemma set_push_news: "set (foldl push_new ds xs) = set ds \<union> set xs"
  by (induction xs arbitrary: ds) (auto simp: push_new_def)

lemma distinct_push_news: "distinct ds \<Longrightarrow> distinct (foldl push_new ds xs)"
  by (induction xs arbitrary: ds) (auto simp: push_new_def)

lemma push_news_id: "distinct (ds @ xs) \<Longrightarrow> foldl push_new ds xs = ds @ xs"
  by (induction xs arbitrary: ds) (auto simp: push_new_def)

lemma build_deps_eq:
  "build_deps nodes edges v =
     (if v \<in> gn_id ` set nodes
      then Some (foldl push_new [] (map ge_from (filter (\<lambda>e. ge_to e = v) edges))) else None)"
proof (induction edges rule: rev_induct)
  case Nil
  then show ?case by (simp add: build_deps_def init_deps)
next
  case (snoc e edges)
  have "build_deps nodes (edges @ [e]) = push_unique_dep (build_deps nodes edges) e"
    by (simp add: build_deps_def)
  with snoc show ?case
    by (auto simp: push_unique_dep_def push_new_def build_deps_def split: option.split)
qed

definition node_task :: "GraphBuildOptions \<Rightarrow> (string \<rightharpoonup> string list) \<Rightarrow> GraphNode \<Rightarrow> jsval" where
  "node_task options depsMap node = hd (fst (build_task options depsMap ([], []) node))"

lemma fst_build_task: "fst (build_task options depsMap acc node) = fst acc @ [node_task options depsMap node]"
  by (simp add: node_task_def build_task_def buildAgentParallelTask_def Let_def)

lemma fst_build_tasks:
  "fst (foldl (build_task options depsMap) acc ns) = fst acc @ map (node_task options depsMap) ns"
  by (induction ns arbitrary: acc) (simp_all add: fst_build_task)

text \<open>What a reader of the specification sees of a task.\<close>

definition task_id_of :: "jsval \<Rightarrow> string" where
  "task_id_of t = text_of (js_get t ''task_id'')"

definition depends_of :: "jsval \<Rightarrow> string list" where
  "depends_of t = (case js_get t ''depends_on'' of JArr ds \<Rightarrow> map text_of ds | _ \<Rightarrow> [])"

definition tasks_of :: "jsval \<Rightarrow> jsval list" where
  "tasks_of w = (case js_get w ''tasks'' of JArr ts \<Rightarrow> ts | _ \<Rightarrow> [])"

lemma node_task_view [simp]:
  "task_id_of (node_task options m n) = gn_id n"
  "depends_of (node_task options m n) = deps_of m (gn_id n)"
  by (simp_all add: node_task_def build_task_def buildAgentParallelTask_def Let_def
      task_id_of_def depends_of_def comp_def)

definition valid_edges :: "string list \<Rightarrow> GraphEdge list \<Rightarrow> GraphEdge list" where
  "valid_edges ids edges = filter (\<lambda>e. ge_from e \<in> set ids \<and> ge_to e \<in> set ids \<and> ge_from e \<noteq> ge_to e) edges"

lemma buildWorkflowFromGraph_Inr:
  assumes "cl_nodes (cleaned (gs_nodes g)) \<noteq> []"
  defines "c \<equiv> cleaned (gs_nodes g)"
  obtains r where "buildWorkflowFromGraph collate g options = Inr r"
    "tasks_of (br_workflow r) = map (node_task options (build_deps (cl_nodes c) (valid_edges (cl_ids c) (gs_edges g))))
       (js_sort (\<lambda>a b. collate (gn_id a) (gn_id b)) (cl_nodes c))"
proof -
  have "gs_nodes g \<noteq> []" using assms(1) by auto
  with assms(1) that show ?thesis
    unfolding buildWorkflowFromGraph_def c_def
    by (auto simp: Let_def case_prod_beta fst_build_tasks tasks_of_def valid_edges_def)
qed

text \<open>Every dependency names another task of the same specification, once.\<close>

definition valid_tasks :: "jsval list \<Rightarrow> bool" where
  "valid_tasks ts =
     (distinct (map task_id_of ts) \<and>
      (\<forall>t\<in>set ts. task_id_of t \<noteq> [] \<and> distinct (depends_of t) \<and> task_id_of t \<notin> set (depends_of t) \<and>
         set (depends_of t) \<subseteq> set (map task_id_of ts)))"

lemma valid_tasks_build:
  assumes "cleaning_ok c"
  shows "valid_tasks (map (node_task options (build_deps (cl_nodes c) (valid_edges (cl_ids c) edges)))
    (js_sort le (cl_nodes c)))" (is "valid_tasks (map ?t ?ns)")
proof -
  have ids: "map task_id_of (map ?t ?ns) = map gn_id ?ns" by (simp add: comp_def)
  have "mset (map gn_id ?ns) = mset (cl_ids c)" using assms by (simp add: cleaning_ok_def)
  then have d: "distinct (map gn_id ?ns)" and s: "set (map gn_id ?ns) = set (cl_ids c)"
    using assms unfolding cleaning_ok_def by (metis mset_eq_imp_distinct_iff, metis set_mset_mset)
  have deps: "set (depends_of (?t n)) = ge_from ` {e \<in> set (valid_edges (cl_ids c) edges). ge_to e = gn_id n}"
    and dd: "distinct (depends_of (?t n))" if "n \<in> set (cl_nodes c)" for n
    using that by (simp_all add: build_deps_eq set_push_news distinct_push_news)
  show ?thesis
    unfolding valid_tasks_def ids s
  proof (intro conjI ballI)
    fix t assume "t \<in> set (map ?t ?ns)"
    then obtain n where n: "t = ?t n" "n \<in> set (cl_nodes c)" by auto
    show "task_id_of t \<noteq> []" using n assms unfolding cleaning_ok_def by (metis image_eqI list.set_map node_task_view(1))
    show "distinct (depends_of t)" unfolding n(1) by (rule dd [OF n(2)])
    show "task_id_of t \<notin> set (depends_of t)"
      unfolding n(1) deps [OF n(2)] by (auto simp: valid_edges_def)
    show "set (depends_of t) \<subseteq> set (cl_ids c)"
      unfolding n(1) deps [OF n(2)] by (auto simp: valid_edges_def)
  qed (rule d)
qed

text \<open>
  C11. Building the specification fails exactly when no node has an identifier. Otherwise it
  has one task per node that has one, under pairwise different identifiers whatever the
  duplicates in the graph, and every dependency names another task of the specification,
  never the task itself and never twice.
\<close>

theorem buildWorkflowFromGraph_valid:
  "case buildWorkflowFromGraph collate g options of
     Inl err \<Rightarrow> (\<forall>n\<in>set (gs_nodes g). js_trim (gn_id n) = []) \<and> (err = No_nodes \<longleftrightarrow> gs_nodes g = [])
   | Inr r \<Rightarrow> valid_tasks (tasks_of (br_workflow r)) \<and>
       length (tasks_of (br_workflow r)) = length (filter (\<lambda>n. js_trim (gn_id n) \<noteq> []) (gs_nodes g)) \<and>
       tasks_of (br_workflow r) \<noteq> []"
proof (cases "cl_nodes (cleaned (gs_nodes g)) = []")
  case True
  then have "filter (\<lambda>n. js_trim (gn_id n) \<noteq> []) (gs_nodes g) = []"
    using cleaning_length [of "\<lparr>cl_warnings = [], cl_ids = [], cl_nodes = []\<rparr>" "gs_nodes g"] by simp
  with True show ?thesis
    by (auto simp: buildWorkflowFromGraph_def Let_def filter_empty_conv)
next
  case False
  obtain r where r: "buildWorkflowFromGraph collate g options = Inr r"
    "tasks_of (br_workflow r) = map (node_task options (build_deps (cl_nodes (cleaned (gs_nodes g)))
        (valid_edges (cl_ids (cleaned (gs_nodes g))) (gs_edges g))))
       (js_sort (\<lambda>a b. collate (gn_id a) (gn_id b)) (cl_nodes (cleaned (gs_nodes g))))"
    using buildWorkflowFromGraph_Inr [OF False] by blast
  then have "valid_tasks (tasks_of (br_workflow r))" by (simp only: valid_tasks_build [OF cleaned_ok])
  moreover have "length (tasks_of (br_workflow r)) = length (cl_nodes (cleaned (gs_nodes g)))"
    by (simp add: r(2))
  moreover have "tasks_of (br_workflow r) \<noteq> []" using False by (metis calculation(2) length_0_conv)
  ultimately show ?thesis using r(1) by (simp add: cleaning_length)
qed

section \<open>Export and import\<close>

text \<open>A graph the editor holds after clean-up, and what an import shows of it.\<close>

definition clean_graph :: "GraphState \<Rightarrow> bool" where
  "clean_graph g =
     (gs_nodes g \<noteq> [] \<and> distinct (map gn_id (gs_nodes g)) \<and>
      (\<forall>n\<in>set (gs_nodes g). trimmed (gn_id n) \<and> gn_id n \<noteq> [] \<and> trimmed (gn_prompt n) \<and> gn_prompt n \<noteq> []) \<and>
      distinct (gs_edges g) \<and>
      (\<forall>e\<in>set (gs_edges g). ge_from e \<in> gn_id ` set (gs_nodes g) \<and> ge_to e \<in> gn_id ` set (gs_nodes g) \<and> ge_from e \<noteq> ge_to e))"

definition used_targets :: "GraphBuildOptions \<Rightarrow> GraphNode \<Rightarrow> string list" where
  "used_targets options n =
     (let own = normalizeTargets (gn_targets n); ts = (if own \<noteq> [] then own else normalizeTargets (Some (bo_targets options)))
      in if ts = [] then [''http://127.0.0.1:8123''] else ts)"

definition imported_node :: "GraphBuildOptions \<Rightarrow> GraphNode \<Rightarrow> GraphNode" where
  "imported_node options n =
     \<lparr>gn_id = gn_id n, gn_kind = gn_kind n, gn_x = Fin 0, gn_y = Fin 0, gn_prompt = gn_prompt n,
      gn_targets = (if gn_kind n = Agent_parallel then Some (used_targets options n) else None)\<rparr>"

lemma normalizeTargets_trimmed: "t \<in> set (normalizeTargets ts) \<Longrightarrow> trimmed t \<and> t \<noteq> []"
  by (auto simp: normalizeTargets_def split: option.splits)

lemma used_targets_trimmed: "t \<in> set (used_targets options n) \<Longrightarrow> trimmed t \<and> t \<noteq> []"
  by (auto simp: used_targets_def Let_def trimmed_def is_ws_def dest: normalizeTargets_trimmed split: if_splits)

lemma parse_targets_entries:
  "(\<And>t. t \<in> set ts \<Longrightarrow> trimmed t \<and> t \<noteq> []) \<Longrightarrow>
   foldl parse_target (out, w) (map target_entry (enumerate k ts)) = (out @ ts, w)"
  by (induction ts arbitrary: out k) (simp_all add: parse_target_def target_entry_def js_trim_id)

lemma import_node_task:
  assumes "trimmed (gn_id n)" "gn_id n \<noteq> []" "trimmed (gn_prompt n)" "gn_prompt n \<noteq> []"
    and deps: "\<And>d. d \<in> set (deps_of m (gn_id n)) \<Longrightarrow> trimmed d \<and> d \<noteq> []"
  shows "import_task im (node_task options m n) =
    im\<lparr>im_nodes := im_nodes im @ [imported_node options n],
       im_edges := im_edges im @ map (\<lambda>d. \<lparr>ge_from = d, ge_to = gn_id n\<rparr>) (deps_of m (gn_id n))\<rparr>"
proof -
  have ds: "filter (\<lambda>d. d \<noteq> []) (map (\<lambda>d. js_trim (text_of d)) (map JStr (deps_of m (gn_id n)))) = deps_of m (gn_id n)"
  proof -
    have "map (\<lambda>d. js_trim (text_of d)) (map JStr (deps_of m (gn_id n))) = deps_of m (gn_id n)"
      using deps by (auto simp: comp_def js_trim_id intro: map_idI)
    then show ?thesis using deps by (simp add: filter_id_conv)
  qed
  have ts: "foldl parse_target ([], w) (map target_entry (enumerate 0 (used_targets options n))) = (used_targets options n, w)" for w
    using parse_targets_entries [of "used_targets options n" "[]" w 0] used_targets_trimmed by simp
  show ?thesis
  proof (cases "gn_kind n")
    case Llm
    then show ?thesis using assms ds
      by (auto simp: import_task_def node_task_def build_task_def imported_node_def record_of_def
          js_trim_id str_or_def Let_def)
  next
    case Agent_parallel
    have tg: "(if (if normalizeTargets (gn_targets n) \<noteq> [] then normalizeTargets (gn_targets n)
          else normalizeTargets (Some (bo_targets options))) = [] then [''http://127.0.0.1:8123'']
        else (if normalizeTargets (gn_targets n) \<noteq> [] then normalizeTargets (gn_targets n)
          else normalizeTargets (Some (bo_targets options)))) = used_targets options n"
      by (simp add: used_targets_def Let_def)
    have task: "node_task options m n = JObj (fst (buildAgentParallelTask n options []) @ depends_on (deps_of m (gn_id n)))"
      using Agent_parallel by (simp add: node_task_def build_task_def case_prod_beta)
    have p: "parseAgentParallelPrompt (node_task options m n) = Some (gn_prompt n)"
      using assms unfolding task buildAgentParallelTask_def parseAgentParallelPrompt_def
      by (cases "bo_bearerEnv options") (simp_all add: Let_def record_of_def js_trim_id str_or_def)
    have t: "parseAgentParallelTargets (node_task options m n) w = (used_targets options n, w)" for w
      unfolding task buildAgentParallelTask_def parseAgentParallelTargets_def Let_def tg
      by (simp add: record_of_def ts)
    have r: "isUnknownRecord (node_task options m n)"
      "js_get (node_task options m n) ''task_id'' = JStr (gn_id n)"
      "js_get (node_task options m n) ''kind'' = JStr ''agentd_parallel''"
      "js_get (node_task options m n) ''request'' = JUndef"
      "js_get (node_task options m n) ''depends_on'' =
         (if deps_of m (gn_id n) = [] then JUndef else JArr (map JStr (deps_of m (gn_id n))))"
      unfolding task buildAgentParallelTask_def by (simp_all add: Let_def)
    show ?thesis
      using assms Agent_parallel ds unfolding import_task_def Let_def
      by (simp add: r p t js_trim_id record_of_def imported_node_def str_or_def del: isUnknownRecord_iff)
  qed
qed

lemma cleaned_clean:
  assumes "\<And>n. n \<in> set ns \<Longrightarrow> trimmed (gn_id n) \<and> gn_id n \<noteq> []" "distinct (cl_ids c @ map gn_id ns)"
  shows "foldl clean_node c ns = c\<lparr>cl_ids := cl_ids c @ map gn_id ns, cl_nodes := cl_nodes c @ ns\<rparr>"
  using assms
proof (induction ns arbitrary: c)
  case (Cons n ns)
  have "clean_node c n = c\<lparr>cl_ids := cl_ids c @ [gn_id n], cl_nodes := cl_nodes c @ [n]\<rparr>"
    using Cons.prems by (simp add: clean_node_def Let_def js_trim_id ensureUniqueId_same)
  with Cons show ?case by simp
qed simp

lemma import_node_tasks:
  assumes "\<And>n. n \<in> set ns \<Longrightarrow> trimmed (gn_id n) \<and> gn_id n \<noteq> [] \<and> trimmed (gn_prompt n) \<and> gn_prompt n \<noteq> []"
    and "\<And>n d. n \<in> set ns \<Longrightarrow> d \<in> set (deps_of m (gn_id n)) \<Longrightarrow> trimmed d \<and> d \<noteq> []"
  shows "foldl import_task im (map (node_task options m) ns) =
    im\<lparr>im_nodes := im_nodes im @ map (imported_node options) ns,
       im_edges := im_edges im @ concat (map (\<lambda>n. map (\<lambda>d. \<lparr>ge_from = d, ge_to = gn_id n\<rparr>) (deps_of m (gn_id n))) ns)\<rparr>"
  using assms
proof (induction ns arbitrary: im)
  case (Cons n ns)
  have "import_task im (node_task options m n) =
    im\<lparr>im_nodes := im_nodes im @ [imported_node options n],
       im_edges := im_edges im @ map (\<lambda>d. \<lparr>ge_from = d, ge_to = gn_id n\<rparr>) (deps_of m (gn_id n))\<rparr>"
    by (rule import_node_task) (use Cons.prems in auto)
  moreover have "foldl import_task im' (map (node_task options m) ns) =
    im'\<lparr>im_nodes := im_nodes im' @ map (imported_node options) ns,
       im_edges := im_edges im' @ concat (map (\<lambda>n. map (\<lambda>d. \<lparr>ge_from = d, ge_to = gn_id n\<rparr>) (deps_of m (gn_id n))) ns)\<rparr>" for im'
    by (rule Cons.IH) (use Cons.prems in auto)
  ultimately show ?case by simp
qed simp

text \<open>
  C15. Exporting a cleaned-up graph and importing the specification again gives the same
  graph up to the positions of the nodes: the same nodes with their prompts and the targets
  the export used, and the same edges.
\<close>

theorem export_import:
  assumes "clean_graph g"
  shows "\<exists>r im. buildWorkflowFromGraph collate g options = Inr r \<and>
    import_workflow collate' (br_workflow r) = Inr im \<and>
    mset (map unplaced (gs_nodes (ir_state im))) = mset (map (imported_node options) (gs_nodes g)) \<and>
    set (gs_edges (ir_state im)) = set (gs_edges g) \<and> ir_warnings im = []"
proof -
  let ?ns = "gs_nodes g" and ?ids = "map gn_id (gs_nodes g)"
  have nodes: "\<And>n. n \<in> set ?ns \<Longrightarrow> trimmed (gn_id n) \<and> gn_id n \<noteq> [] \<and> trimmed (gn_prompt n) \<and> gn_prompt n \<noteq> []"
    and d: "distinct ?ids" and ne: "?ns \<noteq> []" using assms by (auto simp: clean_graph_def)
  have c: "cl_nodes (cleaned ?ns) = ?ns" "cl_ids (cleaned ?ns) = ?ids"
    using cleaned_clean [of ?ns "\<lparr>cl_warnings = [], cl_ids = [], cl_nodes = []\<rparr>"] nodes d by simp_all
  have ve: "valid_edges ?ids (gs_edges g) = gs_edges g"
    using assms by (auto simp: valid_edges_def clean_graph_def filter_id_conv)
  define m where "m = build_deps ?ns (gs_edges g)"
  define ss where "ss = js_sort (\<lambda>a b. collate (gn_id a) (gn_id b)) ?ns"
  have ss: "set ss = set ?ns" "mset ss = mset ?ns" by (simp_all add: ss_def)
  then have sne: "ss \<noteq> []" using ne by auto
  have "cl_nodes (cleaned ?ns) \<noteq> []" using ne c by simp
  from buildWorkflowFromGraph_Inr [OF this, of collate options] obtain r where
    r: "buildWorkflowFromGraph collate g options = Inr r"
      "tasks_of (br_workflow r) = map (node_task options m) ss"
    unfolding c ve m_def ss_def by blast
  have deps: "set (deps_of m (gn_id n)) = ge_from ` {e \<in> set (gs_edges g). ge_to e = gn_id n}" if "n \<in> set ?ns" for n
    using that by (simp add: m_def build_deps_eq set_push_news)
  have "trimmed x \<and> x \<noteq> []" if "n \<in> set ss" "x \<in> set (deps_of m (gn_id n))" for n x
  proof -
    have "x \<in> gn_id ` set ?ns"
      using that assms deps [of n] ss(1) by (auto simp: clean_graph_def)
    then show ?thesis using nodes by auto
  qed
  with nodes ss(1) have im: "foldl import_task \<lparr>im_nodes = [], im_edges = [], im_warnings = []\<rparr> (map (node_task options m) ss) =
    \<lparr>im_nodes = map (imported_node options) ss,
     im_edges = concat (map (\<lambda>n. map (\<lambda>d. \<lparr>ge_from = d, ge_to = gn_id n\<rparr>) (deps_of m (gn_id n))) ss),
     im_warnings = []\<rparr>" (is "_ = \<lparr>im_nodes = ?nodes, im_edges = ?edges, im_warnings = []\<rparr>")
    by (subst import_node_tasks) auto
  have edges: "set ?edges = set (gs_edges g)"
  proof -
    have eta: "\<lparr>ge_from = ge_from e, ge_to = ge_to e\<rparr> = e" for e by simp
    have row: "(\<lambda>d. \<lparr>ge_from = d, ge_to = gn_id n\<rparr>) ` set (deps_of m (gn_id n)) = {e \<in> set (gs_edges g). ge_to e = gn_id n}"
      if n: "n \<in> set ?ns" for n
    proof (intro equalityI subsetI)
      fix e assume "e \<in> (\<lambda>d. \<lparr>ge_from = d, ge_to = gn_id n\<rparr>) ` set (deps_of m (gn_id n))"
      then obtain f where "f \<in> set (gs_edges g)" "ge_to f = gn_id n" "e = \<lparr>ge_from = ge_from f, ge_to = gn_id n\<rparr>"
        unfolding deps [OF n] by blast
      then have "e = f" "f \<in> set (gs_edges g)" "ge_to f = gn_id n" using eta [of f] by metis+
      then show "e \<in> {e \<in> set (gs_edges g). ge_to e = gn_id n}" by simp
    next
      fix e assume "e \<in> {e \<in> set (gs_edges g). ge_to e = gn_id n}"
      then show "e \<in> (\<lambda>d. \<lparr>ge_from = d, ge_to = gn_id n\<rparr>) ` set (deps_of m (gn_id n))"
        unfolding deps [OF n] by (intro image_eqI [where x = "ge_from e"]) auto
    qed
    have "set ?edges = (\<Union>n\<in>set ?ns. {e \<in> set (gs_edges g). ge_to e = gn_id n})"
      using row ss(1) by simp
    also have "\<dots> = set (gs_edges g)" using assms by (fastforce simp: clean_graph_def)
    finally show ?thesis .
  qed
  obtain out where out: "layoutGraph collate' ?nodes ?edges = Some out" using layoutGraph_total by blast
  have "isUnknownRecord (br_workflow r)"
    using r sne by (cases "br_workflow r") (auto simp: tasks_of_def array_index_def js_digit_def)
  then have "import_workflow collate' (br_workflow r) =
      Inr \<lparr>ir_state = \<lparr>gs_nodes = out, gs_edges = ?edges\<rparr>, ir_warnings = []\<rparr>"
    using r(2) im out sne unfolding import_workflow_def tasks_of_def [symmetric]
    by (simp add: record_of_def tasks_of_def [symmetric] del: isUnknownRecord_iff)
  moreover have "mset (map unplaced out) = mset (map (imported_node options) ?ns)"
  proof -
    have "unplaced (imported_node options n) = imported_node options n" for n
      by (simp add: unplaced_def imported_node_def)
    then have "mset (map unplaced out) = mset (map (imported_node options) ss)"
      using layout_mset [OF out] by (simp only: map_map comp_def)
    then show ?thesis using ss(2) by (simp only: mset_map)
  qed
  ultimately show ?thesis using r(1) edges by auto
qed

definition sample_graph :: GraphState where
  "sample_graph =
     \<lparr>gs_nodes = [\<lparr>gn_id = ''B'', gn_kind = Agent_parallel, gn_x = Fin 0, gn_y = Fin 0, gn_prompt = ''ask'', gn_targets = None\<rparr>,
                  \<lparr>gn_id = ''A'', gn_kind = Llm, gn_x = Fin 0, gn_y = Fin 0, gn_prompt = ''plan'', gn_targets = None\<rparr>],
      gs_edges = [\<lparr>ge_from = ''A'', ge_to = ''B''\<rparr>]\<rparr>"

definition sample_options :: GraphBuildOptions where
  "sample_options = \<lparr>bo_defaults = [], bo_allowInlineKeys = False, bo_targets = [''http://h''], bo_bearerEnv = None\<rparr>"

theorem export_import_witness:
  "\<exists>r im. buildWorkflowFromGraph code_unit_le sample_graph sample_options = Inr r \<and>
    import_workflow code_unit_le (br_workflow r) = Inr im \<and>
    set (gs_edges (ir_state im)) = {\<lparr>ge_from = ''A'', ge_to = ''B''\<rparr>} \<and> ir_warnings im = []"
proof -
  have "clean_graph sample_graph"
    by (simp add: clean_graph_def sample_graph_def trimmed_def is_ws_def)
  from export_import [OF this, of code_unit_le sample_options code_unit_le] show ?thesis
    by (auto simp: sample_graph_def)
qed

theorem layoutGraph_layered_witness:
  "\<exists>out. layoutGraph code_unit_le (gs_nodes sample_graph) (gs_edges sample_graph) = Some out \<and>
     map gn_id out = [''A'', ''B''] \<and> length (map unplaced out) = 2"
proof -
  from layoutGraph_layered [of code_unit_le "gs_nodes sample_graph" "gs_edges sample_graph"]
  obtain out where o: "layoutGraph code_unit_le (gs_nodes sample_graph) (gs_edges sample_graph) = Some out"
    "mset (map unplaced out) = mset (map unplaced (gs_nodes sample_graph))" by blast
  have "map_option (map gn_id) (layoutGraph code_unit_le (gs_nodes sample_graph) (gs_edges sample_graph)) = Some [''A'', ''B'']"
    by code_simp
  with o show ?thesis by (auto simp: sample_graph_def dest: mset_eq_length)
qed

theorem buildWorkflowFromGraph_valid_witness:
  "\<exists>r. buildWorkflowFromGraph code_unit_le sample_graph sample_options = Inr r \<and>
     valid_tasks (tasks_of (br_workflow r)) \<and> length (tasks_of (br_workflow r)) = 2"
proof -
  have n: "gs_nodes sample_graph \<noteq> []" "length (filter (\<lambda>n. js_trim (gn_id n) \<noteq> []) (gs_nodes sample_graph)) = 2"
    "\<not> (\<forall>n\<in>set (gs_nodes sample_graph). js_trim (gn_id n) = [])"
    by (simp_all add: sample_graph_def js_trim_eval)
  from buildWorkflowFromGraph_valid [where g = sample_graph and collate = code_unit_le and options = sample_options] n show ?thesis
    by (auto split: sum.splits)
qed

section \<open>Restoring a saved graph\<close>

lemma clampNumber_bounds:
  "v \<noteq> NaN \<Longrightarrow> lo \<le> hi \<Longrightarrow> \<exists>r. clampNumber v lo hi = Fin r \<and> lo \<le> r \<and> r \<le> hi"
  by (cases v) (auto simp: clampNumber_def)

lemma clamp_coord:
  "\<exists>r. clampNumber (js_Number (js_or (JNum x) (JNum (Fin 0)))) (- 2000) 2000 = Fin r \<and> - 2000 \<le> r \<and> r \<le> 2000"
  by (rule clampNumber_bounds) (auto simp: js_Number_def js_or_def)

text \<open>
  C28. A graph restored from storage has every node on the canvas, whatever numbers
  were saved (infinities and not-a-number included), and restoring it again changes nothing.
\<close>

theorem clampGraphState_bounded:
  "(\<forall>n\<in>set (gs_nodes (clampGraphState g)).
      (\<exists>x y. gn_x n = Fin x \<and> gn_y n = Fin y \<and> \<bar>x\<bar> \<le> 2000 \<and> \<bar>y\<bar> \<le> 2000) \<and> trimmed (gn_id n)) \<and>
   clampGraphState (clampGraphState g) = clampGraphState g \<and>
   length (gs_nodes (clampGraphState g)) = length (gs_nodes g)"
proof -
  have c: "\<exists>x y. gn_x (clamp_node n) = Fin x \<and> gn_y (clamp_node n) = Fin y \<and> \<bar>x\<bar> \<le> 2000 \<and> \<bar>y\<bar> \<le> 2000" for n
    using clamp_coord [of "gn_x n"] clamp_coord [of "gn_y n"] by (auto simp: clamp_node_def abs_le_iff)
  have "clamp_node (clamp_node n) = clamp_node n" for n
    using c [of n] unfolding clamp_node_def [of "clamp_node n"]
    by (auto simp: clamp_node_def js_Number_def js_or_def clampNumber_def abs_le_iff)
  with c show ?thesis by (auto simp: clampGraphState_def) (simp add: clamp_node_def)
qed

theorem clampGraphState_bounded_witness:
  "\<exists>n x. gs_nodes (clampGraphState \<lparr>gs_nodes = [\<lparr>gn_id = '' A'', gn_kind = Llm, gn_x = PInf, gn_y = NaN,
      gn_prompt = [], gn_targets = None\<rparr>], gs_edges = []\<rparr>) = [n] \<and> gn_x n = Fin x \<and> \<bar>x\<bar> \<le> 2000"
proof -
  let ?g = "\<lparr>gs_nodes = [\<lparr>gn_id = '' A'', gn_kind = Llm, gn_x = PInf, gn_y = NaN,
      gn_prompt = [], gn_targets = None\<rparr>], gs_edges = []\<rparr>"
  have "length (gs_nodes (clampGraphState ?g)) = 1" by (simp add: clampGraphState_def)
  then obtain n where n: "gs_nodes (clampGraphState ?g) = [n]" by (auto simp: length_Suc_conv)
  with clampGraphState_bounded [of ?g] show ?thesis by auto
qed

end
