(* ===== verification/Workflow_Panel.thy ===== *)
theory Workflow_Panel
  imports Workflow_Graph
begin

text \<open>
  \<^verbatim>\<open>src/ui/src/components/workflow/workflowPanelUtils.ts\<close> with the row types of
  \<^verbatim>\<open>src/ui/src/workflowTypes.ts\<close>: the rows the workflow panel reads from the daemon, the
  task timeline, and the validation of a schedule before it is submitted. A response is an
  unknown value; \<^verbatim>\<open>toLocaleString\<close> is the parameter \<open>show_date\<close>.
\<close>

section \<open>Rows\<close>

definition workflow_summary_fields :: schema where
  "workflow_summary_fields =
     [(''status'', TStr), (''priority'', TNum), (''deadline_unix_ms'', TNum), (''idempotency_key'', TStr),
      (''trace_id'', TStr), (''session_id'', TStr), (''cancel_requested'', TBool), (''error'', TStr),
      (''created_unix_ms'', TNum), (''updated_unix_ms'', TNum)]"

definition schedule_fields :: schema where
  "schedule_fields =
     [(''status'', TStr), (''cron'', TStr), (''timezone'', TStr), (''created_unix_ms'', TNum),
      (''updated_unix_ms'', TNum), (''last_tick_unix_ms'', TNum), (''next_tick_unix_ms'', TNum),
      (''last_error'', TStr), (''metadata'', TRec)]"

definition schedule_run_fields :: schema where
  "schedule_run_fields =
     [(''tick_unix_ms'', TNum), (''created_unix_ms'', TNum), (''status'', TStr), (''error'', TStr)]"

definition normalizeWorkflowSummary :: "jsval \<Rightarrow> jsval jsobj option" where
  "normalizeWorkflowSummary raw = typed_row [''workflow_id''] workflow_summary_fields raw"

definition normalizeSchedule :: "jsval \<Rightarrow> jsval jsobj option" where
  "normalizeSchedule raw = typed_row [''schedule_id''] schedule_fields raw"

definition normalizeScheduleRun :: "jsval \<Rightarrow> jsval jsobj option" where
  "normalizeScheduleRun raw = typed_row [''schedule_id'', ''workflow_id''] schedule_run_fields raw"

definition normalizeBudgetSnapshot :: "jsval \<Rightarrow> jsval jsobj option" where
  "normalizeBudgetSnapshot raw = as_obj raw"

record WorkflowTask =
  wt_task_id :: string
  wt_status :: "string option"
  wt_depends_on :: "string list"
  wt_allow_error :: "bool option"
  wt_attempt :: "jsnum option"
  wt_max_attempts :: "jsnum option"
  wt_error :: "string option"
  wt_ready_unix_ms :: "jsnum option"
  wt_started_unix_ms :: "jsnum option"
  wt_finished_unix_ms :: "jsnum option"

definition toStringArray :: "jsval \<Rightarrow> string list" where
  "toStringArray value = (case value of JArr xs \<Rightarrow> List.map_filter as_str xs | _ \<Rightarrow> [])"

definition normalizeTask :: "jsval \<Rightarrow> WorkflowTask option" where
  "normalizeTask raw =
     (if \<not> isUnknownRecord raw then None
      else
        let taskId = opt_or (as_str (js_get raw ''task_id'')) [] in
        if taskId = [] then None
        else Some \<lparr>wt_task_id = taskId,
          wt_status = as_str (js_get raw ''status''),
          wt_depends_on = toStringArray (js_get raw ''depends_on''),
          wt_allow_error = as_bool (js_get raw ''allow_error''),
          wt_attempt = as_num (js_get raw ''attempt''),
          wt_max_attempts = as_num (js_get raw ''max_attempts''),
          wt_error = as_str (js_get raw ''error''),
          wt_ready_unix_ms = as_num (js_get raw ''ready_unix_ms''),
          wt_started_unix_ms = as_num (js_get raw ''started_unix_ms''),
          wt_finished_unix_ms = as_num (js_get raw ''finished_unix_ms'')\<rparr>)"

text \<open>\<^verbatim>\<open>extract..\<close>: the rows of a response that are usable, in order.\<close>

definition rows_of :: "jsval \<Rightarrow> string \<Rightarrow> jsval list" where
  "rows_of resp k = (case js_get resp k of JArr xs \<Rightarrow> xs | _ \<Rightarrow> [])"

definition extractWorkflows :: "jsval \<Rightarrow> jsval jsobj list" where
  "extractWorkflows resp =
     (if \<not> truthy resp \<or> \<not> truthy (js_get resp ''ok'') then []
      else List.map_filter normalizeWorkflowSummary (rows_of resp ''workflows''))"

definition extractTasks :: "jsval \<Rightarrow> WorkflowTask list" where
  "extractTasks resp =
     (if \<not> truthy resp then [] else List.map_filter normalizeTask (rows_of resp ''tasks''))"

definition extractWorkflowSummary :: "jsval \<Rightarrow> jsval jsobj option" where
  "extractWorkflowSummary resp = normalizeWorkflowSummary (js_get resp ''workflow'')"

definition extractSchedules :: "jsval \<Rightarrow> jsval jsobj list" where
  "extractSchedules resp =
     (if \<not> truthy resp then [] else List.map_filter normalizeSchedule (rows_of resp ''schedules''))"

definition extractScheduleRuns :: "jsval \<Rightarrow> jsval jsobj list" where
  "extractScheduleRuns resp =
     (if \<not> truthy resp then [] else List.map_filter normalizeScheduleRun (rows_of resp ''runs''))"

definition extractWorkflowLimits :: "jsval \<Rightarrow> jsval jsobj option" where
  "extractWorkflowLimits resp = normalizeBudgetSnapshot (js_get resp ''workflow_limits'')"

definition extractWorkflowUsage :: "jsval \<Rightarrow> jsval jsobj option" where
  "extractWorkflowUsage resp = normalizeBudgetSnapshot (js_get resp ''workflow_usage'')"

definition extractWorkflowRemaining :: "jsval \<Rightarrow> jsval jsobj option" where
  "extractWorkflowRemaining resp = normalizeBudgetSnapshot (js_get resp ''workflow_remaining'')"

section \<open>Badges\<close>

definition formatUnixMs :: "(jsnum \<Rightarrow> string option) \<Rightarrow> jsnum option \<Rightarrow> string" where
  "formatUnixMs show_date ms =
     (case ms of
        None \<Rightarrow> [dash]
      | Some n \<Rightarrow> if \<not> truthy (JNum n) \<or> \<not> is_finite n then [dash]
                  else (case show_date n of Some t \<Rightarrow> t | None \<Rightarrow> num_str n))"

definition statusBadge :: "string option \<Rightarrow> string" where
  "statusBadge status =
     (let s = js_lower (opt_or status []) in
      if s = ''done'' then ''bg-emerald-500/15 text-emerald-200 border-emerald-500/30''
      else if s = ''running'' then ''bg-sky-500/15 text-sky-200 border-sky-500/30''
      else if s = ''queued'' then ''bg-amber-500/15 text-amber-200 border-amber-500/30''
      else if s = ''error'' then ''bg-rose-500/15 text-rose-200 border-rose-500/30''
      else if s = ''cancelled'' then ''bg-slate-500/20 text-slate-200 border-slate-500/30''
      else ''bg-white/10 text-white/70 border-white/10'')"

definition canCancelStatus :: "string option \<Rightarrow> bool" where
  "canCancelStatus status =
     (let s = js_lower (opt_or status []) in s = ''running'' \<or> s = ''queued'')"

definition status_key :: "WorkflowTask \<Rightarrow> string" where
  "status_key task = js_lower (str_or (opt_or (wt_status task) []) ''unknown'')"

definition countByStatus :: "WorkflowTask list \<Rightarrow> nat jsobj" where
  "countByStatus tasks =
     foldl (\<lambda>counts task. obj_put counts (status_key task) (opt_or (map_of counts (status_key task)) 0 + 1)) [] tasks"

section \<open>The task timeline\<close>

record timeline =
  tl_levels :: "WorkflowTask list list"
  tl_hasCycle :: bool
  tl_missingDeps :: "string list"

text \<open>The loop over the tasks: dependency map and missing dependencies (a \<^verbatim>\<open>Set\<close>).\<close>

definition task_deps_step ::
  "string list \<Rightarrow> (string \<rightharpoonup> string list) \<times> string list \<Rightarrow> WorkflowTask \<Rightarrow> (string \<rightharpoonup> string list) \<times> string list" where
  "task_deps_step ids acc task =
     (let deps = filter (\<lambda>d. d \<in> set ids) (wt_depends_on task);
          missing = foldl (\<lambda>ms d. if d \<notin> set ids then push_new ms d else ms) (snd acc) (wt_depends_on task)
      in ((fst acc)(wt_task_id task \<mapsto> deps), missing))"

definition buildLevels :: "(string \<Rightarrow> string \<Rightarrow> bool) \<Rightarrow> WorkflowTask list \<Rightarrow> timeline option" where
  "buildLevels collate tasks =
     (let ids = map wt_task_id tasks;
          (depsMap, missing) = foldl (task_deps_step ids) (Map.empty, []) tasks
      in case task_levels (Suc (length tasks)) (deps_of depsMap) ids of
           None \<Rightarrow> None
         | Some s \<Rightarrow>
             let bs = buckets (\<lambda>t. opt_or (levels s (wt_task_id t)) 0) tasks;
                 maxLevel = foldl max 0 (map fst bs);
                 orderedLevels = map (\<lambda>i. js_sort (\<lambda>a b. collate (wt_task_id a) (wt_task_id b)) (opt_or (map_of bs i) []))
                   [0..maxLevel]
             in Some \<lparr>tl_levels = orderedLevels, tl_hasCycle = hasCycle s,
                      tl_missingDeps = js_sort code_unit_le missing\<rparr>)"

section \<open>Validation of schedules\<close>

definition step_atom :: "string \<Rightarrow> string option" where
  "step_atom token =
     (if js_starts_with token ''*/'' \<and> drop 2 token \<noteq> [] \<and> list_all js_digit (drop 2 token)
      then Some (drop 2 token) else None)"

definition range_atom :: "string \<Rightarrow> (string \<times> string) option" where
  "range_atom token =
     (let a = takeWhile js_digit token; r = dropWhile js_digit token in
      if a \<noteq> [] \<and> r \<noteq> [] \<and> hd r = CHR ''-'' \<and> tl r \<noteq> [] \<and> list_all js_digit (tl r)
      then Some (a, tl r) else None)"

definition parseAtom :: "string \<Rightarrow> nat \<Rightarrow> nat \<Rightarrow> string \<Rightarrow> string option" where
  "parseAtom token lo hi label =
     (if token = ''*'' then None
      else case step_atom token of
        Some ds \<Rightarrow>
          let step = js_Number_str ds in
          if \<not> is_finite step \<or> num_le step (Fin 0) then Some (label @ '' step must be > 0'') else None
      | None \<Rightarrow>
        case range_atom token of
          Some (a, b) \<Rightarrow>
            let start = js_Number_str a; end = js_Number_str b in
            if \<not> is_finite start \<or> \<not> is_finite end then Some (label @ '' range must be numeric'')
            else if num_lt end start then Some (label @ '' range start must be <= end'')
            else if num_lt start (Fin (of_nat lo)) \<or> num_lt (Fin (of_nat hi)) end
            then Some (label @ '' range must be within '' @ nat_str lo @ ''-'' @ nat_str hi)
            else None
        | None \<Rightarrow>
            let single = js_Number_str token in
            if \<not> is_finite single then Some (label @ '' entry '' @ [CHR 0x22] @ token @ [CHR 0x22] @ '' is invalid'')
            else if num_lt single (Fin (of_nat lo)) \<or> num_lt (Fin (of_nat hi)) single
            then Some (label @ '' entry must be within '' @ nat_str lo @ ''-'' @ nat_str hi)
            else None)"

definition cron_ranges :: "(nat \<times> nat \<times> string) list" where
  "cron_ranges = [(0, 59, ''minute''), (0, 23, ''hour''), (1, 31, ''day of month''), (1, 12, ''month''), (0, 7, ''weekday'')]"

definition field_issues :: "string \<Rightarrow> nat \<times> nat \<times> string \<Rightarrow> string list" where
  "field_issues part rng =
     (case rng of (lo, hi, label) \<Rightarrow> List.map_filter (\<lambda>token. parseAtom token lo hi label) (js_split CHR '','' part))"

definition validateCronExpr :: "string \<Rightarrow> string list" where
  "validateCronExpr expr =
     (let trimmed = js_trim expr in
      if trimmed = [] then [''cron is required'']
      else
        let parts = js_split_run is_ws trimmed in
        if length parts \<noteq> 5 then [''cron must have 5 fields (min hour day month weekday)'']
        else concat (map (\<lambda>(part, rng). field_issues part rng) (zip parts cron_ranges)))"

definition task_issues :: "nat \<times> jsval \<Rightarrow> string list" where
  "task_issues p =
     (let (idx, task) = p; pos = ''task['' @ nat_str idx @ '']'' in
      if \<not> isUnknownRecord task then [pos @ '' must be an object'']
      else
        (if \<not> truthy (js_get task ''task_id'') \<or> \<not> is_JStr (js_get task ''task_id'')
         then [pos @ ''.task_id is required''] else [])
        @ (if js_get task ''depends_on'' \<noteq> JUndef \<and> \<not> is_JArr (js_get task ''depends_on'')
           then [pos @ ''.depends_on must be an array when provided''] else [])
        @ (let hasRequest = isUnknownRecord (js_get task ''request'');
               hasKind = (case js_get task ''kind'' of JStr k \<Rightarrow> js_trim k \<noteq> [] | _ \<Rightarrow> False)
           in if \<not> hasRequest \<and> \<not> hasKind then [pos @ '' must define request or kind''] else []))"

definition validateScheduleSpec :: "jsval \<Rightarrow> string list" where
  "validateScheduleSpec spec =
     (if \<not> isUnknownRecord spec then [''spec must be a JSON object'']
      else
        (case js_get spec ''tasks'' of
           JArr ts \<Rightarrow> if ts = [] then [''spec.tasks must be a non-empty array'']
                       else concat (map task_issues (enumerate 0 ts))
         | _ \<Rightarrow> [''spec.tasks must be a non-empty array''])
        @ (if js_get spec ''defaults'' \<noteq> JUndef \<and> \<not> isUnknownRecord (js_get spec ''defaults'')
           then [''spec.defaults must be an object when provided''] else []))"

definition coerceScheduleSpec :: "jsval \<Rightarrow> jsval option" where
  "coerceScheduleSpec spec = (if validateScheduleSpec spec = [] then Some spec else None)"

section \<open>Rows are typed\<close>

interpretation summary_row: row_normalizer "[''workflow_id'']" workflow_summary_fields normalizeWorkflowSummary
  by unfold_locales (simp_all add: normalizeWorkflowSummary_def workflow_summary_fields_def)

interpretation schedule_row: row_normalizer "[''schedule_id'']" schedule_fields normalizeSchedule
  by unfold_locales (simp_all add: normalizeSchedule_def schedule_fields_def)

interpretation schedule_run_row: row_normalizer "[''schedule_id'', ''workflow_id'']" schedule_run_fields normalizeScheduleRun
  by unfold_locales (simp_all add: normalizeScheduleRun_def schedule_run_fields_def)

lemma set_map_filter_row: "row \<in> set (List.map_filter f xs) \<longleftrightarrow> (\<exists>x\<in>set xs. f x = Some row)"
  by (induction xs) (auto simp: map_filter_simps split: option.splits)

text \<open>
  Whatever JSON the daemon answers, every row the panel lists carries a trimmed, non-blank
  workflow identifier and, in each declared optional field, a value of the declared type or
  nothing; normalising a row again gives the same row.
\<close>

lemma extractWorkflows_typed:
  assumes "row \<in> set (extractWorkflows resp)"
  shows "(\<exists>s. obj_get row ''workflow_id'' = JStr s \<and> trimmed s \<and> s \<noteq> []) \<and>
    fields_ok workflow_summary_fields row \<and> normalizeWorkflowSummary (JObj row) = Some row"
proof -
  from assms obtain raw where r: "normalizeWorkflowSummary raw = Some row"
    by (auto simp: extractWorkflows_def set_map_filter_row split: if_splits)
  show ?thesis
    using summary_row.norm_ids [OF r] summary_row.norm_fields [OF r] summary_row.norm_idem [OF r] by simp
qed

section \<open>Counting\<close>

lemma map_of_countByStatus:
  "opt_or (map_of (countByStatus tasks) s) 0 = length (filter (\<lambda>t. status_key t = s) tasks) \<and>
   (map_of (countByStatus tasks) s = None \<longleftrightarrow> s \<notin> status_key ` set tasks) \<and> wf_obj (countByStatus tasks)"
  unfolding countByStatus_def
  by (induction tasks arbitrary: s rule: rev_induct) (auto simp: update_conv' distinct_update)

lemma sum_counts:
  assumes "wf_obj m" "\<And>s. opt_or (map_of m s) 0 = length (filter (\<lambda>t. f t = s) ts)"
    "\<And>s. map_of m s = None \<longleftrightarrow> s \<notin> f ` set ts"
  shows "sum_list (map snd m) = length ts"
proof -
  have k: "fst ` set m = f ` set ts" using assms(3) by (auto simp: map_of_eq_None_iff)
  have "snd e = length (filter (\<lambda>t. f t = fst e) ts)" if "e \<in> set m" for e
    using that assms(2) [of "fst e"] map_of_is_SomeI [OF assms(1), of "fst e" "snd e"] by simp
  then have "sum_list (map snd m) = sum_list (map (\<lambda>e. length (filter (\<lambda>t. f t = fst e) ts)) m)"
    by (metis (mono_tags, lifting) map_eq_conv)
  also have "\<dots> = sum_list (map (\<lambda>s. length (filter (\<lambda>t. f t = s) ts)) (map fst m))" by (simp add: comp_def)
  also have "\<dots> = length (concat (map (\<lambda>s. filter (\<lambda>t. f t = s) ts) (map fst m)))" by (simp add: length_concat comp_def)
  also have "mset (concat (map (\<lambda>s. filter (\<lambda>t. f t = s) ts) (map fst m))) = mset ts"
    by (rule mset_rows [OF assms(1)]) (simp add: k)
  then have "length (concat (map (\<lambda>s. filter (\<lambda>t. f t = s) ts) (map fst m))) = length ts"
    by (rule mset_eq_length)
  finally show ?thesis .
qed

section \<open>The timeline is a layering\<close>

lemma task_deps_fold:
  "foldl (task_deps_step ids) (m, ms) tasks =
     (foldl (\<lambda>m t. m(wt_task_id t \<mapsto> filter (\<lambda>d. d \<in> set ids) (wt_depends_on t))) m tasks,
      foldl push_new ms (filter (\<lambda>d. d \<notin> set ids) (concat (map wt_depends_on tasks))))"
proof (induction tasks arbitrary: m ms)
  case (Cons t ts)
  have "foldl (\<lambda>ms d. if d \<notin> set ids then push_new ms d else ms) ms ds = foldl push_new ms (filter (\<lambda>d. d \<notin> set ids) ds)" for ds
    by (induction ds arbitrary: ms) auto
  with Cons show ?case by (simp add: task_deps_step_def Let_def)
qed simp

definition timeline_deps :: "WorkflowTask list \<Rightarrow> string \<Rightarrow> string list" where
  "timeline_deps tasks =
     deps_of (fst (foldl (task_deps_step (map wt_task_id tasks)) (Map.empty, []) tasks))"

lemma timeline_deps_dom:
  "foldl (\<lambda>m t. m(wt_task_id t \<mapsto> filter P (wt_depends_on t))) m ts v =
     (if v \<in> wt_task_id ` set ts
      then Some (filter P (wt_depends_on (last (filter (\<lambda>t. wt_task_id t = v) ts)))) else m v)"
proof (induction ts arbitrary: m rule: rev_induct)
  case (snoc t ts)
  then show ?case by auto
qed simp

lemma timeline_deps_eq:
  "timeline_deps tasks v =
     (if v \<in> wt_task_id ` set tasks
      then filter (\<lambda>d. d \<in> wt_task_id ` set tasks) (wt_depends_on (last (filter (\<lambda>t. wt_task_id t = v) tasks))) else [])"
  by (simp add: timeline_deps_def task_deps_fold timeline_deps_dom)

lemma timeline_closed: "closed_deps (timeline_deps tasks) (set (map wt_task_id tasks))"
  by (auto simp: closed_deps_def timeline_deps_eq)

lemma foldl_max_int: "foldl max (a :: int) xs = Max (insert a (set xs))"
proof (induction xs arbitrary: a)
  case (Cons x xs)
  have "foldl max (max a x) xs = Max (insert (max a x) (set xs))" by (rule Cons)
  also have "\<dots> = Max (insert a (insert x (set xs)))"
    by (cases "set xs = {}") (simp_all add: max.assoc)
  finally show ?case by simp
qed simp

lemma buildLevels_eq:
  obtains s where
    "task_levels (Suc (length tasks)) (timeline_deps tasks) (map wt_task_id tasks) = Some s"
    "levels_result (timeline_deps tasks) (wt_task_id ` set tasks) (levels s)"
    "hasCycle s \<longleftrightarrow> cyclic (timeline_deps tasks)"
proof -
  have "card (set (map wt_task_id tasks)) < Suc (length tasks)"
    using card_length [of "map wt_task_id tasks"] by simp
  from task_levels_result [OF timeline_closed this] that show ?thesis by (metis list.set_map)
qed

text \<open>The timeline written over the levels of the tasks.\<close>

definition task_row :: "(string \<Rightarrow> string \<Rightarrow> bool) \<Rightarrow> (string \<Rightarrow> int) \<Rightarrow> WorkflowTask list \<Rightarrow> int \<Rightarrow> WorkflowTask list" where
  "task_row collate lvl tasks i =
     js_sort (\<lambda>a b. collate (wt_task_id a) (wt_task_id b)) (filter (\<lambda>t. lvl (wt_task_id t) = i) tasks)"

lemma buildLevels_rows:
  assumes "task_levels (Suc (length tasks)) (timeline_deps tasks) (map wt_task_id tasks) = Some s"
    and lvl: "lvl = (\<lambda>v. opt_or (levels s v) 0)"
  shows "\<exists>r. buildLevels collate tasks = Some r \<and> tl_hasCycle r = hasCycle s \<and>
    tl_missingDeps r = js_sort code_unit_le
      (foldl push_new [] (filter (\<lambda>d. d \<notin> wt_task_id ` set tasks) (concat (map wt_depends_on tasks)))) \<and>
    tl_levels r = map (task_row collate lvl tasks) [0..Max (insert 0 ((\<lambda>t. lvl (wt_task_id t)) ` set tasks))]"
proof -
  let ?b = "buckets (\<lambda>t. opt_or (levels s (wt_task_id t)) 0) tasks"
  have "opt_or (map_of ?b i) [] = filter (\<lambda>t. lvl (wt_task_id t) = i) tasks" for i
  proof (cases "i \<in> (\<lambda>t. lvl (wt_task_id t)) ` set tasks")
    case True
    then show ?thesis by (simp add: map_of_buckets lvl)
  next
    case False
    then have "filter (\<lambda>t. lvl (wt_task_id t) = i) tasks = []" by (auto simp: filter_empty_conv)
    with False show ?thesis by (simp add: map_of_buckets lvl)
  qed
  moreover have "foldl max 0 (map fst ?b) = Max (insert 0 ((\<lambda>t. lvl (wt_task_id t)) ` set tasks))"
    unfolding foldl_max_int keys_buckets(2) lvl ..
  moreover obtain m where "foldl (task_deps_step (map wt_task_id tasks)) (Map.empty, []) tasks =
      (m, foldl push_new [] (filter (\<lambda>d. d \<notin> wt_task_id ` set tasks) (concat (map wt_depends_on tasks))))"
    "deps_of m = timeline_deps tasks"
    using that by (simp add: task_deps_fold timeline_deps_def)
  ultimately show ?thesis
    using assms(1) by (simp add: buildLevels_def Let_def task_row_def)
qed

lemma levels_no_gap:
  assumes ok: "\<And>v l. lv v = Some l \<Longrightarrow> level_ok deps lv v l"
    and "lv v = Some l" "0 \<le> i" "i \<le> l"
  shows "\<exists>w. (v, w) \<in> (dep_rel deps)\<^sup>* \<and> lv w = Some i"
  using assms(2,4)
proof (induction "nat (l - i)" arbitrary: v l)
  case 0
  then have "l = i" by simp
  with 0 show ?case by blast
next
  case (Suc k)
  then have "i < l" by simp
  with ok [OF Suc.prems(1)] assms(3) obtain d where d: "d \<in> set (deps v)" "lv d = Some (l - 1)"
    by (auto simp: level_ok_def)
  have "\<exists>w. (d, w) \<in> (dep_rel deps)\<^sup>* \<and> lv w = Some i"
    using Suc d \<open>i < l\<close> by (intro Suc.hyps(1) [of "l - 1"]) auto
  moreover have "(v, d) \<in> dep_rel deps" using d by (simp add: dep_rel_def)
  ultimately show ?case by (meson converse_rtrancl_into_rtrancl)
qed

lemma closed_reach: "(v, w) \<in> (dep_rel deps)\<^sup>* \<Longrightarrow> closed_deps deps V \<Longrightarrow> v \<in> V \<Longrightarrow> w \<in> V"
  by (induction rule: rtrancl_induct) (auto simp: closed_deps_def dep_rel_def)

text \<open>
  C17. The timeline shows every task exactly once, flags a cycle exactly when there is one,
  and lists exactly the dependencies that name no task, sorted and without repetition.
  Without a cycle every task stands in a later row than each of its dependencies,
  and no row is empty.
\<close>

theorem buildLevels_layered:
  "\<exists>r. buildLevels collate tasks = Some r \<and>
    mset (concat (tl_levels r)) = mset tasks \<and>
    (tl_hasCycle r \<longleftrightarrow> cyclic (timeline_deps tasks)) \<and>
    set (tl_missingDeps r) = (\<Union>t\<in>set tasks. set (wt_depends_on t)) - wt_task_id ` set tasks \<and>
    distinct (tl_missingDeps r) \<and> sorted_wrt code_unit_le (tl_missingDeps r) \<and>
    (\<not> cyclic (timeline_deps tasks) \<longrightarrow>
       (\<forall>i<length (tl_levels r). \<forall>j<length (tl_levels r). \<forall>t\<in>set (tl_levels r ! i). \<forall>t'\<in>set (tl_levels r ! j).
          wt_task_id t' \<in> set (timeline_deps tasks (wt_task_id t)) \<longrightarrow> j < i) \<and>
       (tasks \<noteq> [] \<longrightarrow> [] \<notin> set (tl_levels r)))"
proof -
  obtain s where s: "task_levels (Suc (length tasks)) (timeline_deps tasks) (map wt_task_id tasks) = Some s"
    and res: "levels_result (timeline_deps tasks) (wt_task_id ` set tasks) (levels s)"
    and cyc: "hasCycle s \<longleftrightarrow> cyclic (timeline_deps tasks)" by (rule buildLevels_eq)
  define lvl where "lvl = (\<lambda>v. opt_or (levels s v) 0)"
  define m where "m = Max (insert 0 ((\<lambda>t. lvl (wt_task_id t)) ` set tasks))"
  obtain r where r: "buildLevels collate tasks = Some r" "tl_hasCycle r = hasCycle s"
    "tl_missingDeps r = js_sort code_unit_le
      (foldl push_new [] (filter (\<lambda>d. d \<notin> wt_task_id ` set tasks) (concat (map wt_depends_on tasks))))"
    "tl_levels r = map (task_row collate lvl tasks) [0..m]"
    using buildLevels_rows [OF s lvl_def, of collate] unfolding m_def by blast
  have known: "levels s (wt_task_id t) = Some (lvl (wt_task_id t))" "0 \<le> lvl (wt_task_id t)" "lvl (wt_task_id t) \<le> m"
    if "t \<in> set tasks" for t
    using that res by (auto simp: levels_result_def lvl_def m_def)
  have perm: "mset (concat (tl_levels r)) = mset tasks"
  proof -
    have "mset (concat (tl_levels r)) = mset (concat (map (\<lambda>i. filter (\<lambda>t. lvl (wt_task_id t) = i) tasks) [0..m]))"
      unfolding r(4) task_row_def by (simp add: mset_concat comp_def)
    also have "\<dots> = mset tasks" by (rule mset_rows) (use known in auto)
    finally show ?thesis .
  qed
  have row: "t \<in> set tasks \<and> lvl (wt_task_id t) = int i" if "i < length (tl_levels r)" "t \<in> set (tl_levels r ! i)" for i t
    using that unfolding r(4) by (auto simp: task_row_def nth_upto)
  have missing: "set (tl_missingDeps r) = (\<Union>t\<in>set tasks. set (wt_depends_on t)) - wt_task_id ` set tasks"
    "distinct (tl_missingDeps r)" "sorted_wrt code_unit_le (tl_missingDeps r)"
    unfolding r(3) by (auto simp: set_push_news distinct_push_news code_units.sorted_js_sort)
  have later: "j < i" if a: "\<not> cyclic (timeline_deps tasks)" and i: "i < length (tl_levels r)" "t \<in> set (tl_levels r ! i)"
    and j: "j < length (tl_levels r)" "t' \<in> set (tl_levels r ! j)"
    and d: "wt_task_id t' \<in> set (timeline_deps tasks (wt_task_id t))" for i j t t'
  proof -
    have "level_ok (timeline_deps tasks) (levels s) (wt_task_id t) (lvl (wt_task_id t))"
      using res a known(1) row [OF i] by (auto simp: levels_result_def)
    then show ?thesis using d known(1) [of t'] row [OF i] row [OF j] by (fastforce simp: level_ok_def)
  qed
  have "[] \<notin> set (tl_levels r)" if a: "\<not> cyclic (timeline_deps tasks)" and ne: "tasks \<noteq> []"
  proof
    assume "[] \<in> set (tl_levels r)"
    then obtain i where i: "0 \<le> i" "i \<le> m" "task_row collate lvl tasks i = []" unfolding r(4) by auto
    have "m \<in> (\<lambda>t. lvl (wt_task_id t)) ` set tasks \<or> m = 0" unfolding m_def
      using Max_in [of "insert 0 ((\<lambda>t. lvl (wt_task_id t)) ` set tasks)"] by auto
    then obtain t where t: "t \<in> set tasks" "i \<le> lvl (wt_task_id t)"
      using i ne known(2) by (metis imageE list.set_sel(1) order_antisym_conv order_trans)
    have ok: "\<And>v l. levels s v = Some l \<Longrightarrow> level_ok (timeline_deps tasks) (levels s) v l"
      using res a by (simp add: levels_result_def)
    obtain w where w: "(wt_task_id t, w) \<in> (dep_rel (timeline_deps tasks))\<^sup>*" "levels s w = Some i"
      using levels_no_gap [OF ok known(1) [OF t(1)] i(1) t(2)] by blast
    have "w \<in> wt_task_id ` set tasks" using closed_reach [OF w(1) timeline_closed] t(1) by simp
    then obtain u where "u \<in> set tasks" "lvl (wt_task_id u) = i" using w(2) by (auto simp: lvl_def)
    then have "filter (\<lambda>t. lvl (wt_task_id t) = i) tasks \<noteq> []" by (auto simp: filter_empty_conv)
    with i(3) show False by (metis length_0_conv length_js_sort task_row_def)
  qed
  with r(1,2) cyc perm missing later show ?thesis by blast
qed

theorem buildLevels_layered_witness:
  "\<exists>r. buildLevels code_unit_le
      [\<lparr>wt_task_id = ''B'', wt_status = None, wt_depends_on = [''A'', ''X''], wt_allow_error = None, wt_attempt = None,
        wt_max_attempts = None, wt_error = None, wt_ready_unix_ms = None, wt_started_unix_ms = None, wt_finished_unix_ms = None\<rparr>,
       \<lparr>wt_task_id = ''A'', wt_status = None, wt_depends_on = [], wt_allow_error = None, wt_attempt = None,
        wt_max_attempts = None, wt_error = None, wt_ready_unix_ms = None, wt_started_unix_ms = None, wt_finished_unix_ms = None\<rparr>]
      = Some r \<and> set (tl_missingDeps r) = {''X''} \<and> map (map wt_task_id) (tl_levels r) = [[''A''], [''B'']]"
  (is "\<exists>r. buildLevels _ ?ts = Some r \<and> _")
proof -
  obtain r where r: "buildLevels code_unit_le ?ts = Some r"
    "set (tl_missingDeps r) = (\<Union>t\<in>set ?ts. set (wt_depends_on t)) - wt_task_id ` set ?ts"
    using buildLevels_layered [of code_unit_le ?ts] by blast
  have "map_option (\<lambda>r. map (map wt_task_id) (tl_levels r)) (buildLevels code_unit_le ?ts) = Some [[''A''], [''B'']]"
    by code_simp
  with r show ?thesis by auto
qed

section \<open>Cron expressions\<close>

text \<open>The abstract syntax a user means, its text, and which of it lies in a field's range.\<close>

datatype cron_atom = Any | Every nat | Span nat nat | At nat

fun atom_text :: "cron_atom \<Rightarrow> string" where
  "atom_text Any = ''*''"
| "atom_text (Every n) = ''*/'' @ nat_str n"
| "atom_text (Span a b) = nat_str a @ ''-'' @ nat_str b"
| "atom_text (At n) = nat_str n"

fun atom_ok :: "nat \<Rightarrow> nat \<Rightarrow> cron_atom \<Rightarrow> bool" where
  "atom_ok lo hi Any = True"
| "atom_ok lo hi (Every n) = (0 < n \<and> of_nat n < double_limit)"
| "atom_ok lo hi (Span a b) = (lo \<le> a \<and> a \<le> b \<and> b \<le> hi)"
| "atom_ok lo hi (At n) = (lo \<le> n \<and> n \<le> hi)"

definition cron_text :: "cron_atom list list \<Rightarrow> string" where
  "cron_text fs = js_join '' '' (map (\<lambda>f. js_join '','' (map atom_text f)) fs)"

lemma nat_str_digits_all: "list_all js_digit (nat_str n)" and nat_str_ne [simp]: "nat_str n \<noteq> []"
  using nat_str_digits by auto

lemma takeWhile_nat_str:
  "takeWhile js_digit (nat_str n @ c # s) = nat_str n @ takeWhile js_digit (c # s)"
  "dropWhile js_digit (nat_str n @ c # s) = dropWhile js_digit (c # s)"
  "takeWhile js_digit (nat_str n) = nat_str n" "dropWhile js_digit (nat_str n) = []"
  using nat_str_digits_all [of n] by (simp_all add: list_all_iff takeWhile_append dropWhile_append)

lemma step_atom_digits: "list_all js_digit s \<Longrightarrow> step_atom s = None" "step_atom (nat_str n @ s) = None"
proof -
  have *: "\<not> js_starts_with (c # s) ''*/''" if "js_digit c" for c and s :: string
    using that by (auto simp: js_starts_with_def js_digit_def)
  show "list_all js_digit s \<Longrightarrow> step_atom s = None"
    using * by (cases s) (auto simp: step_atom_def js_starts_with_def [of "[]"])
  obtain c r where "nat_str n = c # r" "js_digit c"
    using nat_str_digits_all [of n] by (cases "nat_str n") auto
  then show "step_atom (nat_str n @ s) = None" by (simp add: step_atom_def *)
qed

lemma digit_ne: "js_digit c \<Longrightarrow> c \<noteq> CHR ''*'' \<and> c \<noteq> CHR '','' \<and> c \<noteq> CHR ''-'' \<and> \<not> is_ws c"
  by (auto simp: js_digit_def is_ws_def Let_def)

lemma nat_str_ne_star: "nat_str n @ s \<noteq> ''*''"
  using nat_str_digits_all [of n] digit_ne by (cases "nat_str n") fastforce+

lemma of_nat_below_limit: "n \<le> hi \<Longrightarrow> of_nat hi < double_limit \<Longrightarrow> of_nat n < double_limit"
  by (meson le_less_trans of_nat_le_iff)

lemma parseAtom_text:
  assumes "of_nat hi < double_limit"
  shows "parseAtom (atom_text a) lo hi label = None \<longleftrightarrow> atom_ok lo hi a"
proof (cases a)
  case Any
  then show ?thesis by (simp add: parseAtom_def)
next
  case (Every n)
  have "step_atom (''*/'' @ nat_str n) = Some (nat_str n)"
    by (simp add: step_atom_def js_starts_with_def nat_str_digits_all)
  with Every show ?thesis
    by (auto simp: parseAtom_def js_Number_str_nat_str num_of_rat_nat not_le)
next
  case (Span b c)
  have "range_atom (nat_str b @ ''-'' @ nat_str c) = Some (nat_str b, nat_str c)"
    by (simp add: range_atom_def takeWhile_nat_str js_digit_def nat_str_digits_all)
  moreover have "nat_str b @ ''-'' @ nat_str c \<noteq> ''*''" by (rule nat_str_ne_star)
  ultimately show ?thesis
    using Span of_nat_below_limit [OF _ assms, of b] of_nat_below_limit [OF _ assms, of c]
    by (auto simp: parseAtom_def step_atom_digits js_Number_str_nat_str num_of_rat_nat not_le not_less num_lt_def)
next
  case (At n)
  have "range_atom (nat_str n) = None" by (simp add: range_atom_def takeWhile_nat_str)
  moreover have "nat_str n \<noteq> ''*''" using nat_str_ne_star [of n "[]"] by simp
  ultimately show ?thesis
    using At of_nat_below_limit [OF _ assms, of n]
    by (auto simp: parseAtom_def step_atom_digits nat_str_digits_all js_Number_str_nat_str num_of_rat_nat not_le not_less num_lt_def)
qed

lemma atom_text_chars: "c \<in> set (atom_text a) \<Longrightarrow> \<not> is_ws c \<and> c \<noteq> CHR '',''" and atom_text_ne: "atom_text a \<noteq> []"
  using nat_str_digits_all digit_ne by (cases a; auto simp: list_all_iff is_ws_def Let_def)+

lemma field_issues_text:
  assumes "f \<noteq> []" "of_nat hi < double_limit"
  shows "field_issues (js_join '','' (map atom_text f)) (lo, hi, label) = [] \<longleftrightarrow> list_all (atom_ok lo hi) f"
proof -
  have "js_split CHR '','' (js_join '','' (map atom_text f)) = map atom_text f"
    using assms(1) atom_text_chars by (intro js_split_join) auto
  moreover have "List.map_filter g xs = [] \<longleftrightarrow> list_all (\<lambda>x. g x = None) xs" for g :: "string \<Rightarrow> string option" and xs
    by (induction xs) (auto simp: map_filter_simps split: option.splits)
  ultimately show ?thesis
    using parseAtom_text [OF assms(2)] by (simp add: field_issues_def list_all_iff)
qed

lemma field_text_chars:
  assumes "c \<in> set (js_join '','' (map atom_text f))" shows "\<not> is_ws c"
  using assms set_js_join [of "'',''" "map atom_text f"] atom_text_chars by (fastforce simp: is_ws_def Let_def)

lemma cron_split:
  assumes "fs \<noteq> []" "[] \<notin> set fs"
  shows "js_trim (cron_text fs) = cron_text fs" "cron_text fs \<noteq> []"
    "js_split_run is_ws (cron_text fs) = map (\<lambda>f. js_join '','' (map atom_text f)) fs"
proof -
  let ?ps = "map (\<lambda>f. js_join '','' (map atom_text f)) fs"
  have ne: "p \<noteq> []" if "p \<in> set ?ps" for p
  proof -
    from that obtain f where f: "f \<in> set fs" "p = js_join '','' (map atom_text f)" by auto
    then have "f \<noteq> []" using assms(2) by metis
    then obtain a where "a \<in> set f" by (cases f) auto
    then show ?thesis unfolding f(2) by (intro js_join_ne [of "atom_text a"]) (auto simp: atom_text_ne)
  qed
  have ws: "\<not> is_ws c" if "p \<in> set ?ps" "c \<in> set p" for p c using that field_text_chars by auto
  have pn: "?ps \<noteq> []" using assms(1) by simp
  then have h: "?ps = hd ?ps # tl ?ps" "hd ?ps \<in> set ?ps" "last ?ps \<in> set ?ps"
    using hd_in_set [OF pn] last_in_set [OF pn] by (simp_all only: list.collapse not_False_eq_True)
  show c: "cron_text fs \<noteq> []" unfolding cron_text_def using h(2) ne by (intro js_join_ne) auto
  have "\<not> is_ws (hd (cron_text fs))"
    using ws [OF h(2)] ne [OF h(2)] hd_js_join [of "hd ?ps" "'' ''" "tl ?ps"] h(1) unfolding cron_text_def by (metis hd_in_set)
  moreover have "\<not> is_ws (last (cron_text fs))"
    using ws [OF h(3)] ne [OF h(3)] last_js_join [of ?ps "'' ''"] assms(1) unfolding cron_text_def by (metis last_in_set map_is_Nil_conv)
  ultimately show "js_trim (cron_text fs) = cron_text fs" using c by (intro js_trim_id) (simp add: trimmed_def)
  show "js_split_run is_ws (cron_text fs) = ?ps" unfolding cron_text_def
    by (rule js_split_run_join) (use assms ws ne in \<open>auto simp: is_ws_def\<close>)
qed

text \<open>
  C26. On every cron expression written in the documented forms (star, step, range, number,
  and comma lists of them) the validator reports no issue exactly when there are five
  fields and every number lies in its field's range.
\<close>

theorem validateCronExpr_iff:
  assumes "fs \<noteq> []" "[] \<notin> set fs"
  shows "validateCronExpr (cron_text fs) = [] \<longleftrightarrow>
    list_all2 (\<lambda>f (lo, hi, _). list_all (atom_ok lo hi) f) fs cron_ranges"
proof (cases "length fs = 5")
  case True
  then obtain a b c d e where fs: "fs = [a, b, c, d, e]"
    by (auto simp: length_Suc_conv eval_nat_numeral)
  have lim: "(59 :: rat) < double_limit" "(31 :: rat) < double_limit" "(23 :: rat) < double_limit"
    "(12 :: rat) < double_limit" "(7 :: rat) < double_limit"
    using double_limit_large by simp_all
  have "validateCronExpr (cron_text fs) =
      concat (map (\<lambda>(part, rng). field_issues part rng) (zip (map (\<lambda>f. js_join '','' (map atom_text f)) fs) cron_ranges))"
    using True by (simp add: validateCronExpr_def cron_split [OF assms] Let_def)
  then show ?thesis
    using assms(2) unfolding fs cron_ranges_def
    by (auto simp: field_issues_text lim simp del: One_nat_def)
next
  case False
  then show ?thesis
    using list_all2_lengthD [of _ fs cron_ranges]
    by (auto simp: validateCronExpr_def cron_split [OF assms] Let_def cron_ranges_def)
qed

theorem validateCronExpr_iff_witness:
  "validateCronExpr (cron_text [[Every 15], [At 9, Span 12 14], [Any], [Any], [Span 1 5]]) = []"
proof -
  have "of_nat 15 < double_limit" using double_limit_large by simp
  with validateCronExpr_iff [of "[[Every 15], [At 9, Span 12 14], [Any], [Any], [Span 1 5]]"]
  show ?thesis by (simp add: cron_ranges_def)
qed

text \<open>
  The validator is not the daemon's parser (\<^verbatim>\<open>src/daemon/src/cron_util.cpp\<close>). It passes
  fractions, hexadecimal numbers and a weekday range that ends in 7, all of which the daemon
  refuses, and it refuses the stepped ranges that the daemon accepts.
\<close>

lemma validateCronExpr_gaps:
  "validateCronExpr ''1.5 0x10 * * 5-7'' = [] \<and>
   validateCronExpr ''0-30/10 * * * *'' \<noteq> []"
proof
  have n: "js_Number_str ''1.5'' = Fin (3 / 2)" "js_Number_str ''0x10'' = Fin 16"
    "js_Number_str ''5'' = Fin 5" "js_Number_str ''7'' = Fin 7" "js_Number_str ''0-30/10'' = NaN"
    by (simp_all add: js_number_eval)
  have s: "js_split_run is_ws ''1.5 0x10 * * 5-7'' = [''1.5'', ''0x10'', ''*'', ''*'', ''5-7'']"
    "js_split_run is_ws ''0-30/10 * * * *'' = [''0-30/10'', ''*'', ''*'', ''*'', ''*'']"
    "js_trim ''1.5 0x10 * * 5-7'' = ''1.5 0x10 * * 5-7''" "js_trim ''0-30/10 * * * *'' = ''0-30/10 * * * *''"
    by code_simp+
  have a: "step_atom ''1.5'' = None" "range_atom ''1.5'' = None" "step_atom ''0x10'' = None" "range_atom ''0x10'' = None"
    "step_atom ''5-7'' = None" "range_atom ''5-7'' = Some (''5'', ''7'')"
    "step_atom ''0-30/10'' = None" "range_atom ''0-30/10'' = None"
    by code_simp+
  have p: "parseAtom ''1.5'' 0 59 l = None" "parseAtom ''0x10'' 0 23 l = None" "parseAtom ''*'' lo hi l = None"
    "parseAtom ''5-7'' 0 7 l = None" "parseAtom ''0-30/10'' 0 59 l \<noteq> None" for l lo hi
    by (simp_all add: parseAtom_def a n)
  have c: "js_split CHR '','' ''1.5'' = [''1.5'']" "js_split CHR '','' ''0x10'' = [''0x10'']" "js_split CHR '','' ''*'' = [''*'']"
    "js_split CHR '','' ''5-7'' = [''5-7'']" "js_split CHR '','' ''0-30/10'' = [''0-30/10'']"
    by simp_all
  show "validateCronExpr ''1.5 0x10 * * 5-7'' = []"
    by (simp add: validateCronExpr_def s cron_ranges_def field_issues_def c p map_filter_simps del: js_split.simps js_split_run.simps)
  show "validateCronExpr ''0-30/10 * * * *'' \<noteq> []"
    using p(5) [of "''minute''"] by (simp add: validateCronExpr_def s cron_ranges_def field_issues_def c map_filter_simps del: js_split.simps js_split_run.simps
        split: option.split) auto
qed

section \<open>Schedule specifications\<close>

text \<open>What the validator demands of a task and of a specification.\<close>

definition schedulable_task :: "jsval \<Rightarrow> bool" where
  "schedulable_task t =
     (is_JObj t \<and> (\<exists>s. js_get t ''task_id'' = JStr s \<and> s \<noteq> []) \<and>
      (js_get t ''depends_on'' = JUndef \<or> is_JArr (js_get t ''depends_on'')) \<and>
      (is_JObj (js_get t ''request'') \<or> (\<exists>k. js_get t ''kind'' = JStr k \<and> js_trim k \<noteq> [])))"

lemma task_issues_iff: "task_issues (i, t) = [] \<longleftrightarrow> schedulable_task t"
  by (cases "js_get t ''task_id''"; cases "js_get t ''kind''")
    (auto simp: task_issues_def schedulable_task_def Let_def is_JObj_def)

lemma enumerate_all: "(\<forall>p\<in>set (enumerate k xs). P (snd p)) \<longleftrightarrow> (\<forall>x\<in>set xs. P x)"
  by (induction xs arbitrary: k) auto

lemma coerceScheduleSpec_iff:
  "coerceScheduleSpec spec = Some v \<longleftrightarrow>
     v = spec \<and> is_JObj spec \<and>
     (\<exists>ts. js_get spec ''tasks'' = JArr ts \<and> ts \<noteq> [] \<and> (\<forall>t\<in>set ts. schedulable_task t)) \<and>
     (js_get spec ''defaults'' = JUndef \<or> is_JObj (js_get spec ''defaults''))"
proof -
  have "task_issues p = [] \<longleftrightarrow> schedulable_task (snd p)" for p by (cases p) (simp add: task_issues_iff)
  then have t: "(\<forall>p\<in>set (enumerate 0 ts). task_issues p = []) \<longleftrightarrow> (\<forall>t\<in>set ts. schedulable_task t)" for ts
    using enumerate_all [of 0 ts schedulable_task] by simp
  show ?thesis
    by (cases spec; cases "js_get spec ''tasks''"; cases "js_get spec ''defaults''")
      (auto simp: coerceScheduleSpec_def validateScheduleSpec_def t simp del: js_get.simps)
qed

text \<open>
  C27. Every workflow the graph editor builds passes the schedule validator unchanged, whatever
  the graph and the options: a graph can be scheduled as it is.
\<close>

theorem export_is_schedulable:
  assumes "buildWorkflowFromGraph collate g options = Inr r"
  shows "coerceScheduleSpec (br_workflow r) = Some (br_workflow r)"
proof -
  have ne: "cl_nodes (cleaned (gs_nodes g)) \<noteq> []" "gs_nodes g \<noteq> []"
    using assms by (auto simp: buildWorkflowFromGraph_def Let_def split: if_splits)
  obtain m ns where ts: "tasks_of (br_workflow r) = map (node_task options m) ns"
    and ns: "ns \<noteq> []" "\<And>n. n \<in> set ns \<Longrightarrow> gn_id n \<noteq> []"
  proof -
    let ?c = "cleaned (gs_nodes g)" and ?ns = "js_sort (\<lambda>a b. collate (gn_id a) (gn_id b)) (cl_nodes (cleaned (gs_nodes g)))"
    have "tasks_of (br_workflow r) = map (node_task options (build_deps (cl_nodes ?c) (valid_edges (cl_ids ?c) (gs_edges g)))) ?ns"
      using buildWorkflowFromGraph_Inr [OF ne(1), of collate options] assms by (metis Inr_inject)
    moreover have "?ns \<noteq> []" using ne(1) by (metis length_0_conv length_js_sort)
    moreover have "gn_id n \<noteq> []" if "n \<in> set ?ns" for n
      using that cleaned_ok [of "gs_nodes g"] unfolding cleaning_ok_def by (metis image_eqI list.set_map set_js_sort)
    ultimately show ?thesis using that by blast
  qed
  have sched: "schedulable_task (node_task options m n)" if "gn_id n \<noteq> []" for n
    using that by (auto simp: schedulable_task_def node_task_def build_task_def buildAgentParallelTask_def Let_def
        js_trim_eval)
  have w: "is_JObj (br_workflow r)"
    "js_get (br_workflow r) ''defaults'' = JUndef \<or> is_JObj (js_get (br_workflow r) ''defaults'')"
    "\<exists>ts. js_get (br_workflow r) ''tasks'' = JArr ts"
    using assms ne by (auto simp: buildWorkflowFromGraph_def Let_def case_prod_beta split: if_splits)
  then obtain ts' where "js_get (br_workflow r) ''tasks'' = JArr ts'" "ts' = map (node_task options m) ns"
    using ts by (auto simp: tasks_of_def)
  with w ns sched show ?thesis by (auto simp: coerceScheduleSpec_iff)
qed

theorem export_is_schedulable_witness:
  "\<exists>r. buildWorkflowFromGraph code_unit_le DEFAULT_GRAPH_STATE sample_options = Inr r \<and>
       coerceScheduleSpec (br_workflow r) = Some (br_workflow r)"
proof -
  have "case buildWorkflowFromGraph code_unit_le DEFAULT_GRAPH_STATE sample_options of Inl _ \<Rightarrow> False | Inr _ \<Rightarrow> True"
    by code_simp
  then obtain r where r: "buildWorkflowFromGraph code_unit_le DEFAULT_GRAPH_STATE sample_options = Inr r"
    by (auto split: sum.splits)
  from export_is_schedulable [OF r] r show ?thesis by blast
qed

end
