(* ===== verification/Runtime_Config.thy ===== *)
theory Runtime_Config
  imports Json_Utils
begin

text \<open>
  \<^verbatim>\<open>src/ui/src/runtime_config.ts\<close>: the start-up settings, taken from the page's
  \<^verbatim>\<open>__AGENT_UI_CONFIG__\<close>, else from the build environment, else from the built-in
  defaults. Each assignment \<^verbatim>\<open>out.k = coerce(cfg.k) ?? coerce(envString(E)) ?? out.k\<close> of
  \<^verbatim>\<open>getUiDefaults\<close> is one row of a table, in the order of the code.
\<close>

section \<open>Coercions\<close>

definition envString :: "jsval jsobj \<Rightarrow> string \<Rightarrow> jsval" where
  "envString env key =
     (case obj_get env key of
        JStr v \<Rightarrow> let s = js_trim v in if s \<noteq> [] then JStr s else JUndef
      | _ \<Rightarrow> JUndef)"

definition coerceBool :: "jsval \<Rightarrow> bool option" where
  "coerceBool val =
     (case val of
        JBool b \<Rightarrow> Some b
      | JStr v \<Rightarrow>
          let s = js_lower (js_trim v) in
          if s = [] then None
          else if s \<in> {''1'', ''true'', ''yes'', ''on''} then Some True
          else if s \<in> {''0'', ''false'', ''no'', ''off''} then Some False
          else None
      | _ \<Rightarrow> None)"

definition coerceString :: "jsval \<Rightarrow> string option" where
  "coerceString val =
     (case val of
        JStr v \<Rightarrow> let s = js_trim v in if s \<noteq> [] then Some s else None
      | JNum n \<Rightarrow> if is_finite n then Some (num_str n) else None
      | _ \<Rightarrow> None)"

definition list_sep :: "char \<Rightarrow> bool" where
  "list_sep c = (c = CHR '','' \<or> c = CHR 0x0A)"

definition coerceStringList :: "jsval \<Rightarrow> string list option" where
  "coerceStringList val =
     (case val of
        JArr xs \<Rightarrow>
          let arr = filter (\<lambda>v. v \<noteq> []) (map (\<lambda>v. js_trim (text_of v)) xs) in if arr \<noteq> [] then Some arr else None
      | JStr s \<Rightarrow>
          let parts = filter (\<lambda>v. v \<noteq> []) (map js_trim (js_split_run list_sep s)) in if parts \<noteq> [] then Some parts else None
      | _ \<Rightarrow> None)"

definition coerceEnum :: "jsval \<Rightarrow> string list \<Rightarrow> string option" where
  "coerceEnum val allowed =
     (case val of
        JStr v \<Rightarrow> let s = js_trim v in if s = [] then None else if s \<in> set allowed then Some s else None
      | _ \<Rightarrow> None)"

section \<open>The settings table\<close>

datatype setting_kind = Text | Flag | Choice "string list" | Texts

fun coerce :: "setting_kind \<Rightarrow> jsval \<Rightarrow> jsval option" where
  "coerce Text v = map_option JStr (coerceString v)"
| "coerce Flag v = map_option JBool (coerceBool v)"
| "coerce (Choice allowed) v = map_option JStr (coerceEnum v allowed)"
| "coerce Texts v = map_option (\<lambda>ss. JArr (map JStr ss)) (coerceStringList v)"

definition UI_DEFAULTS :: "jsval jsobj" where
  "UI_DEFAULTS =
     [(''clientId'', JStr ''webui''), (''connectionMode'', JStr ''direct''),
      (''daemonBaseUrl'', JStr ''http://127.0.0.1:8123''), (''brokerBaseUrl'', JStr ''https://127.0.0.1:8443''),
      (''brokerAgentId'', JStr ''agent1''), (''brokerDeploymentId'', JStr []), (''brokerCookieAuth'', JBool False),
      (''brokerAuthToken'', JStr []), (''daemonAuthToken'', JStr []), (''tools'', JStr ''host''), (''yolo'', JBool True),
      (''hostPolicy'', JStr ''full''), (''automationProfile'', JStr []), (''verbose'', JBool True),
      (''model'', JStr ''deepseek-chat''), (''baseUrl'', JStr ''https://api.deepseek.com''), (''apiKey'', JStr []),
      (''proxyUrl'', JStr ''http://localhost:8120''), (''timeoutMs'', JStr ''60000''), (''streamAssistant'', JBool False),
      (''trace'', JBool True), (''useAsync'', JBool True), (''memoryContextMode'', JStr ''files''),
      (''memoryIncludeStructured'', JBool True), (''memoryIncludeCore'', JBool True), (''memoryIncludeDaily'', JBool True),
      (''memoryIncludeSession'', JBool True), (''memoryDailyDays'', JStr ''2''), (''memoryTotalCap'', JStr ''12000''),
      (''memorySearchQuery'', JStr []), (''memorySearchOrder'', JStr ''ranked''), (''memorySearchUseIndex'', JBool True),
      (''memorySearchCaseSensitive'', JBool False), (''memorySearchFallbackToFiles'', JBool True),
      (''memorySearchMaxResults'', JStr ''12''), (''memorySearchMaxSnippetChars'', JStr ''800''),
      (''memorySearchContextLines'', JStr ''2''), (''allowClientRpcs'', JBool True), (''allowClientEffects'', JBool True),
      (''allowUnsafePageEval'', JBool True), (''brokerPanelOpen'', JBool False), (''workflowAgentTargets'', JArr []),
      (''workflowBearerEnv'', JStr []), (''serverPrefsMode'', JStr ''auto'')]"

type_synonym setting_row = "string \<times> setting_kind \<times> string option"

definition connection_rows :: "setting_row list" where
  "connection_rows =
     [(''clientId'', Text, Some ''VITE_AGENTUI_CLIENT_ID''),
      (''connectionMode'', Choice [''direct'', ''broker''], Some ''VITE_AGENTUI_CONNECTION_MODE''),
      (''daemonBaseUrl'', Text, Some ''VITE_AGENTD_BASE_URL''),
      (''brokerBaseUrl'', Text, Some ''VITE_BROKER_BASE_URL''),
      (''brokerAgentId'', Text, Some ''VITE_AGENTUI_BROKER_AGENT_ID''),
      (''brokerDeploymentId'', Text, Some ''VITE_AGENTUI_BROKER_DEPLOYMENT_ID''),
      (''brokerCookieAuth'', Flag, Some ''VITE_AGENTUI_BROKER_COOKIE_AUTH''),
      (''brokerAuthToken'', Text, Some ''VITE_AGENTUI_BROKER_AUTH_TOKEN''),
      (''daemonAuthToken'', Text, Some ''VITE_AGENTUI_DAEMON_AUTH_TOKEN'')]"

definition run_rows :: "setting_row list" where
  "run_rows =
     [(''tools'', Choice [''host'', ''basic'', ''none''], Some ''VITE_AGENTUI_TOOLS''),
      (''yolo'', Flag, Some ''VITE_AGENTUI_YOLO''),
      (''hostPolicy'', Choice [''full'', ''readonly''], Some ''VITE_AGENTUI_HOST_POLICY''),
      (''automationProfile'', Choice [''full'', ''guided'', ''strict'', ''custom''], Some ''VITE_AGENTUI_AUTOMATION_PROFILE''),
      (''verbose'', Flag, Some ''VITE_AGENTUI_VERBOSE''),
      (''model'', Text, Some ''VITE_AGENTUI_MODEL''),
      (''baseUrl'', Text, Some ''VITE_AGENTUI_BASE_URL''),
      (''apiKey'', Text, Some ''VITE_AGENTUI_API_KEY''),
      (''proxyUrl'', Text, Some ''VITE_AGENTUI_PROXY_URL''),
      (''timeoutMs'', Text, Some ''VITE_AGENTUI_TIMEOUT_MS''),
      (''streamAssistant'', Flag, Some ''VITE_AGENTUI_STREAM_ASSISTANT''),
      (''trace'', Flag, Some ''VITE_AGENTUI_TRACE''),
      (''useAsync'', Flag, Some ''VITE_AGENTUI_USE_ASYNC'')]"

definition memory_rows :: "setting_row list" where
  "memory_rows =
     [(''memoryContextMode'', Choice [''files'', ''search'', ''index'', ''salience''], Some ''VITE_AGENTUI_MEMORY_CONTEXT_MODE''),
      (''memoryIncludeStructured'', Flag, Some ''VITE_AGENTUI_MEMORY_INCLUDE_STRUCTURED''),
      (''memoryIncludeCore'', Flag, Some ''VITE_AGENTUI_MEMORY_INCLUDE_CORE''),
      (''memoryIncludeDaily'', Flag, Some ''VITE_AGENTUI_MEMORY_INCLUDE_DAILY''),
      (''memoryIncludeSession'', Flag, Some ''VITE_AGENTUI_MEMORY_INCLUDE_SESSION''),
      (''memoryDailyDays'', Text, Some ''VITE_AGENTUI_MEMORY_DAILY_DAYS''),
      (''memoryTotalCap'', Text, Some ''VITE_AGENTUI_MEMORY_TOTAL_CAP''),
      (''memorySearchQuery'', Text, Some ''VITE_AGENTUI_MEMORY_SEARCH_QUERY''),
      (''memorySearchOrder'', Choice [''ranked'', ''newest'', ''oldest''], Some ''VITE_AGENTUI_MEMORY_SEARCH_ORDER''),
      (''memorySearchUseIndex'', Flag, Some ''VITE_AGENTUI_MEMORY_SEARCH_USE_INDEX''),
      (''memorySearchCaseSensitive'', Flag, Some ''VITE_AGENTUI_MEMORY_SEARCH_CASE_SENSITIVE''),
      (''memorySearchFallbackToFiles'', Flag, Some ''VITE_AGENTUI_MEMORY_SEARCH_FALLBACK''),
      (''memorySearchMaxResults'', Text, Some ''VITE_AGENTUI_MEMORY_SEARCH_MAX_RESULTS''),
      (''memorySearchMaxSnippetChars'', Text, Some ''VITE_AGENTUI_MEMORY_SEARCH_MAX_SNIPPET_CHARS''),
      (''memorySearchContextLines'', Text, Some ''VITE_AGENTUI_MEMORY_SEARCH_CONTEXT_LINES'')]"

definition client_rows :: "setting_row list" where
  "client_rows =
     [(''allowClientRpcs'', Flag, Some ''VITE_AGENTUI_ALLOW_CLIENT_RPCS''),
      (''allowClientEffects'', Flag, Some ''VITE_AGENTUI_ALLOW_CLIENT_EFFECTS''),
      (''allowUnsafePageEval'', Flag, Some ''VITE_AGENTUI_ALLOW_UNSAFE_PAGE_EVAL''),
      (''brokerPanelOpen'', Flag, Some ''VITE_AGENTUI_BROKER_PANEL_OPEN''),
      (''workflowAgentTargets'', Texts, None),
      (''workflowBearerEnv'', Text, None),
      (''serverPrefsMode'', Choice [''off'', ''auto'', ''on''], Some ''VITE_AGENTUI_SERVER_PREFS_MODE'')]"

definition ui_rows :: "setting_row list" where
  "ui_rows = connection_rows @ run_rows @ memory_rows @ client_rows"

definition readRuntimeConfig :: "jsval \<Rightarrow> jsval" where
  "readRuntimeConfig config = js_or config (JObj [])"

definition assign_row :: "jsval \<Rightarrow> jsval jsobj \<Rightarrow> jsval jsobj \<Rightarrow> setting_row \<Rightarrow> jsval jsobj" where
  "assign_row cfg env out row =
     (case row of (k, kind, envKey) \<Rightarrow>
        let fromCfg = coerce kind (js_get cfg k);
            fromEnv = (case envKey of Some e \<Rightarrow> coerce kind (envString env e) | None \<Rightarrow> None)
        in obj_put out k (opt_or (opt_orelse fromCfg fromEnv) (obj_get out k)))"

definition getUiDefaults :: "jsval \<Rightarrow> jsval jsobj \<Rightarrow> jsval jsobj" where
  "getUiDefaults config env = foldl (assign_row (readRuntimeConfig config) env) UI_DEFAULTS ui_rows"

section \<open>Every setting is typed, and the page's configuration wins\<close>

fun kind_ok :: "setting_kind \<Rightarrow> jsval \<Rightarrow> bool" where
  "kind_ok Text v = is_JStr v"
| "kind_ok Flag v = is_JBool v"
| "kind_ok (Choice allowed) v = (\<exists>s\<in>set allowed. v = JStr s)"
| "kind_ok Texts v = (\<exists>ss. v = JArr (map JStr ss) \<and> (\<forall>s\<in>set ss. trimmed s \<and> s \<noteq> []))"

definition setting_value :: "jsval \<Rightarrow> jsval jsobj \<Rightarrow> setting_row \<Rightarrow> jsval" where
  "setting_value cfg env row =
     (case row of (k, kind, envKey) \<Rightarrow>
        opt_or (opt_orelse (coerce kind (js_get cfg k))
          (case envKey of Some e \<Rightarrow> coerce kind (envString env e) | None \<Rightarrow> None)) (obj_get UI_DEFAULTS k))"

lemma coerce_ok: "coerce kind v = Some w \<Longrightarrow> kind_ok kind w"
proof (cases kind)
  case (Choice allowed)
  assume "coerce kind v = Some w"
  with Choice show ?thesis by (cases v) (auto simp: coerceEnum_def Let_def split: if_splits)
next
  case Texts
  assume c: "coerce kind v = Some w"
  with Texts obtain ss where ss: "coerceStringList v = Some ss" "w = JArr (map JStr ss)" by auto
  have "\<forall>s\<in>set ss. trimmed s \<and> s \<noteq> []"
    using ss(1) by (cases v) (auto simp: coerceStringList_def Let_def split: if_splits)
  with Texts ss(2) show ?thesis by auto
qed auto

lemma obj_get_assign:
  "obj_get (assign_row cfg env out (k, kind, e)) k' =
     (if k' = k then opt_or (opt_orelse (coerce kind (js_get cfg k))
          (case e of Some e \<Rightarrow> coerce kind (envString env e) | None \<Rightarrow> None)) (obj_get out k) else obj_get out k')"
  by (simp add: assign_row_def Let_def obj_get_put)

lemma obj_get_assigns_other:
  "k \<notin> fst ` set rows \<Longrightarrow> obj_get (foldl (assign_row cfg env) out rows) k = obj_get out k"
proof (induction rows arbitrary: out)
  case (Cons r rows)
  then show ?case by (cases r) (simp add: obj_get_assign)
qed simp

lemma obj_get_assigns:
  "distinct (map fst rows) \<Longrightarrow> (k, kind, e) \<in> set rows \<Longrightarrow>
   obj_get (foldl (assign_row cfg env) out rows) k = obj_get (assign_row cfg env out (k, kind, e)) k"
proof (induction rows arbitrary: out)
  case (Cons r rows)
  show ?case
  proof (cases "r = (k, kind, e)")
    case True
    with Cons.prems show ?thesis by (simp add: obj_get_assigns_other)
  next
    case False
    with Cons.prems have "fst r \<noteq> k" and "(k, kind, e) \<in> set rows" by (auto simp: image_iff)
    then show ?thesis using Cons by (cases r) (simp add: obj_get_assign)
  qed
qed simp

lemma distinct_ui_rows: "distinct (map fst ui_rows)"
  by (simp add: ui_rows_def connection_rows_def run_rows_def memory_rows_def client_rows_def)

lemma ui_rows_keys: "map fst ui_rows = map fst UI_DEFAULTS"
  by (simp add: ui_rows_def connection_rows_def run_rows_def memory_rows_def client_rows_def UI_DEFAULTS_def)

lemma map_fst_assign: "k \<in> set (map fst out) \<Longrightarrow> map fst (assign_row cfg env out (k, kind, e)) = map fst out"
  by (simp add: assign_row_def Let_def map_fst_update)

lemma map_fst_assigns:
  "fst ` set rows \<subseteq> set (map fst out) \<Longrightarrow> map fst (foldl (assign_row cfg env) out rows) = map fst out"
proof (induction rows arbitrary: out)
  case (Cons r rows)
  then have "map fst (assign_row cfg env out r) = map fst out" by (cases r) (simp add: map_fst_assign)
  moreover from this have "map fst (foldl (assign_row cfg env) (assign_row cfg env out r) rows) = map fst (assign_row cfg env out r)"
    using Cons.prems by (intro Cons.IH) simp
  ultimately show ?case by simp
qed simp


end
