(* ===== verification/Workflow_Defaults.thy ===== *)
theory Workflow_Defaults
  imports Runtime_Config
begin

text \<open>
  \<^verbatim>\<open>src/ui/src/workflowDefaults.ts\<close> with the type \<^verbatim>\<open>WorkflowDefaults\<close> of
  \<^verbatim>\<open>src/ui/src/workflowTypes.ts\<close>: the run settings of the client, most of them text
  fields, turned into the typed defaults of a workflow specification. The settings are the
  object the settings hooks hand over, restricted to its data fields.
\<close>

section \<open>Numbers and tool limits\<close>

definition parseNumber :: "jsval \<Rightarrow> rat \<Rightarrow> rat option" where
  "parseNumber raw lo =
     (let s = js_trim (js_String (js_coalesce raw (JStr []))) in
      if s = [] then None
      else case js_Number_str s of
             Fin n \<Rightarrow> if n < lo then None else Some n
           | _ \<Rightarrow> None)"

type_synonym tool_limit = "string \<times> int"

definition limit_item :: "jsval \<Rightarrow> tool_limit option" where
  "limit_item item =
     (if \<not> truthy item \<or> \<not> typeof_object item then None
      else
        let tool = js_trim (js_String (js_coalesce (js_get item ''tool'') (js_coalesce (js_get item ''name'') (JStr []))));
            max_calls = js_Number (js_coalesce (js_get item ''max_calls'') (js_coalesce (js_get item ''maxCalls'')
              (js_coalesce (js_get item ''max'') (js_coalesce (js_get item ''limit'') (JNum NaN)))))
        in if tool = [] then None
           else case max_calls of Fin r \<Rightarrow> if r < 0 then None else Some (tool, \<lfloor>r\<rfloor>) | _ \<Rightarrow> None)"

definition limit_part :: "tool_limit list \<Rightarrow> string \<Rightarrow> tool_limit list" where
  "limit_part out p =
     (case js_index_of p ''='' of
        None \<Rightarrow> out
      | Some eq \<Rightarrow>
          if eq = 0 then out
          else
            let tool = js_trim (take eq p); n = js_Number_str (js_trim (drop (eq + 1) p)) in
            if tool = [] then out
            else case n of Fin r \<Rightarrow> if r < 0 then out else AList.update tool \<lfloor>r\<rfloor> out | _ \<Rightarrow> out)"

definition parseToolCallLimits :: "jsval \<Rightarrow> tool_limit list option" where
  "parseToolCallLimits raw =
     (let s = js_trim (js_String (js_coalesce raw (JStr []))) in
      if s = [] then None
      else if js_starts_with s ''['' \<or> js_starts_with s ''{'' then
        (case json_parse s of
           None \<Rightarrow> None
         | Some v \<Rightarrow>
             let arr = (case v of JArr xs \<Rightarrow> xs | _ \<Rightarrow> [v]); parsed = List.map_filter limit_item arr
             in if parsed \<noteq> [] then Some parsed else None)
      else
        let parts = filter (\<lambda>x. x \<noteq> []) (map js_trim (js_split_run list_sep s));
            out = foldl limit_part [] parts
        in if out \<noteq> [] then Some out else None)"

definition limits_value :: "tool_limit list \<Rightarrow> jsval" where
  "limits_value ls = JArr (map (\<lambda>(tool, n). JObj [(''tool'', JStr tool), (''max_calls'', JNum (Fin (of_int n)))]) ls)"

section \<open>The defaults\<close>

abbreviation num_field :: "jsval jsobj \<Rightarrow> string \<Rightarrow> rat \<Rightarrow> jsval option" where
  "num_field run k lo \<equiv> map_option (\<lambda>n. JNum (Fin n)) (parseNumber (obj_get run k) lo)"

abbreviation truthy_field :: "jsval jsobj \<Rightarrow> string \<Rightarrow> jsval option" where
  "truthy_field run k \<equiv> given (truthy (obj_get run k)) (obj_get run k)"

abbreviation bool_field :: "jsval jsobj \<Rightarrow> string \<Rightarrow> jsval option" where
  "bool_field run k \<equiv> given (is_JBool (obj_get run k)) (obj_get run k)"

definition base_fields :: "jsval jsobj \<Rightarrow> (string \<times> jsval option) list" where
  "base_fields run =
     [(''tools'', truthy_field run ''tools''),
      (''host_policy'', given (obj_get run ''tools'' = JStr ''host'' \<and> truthy (obj_get run ''hostPolicy'')) (obj_get run ''hostPolicy'')),
      (''automation_profile'',
         (case obj_get run ''automationProfile'' of JStr s \<Rightarrow> given (js_trim s \<noteq> []) (JStr (js_trim s)) | _ \<Rightarrow> None)),
      (''yolo'', bool_field run ''yolo''),
      (''verbose'', bool_field run ''verbose''),
      (''model'', truthy_field run ''model''),
      (''summary_model'', truthy_field run ''summaryModel''),
      (''summary_max_chars'', num_field run ''summaryMaxChars'' 0),
      (''base_url'', truthy_field run ''baseUrl''),
      (''api_key'', truthy_field run ''apiKey''),
      (''proxy'', truthy_field run ''proxyUrl''),
      (''timeout_ms'', num_field run ''timeoutMs'' 1),
      (''stream_assistant'', bool_field run ''streamAssistant''),
      (''max_capture_bytes'', num_field run ''maxCaptureBytes'' 0),
      (''max_steps'', num_field run ''maxSteps'' 0),
      (''max_repeated_tool_calls'', num_field run ''maxRepeatedToolCalls'' 0),
      (''max_tool_calls_total'', num_field run ''maxToolCallsTotal'' 0),
      (''max_tool_calls_per_tool'', num_field run ''maxToolCallsPerTool'' 0),
      (''tool_call_limits'', map_option limits_value (parseToolCallLimits (obj_get run ''toolCallLimits''))),
      (''max_chars'', num_field run ''maxChars'' 0),
      (''keep_last'', num_field run ''keepLast'' 0)]"

definition memory_fields :: "jsval jsobj \<Rightarrow> (string \<times> jsval option) list" where
  "memory_fields run =
     [(''memory_context_mode'', truthy_field run ''memoryContextMode''),
      (''memory_include_structured'', bool_field run ''memoryIncludeStructured''),
      (''memory_include_core'', bool_field run ''memoryIncludeCore''),
      (''memory_include_daily'', bool_field run ''memoryIncludeDaily''),
      (''memory_include_session'', bool_field run ''memoryIncludeSession''),
      (''memory_daily_days'', num_field run ''memoryDailyDays'' 0),
      (''memory_total_cap'', num_field run ''memoryTotalCap'' 0),
      (''memory_search_query'', truthy_field run ''memorySearchQuery''),
      (''memory_search_use_index'', bool_field run ''memorySearchUseIndex''),
      (''memory_search_case_sensitive'', bool_field run ''memorySearchCaseSensitive''),
      (''memory_search_fallback_to_files'', bool_field run ''memorySearchFallbackToFiles''),
      (''memory_search_order'', truthy_field run ''memorySearchOrder''),
      (''memory_search_max_results'', num_field run ''memorySearchMaxResults'' 0),
      (''memory_search_max_snippet_chars'', num_field run ''memorySearchMaxSnippetChars'' 0),
      (''memory_search_context_lines'', num_field run ''memorySearchContextLines'' 0)]"

definition buildWorkflowDefaults :: "jsval jsobj \<Rightarrow> jsval jsobj" where
  "buildWorkflowDefaults run =
     obj_of_opts (base_fields run
       @ (if obj_get run ''tools'' = JStr ''host'' then memory_fields run else [])
       @ [(''trace'', bool_field run ''trace'')])"

text \<open>The declared fields of the settings and of the defaults.\<close>

definition run_settings_fields :: schema where
  "run_settings_fields =
     map (\<lambda>k. (k, TStr)) [''tools'', ''hostPolicy'', ''automationProfile'', ''model'', ''summaryModel'', ''summaryMaxChars'',
       ''baseUrl'', ''apiKey'', ''proxyUrl'', ''timeoutMs'', ''maxCaptureBytes'', ''maxSteps'', ''maxRepeatedToolCalls'',
       ''maxToolCallsTotal'', ''maxToolCallsPerTool'', ''toolCallLimits'', ''maxChars'', ''keepLast'', ''memoryContextMode'',
       ''memoryDailyDays'', ''memoryTotalCap'', ''memorySearchQuery'', ''memorySearchOrder'', ''memorySearchMaxResults'',
       ''memorySearchMaxSnippetChars'', ''memorySearchContextLines'']
     @ map (\<lambda>k. (k, TBool)) [''yolo'', ''verbose'', ''streamAssistant'', ''trace'', ''memoryIncludeStructured'',
       ''memoryIncludeCore'', ''memoryIncludeDaily'', ''memoryIncludeSession'', ''memorySearchUseIndex'',
       ''memorySearchCaseSensitive'', ''memorySearchFallbackToFiles'']"

definition workflow_defaults_fields :: schema where
  "workflow_defaults_fields =
     [(''tools'', TStr), (''host_policy'', TStr), (''automation_profile'', TStr), (''yolo'', TBool), (''verbose'', TBool),
      (''model'', TStr), (''summary_model'', TStr), (''summary_max_chars'', TNum), (''base_url'', TStr), (''api_key'', TStr),
      (''proxy'', TStr), (''timeout_ms'', TNum), (''stream_assistant'', TBool), (''max_capture_bytes'', TNum),
      (''max_steps'', TNum), (''max_repeated_tool_calls'', TNum), (''max_tool_calls_total'', TNum),
      (''max_tool_calls_per_tool'', TNum), (''max_chars'', TNum), (''keep_last'', TNum),
      (''memory_context_mode'', TStr), (''memory_include_structured'', TBool), (''memory_include_core'', TBool),
      (''memory_include_daily'', TBool), (''memory_include_session'', TBool), (''memory_daily_days'', TNum),
      (''memory_total_cap'', TNum), (''memory_search_query'', TStr), (''memory_search_use_index'', TBool),
      (''memory_search_case_sensitive'', TBool), (''memory_search_fallback_to_files'', TBool),
      (''memory_search_order'', TStr), (''memory_search_max_results'', TNum), (''memory_search_max_snippet_chars'', TNum),
      (''memory_search_context_lines'', TNum), (''trace'', TBool)]"

section \<open>The defaults are typed and gated\<close>

definition opt_typed :: "schema \<Rightarrow> string \<times> jsval option \<Rightarrow> bool" where
  "opt_typed sch e \<longleftrightarrow> (\<forall>w T. snd e = Some w \<longrightarrow> map_of sch (fst e) = Some T \<longrightarrow> has_type T w)"

lemma fields_ok_opts:
  assumes "distinct (map fst es)" "distinct (map fst sch)"
    and "list_all (opt_typed sch) es"
  shows "fields_ok sch (obj_of_opts es)"
proof -
  have "obj_get (obj_of_opts es) k = JUndef \<or> has_type T (obj_get (obj_of_opts es) k)" if "(k, T) \<in> set sch" for k T
  proof (cases "map_of es k")
    case (Some v)
    then have "(k, v) \<in> set es" by (rule map_of_SomeD)
    with assms(3) have "\<forall>w. v = Some w \<longrightarrow> has_type T w"
      using map_of_is_SomeI [OF assms(2) that] by (fastforce simp: list_all_iff opt_typed_def)
    with obj_get_opts [OF assms(1) \<open>(k, v) \<in> set es\<close>] show ?thesis by (cases v) auto
  qed (simp add: obj_get.simps map_of_opts [OF assms(1)])
  then show ?thesis by (auto simp: fields_ok_def list_all_iff)
qed

lemma truthy_str_field:
  "fields_ok run_settings_fields run \<Longrightarrow> (k, TStr) \<in> set run_settings_fields \<Longrightarrow> truthy (obj_get run k) \<Longrightarrow> is_JStr (obj_get run k)"
  by (fastforce simp: fields_ok_def list_all_iff)

lemma distinct_defaults:
  "distinct (map fst (base_fields run @ memory_fields run @ [(''trace'', bool_field run ''trace'')]))"
  "distinct (map fst (base_fields run @ [(''trace'', bool_field run ''trace'')]))"
  by (simp_all add: base_fields_def memory_fields_def)

lemma num_value_typed: "(\<forall>w. (\<exists>z. P z \<and> JNum (Fin z) = w) \<longrightarrow> is_JNum w) \<longleftrightarrow> True"
  by auto

lemma profile_typed:
  "(\<forall>w. (case v of JStr s \<Rightarrow> given (js_trim s \<noteq> []) (JStr (js_trim s)) | _ \<Rightarrow> None) = Some w \<longrightarrow> is_JStr w) \<longleftrightarrow> True"
  by (cases v) auto

lemma base_fields_typed:
  assumes "fields_ok run_settings_fields run"
  shows "list_all (opt_typed workflow_defaults_fields) (base_fields run)"
proof -
  note s = truthy_str_field [OF assms]
  have "truthy (obj_get run k) \<Longrightarrow> is_JStr (obj_get run k)"
    if "k \<in> {''tools'', ''hostPolicy'', ''model'', ''summaryModel'', ''baseUrl'', ''apiKey'', ''proxyUrl''}" for k
    by (rule s) (use that in \<open>auto simp: run_settings_fields_def\<close>)
  then show ?thesis
    unfolding base_fields_def list.pred_inject opt_typed_def
    by (simp add: workflow_defaults_fields_def num_value_typed profile_typed)
qed

lemma memory_fields_typed:
  assumes "fields_ok run_settings_fields run"
  shows "list_all (opt_typed workflow_defaults_fields) (memory_fields run)"
proof -
  note s = truthy_str_field [OF assms]
  have "truthy (obj_get run k) \<Longrightarrow> is_JStr (obj_get run k)"
    if "k \<in> {''memoryContextMode'', ''memorySearchQuery'', ''memorySearchOrder''}" for k
    by (rule s) (use that in \<open>auto simp: run_settings_fields_def\<close>)
  then show ?thesis
    unfolding memory_fields_def list.pred_inject opt_typed_def
    by (simp add: workflow_defaults_fields_def num_value_typed)
qed

lemma buildWorkflowDefaults_fields:
  "fields_ok run_settings_fields run \<Longrightarrow> fields_ok workflow_defaults_fields (buildWorkflowDefaults run)"
proof -
  assume a: "fields_ok run_settings_fields run"
  have d: "distinct (map fst workflow_defaults_fields)" by (simp add: workflow_defaults_fields_def)
  have t: "map_of workflow_defaults_fields ''trace'' = Some TBool" by (simp add: workflow_defaults_fields_def)
  show ?thesis
  proof (cases "obj_get run ''tools'' = JStr ''host''")
    case True
    have "fields_ok workflow_defaults_fields (obj_of_opts (base_fields run @ memory_fields run @ [(''trace'', bool_field run ''trace'')]))"
      by (rule fields_ok_opts [OF distinct_defaults(1) d]) (simp add: base_fields_typed [OF a] memory_fields_typed [OF a] t opt_typed_def [of _ "(''trace'', x)" for x])
    with True show ?thesis by (simp add: buildWorkflowDefaults_def)
  next
    case False
    have "fields_ok workflow_defaults_fields (obj_of_opts (base_fields run @ [(''trace'', bool_field run ''trace'')]))"
      by (rule fields_ok_opts [OF distinct_defaults(2) d]) (simp add: base_fields_typed [OF a] t opt_typed_def [of _ "(''trace'', x)" for x])
    with False show ?thesis by (simp add: buildWorkflowDefaults_def)
  qed
qed

lemma parseNumber_min: "parseNumber raw lo = Some n \<Longrightarrow> lo \<le> n"
  by (auto simp: parseNumber_def Let_def split: if_splits jsnum.splits)

definition memory_keys :: "string list" where
  "memory_keys = ''host_policy'' # map fst (memory_fields [])"

lemma fst_memory_fields: "map fst (memory_fields run) = map fst (memory_fields [])"
  by (simp add: memory_fields_def)

lemma defaults_gated:
  assumes "obj_get run ''tools'' \<noteq> JStr ''host''" "k \<in> set memory_keys"
  shows "obj_get (buildWorkflowDefaults run) k = JUndef"
proof (cases "k = ''host_policy''")
  case True
  have "(''host_policy'', None) \<in> set (base_fields run @ [(''trace'', bool_field run ''trace'')])"
    using assms(1) by (simp add: base_fields_def)
  with True assms(1) show ?thesis
    using obj_get_opts [OF distinct_defaults(2), of "''host_policy''" None run] by (simp add: buildWorkflowDefaults_def)
next
  case False
  with assms(2) have "k \<in> set (map fst (memory_fields run))" by (auto simp: memory_keys_def fst_memory_fields [of run] simp del: set_map)
  then have "k \<notin> fst ` set (base_fields run @ [(''trace'', bool_field run ''trace'')])"
    using distinct_defaults(1) [of run] by (auto simp del: set_map simp flip: set_map)
  with assms(1) show ?thesis
    using obj_get_opts_other [OF distinct_defaults(2), of k run] by (simp add: buildWorkflowDefaults_def)
qed

lemma defaults_timeout:
  "obj_get (buildWorkflowDefaults run) ''timeout_ms'' = JNum n \<Longrightarrow> \<exists>r\<ge>1. n = Fin r"
proof -
  assume a: "obj_get (buildWorkflowDefaults run) ''timeout_ms'' = JNum n"
  have "(''timeout_ms'', num_field run ''timeoutMs'' 1) \<in> set (base_fields run)" by (simp add: base_fields_def)
  then have "obj_get (buildWorkflowDefaults run) ''timeout_ms'' =
      (case num_field run ''timeoutMs'' 1 of Some w \<Rightarrow> w | None \<Rightarrow> JUndef)"
    using obj_get_opts [OF distinct_defaults(1), of "''timeout_ms''" "num_field run ''timeoutMs'' 1" run]
      obj_get_opts [OF distinct_defaults(2), of "''timeout_ms''" "num_field run ''timeoutMs'' 1" run]
    by (simp add: buildWorkflowDefaults_def del: obj_get.simps)
  with a parseNumber_min show ?thesis by (auto split: option.splits)
qed

text \<open>
  The workflow defaults built from well-typed settings have, in every declared field, a
  value of the declared type or nothing. A host policy and memory options are sent
  only when the tools run on the host, and a timeout is at least one millisecond.
\<close>

lemma buildWorkflowDefaults_typed:
  assumes "fields_ok run_settings_fields run"
  shows "fields_ok workflow_defaults_fields (buildWorkflowDefaults run) \<and>
    (obj_get run ''tools'' \<noteq> JStr ''host'' \<longrightarrow>
       list_all (\<lambda>k. obj_get (buildWorkflowDefaults run) k = JUndef) memory_keys) \<and>
    (\<forall>n. obj_get (buildWorkflowDefaults run) ''timeout_ms'' = JNum n \<longrightarrow> (\<exists>r\<ge>1. n = Fin r))"
  using buildWorkflowDefaults_fields [OF assms] defaults_gated defaults_timeout
  by (simp add: list_all_iff)

section \<open>Tool limits read back\<close>

definition limits_text :: "(string \<times> nat) list \<Rightarrow> string" where
  "limits_text ls = js_join '','' (map (\<lambda>(tool, n). tool @ ''='' @ nat_str n) ls)"

definition clean_tool :: "string \<Rightarrow> bool" where
  "clean_tool t = (t \<noteq> [] \<and> trimmed t \<and> CHR ''='' \<notin> set t \<and> CHR '','' \<notin> set t \<and> CHR 0x0A \<notin> set t
     \<and> hd t \<noteq> CHR ''['' \<and> hd t \<noteq> CHR ''{'')"

lemma js_index_of_char_notin: "c \<notin> set s \<Longrightarrow> js_index_of (s @ c # r) [c] = Some (length s)"
  by (induction s) (auto simp: js_index_of_Cons js_starts_with_def)

lemma trimmed_limit: "clean_tool t \<Longrightarrow> trimmed (t @ ''='' @ nat_str n)"
proof -
  assume a: "clean_tool t"
  have "\<not> is_ws (last (nat_str n))" using digits_trimmed [of "nat_str n"] nat_str_digits [of n] by (simp add: trimmed_def)
  with a nat_str_digits [of n] show ?thesis by (auto simp: trimmed_def clean_tool_def)
qed

lemma limit_part_text:
  assumes "clean_tool t" "of_nat n < double_limit"
  shows "limit_part out (t @ ''='' @ nat_str n) = AList.update t (int n) out"
proof -
  have i: "js_index_of (t @ ''='' @ nat_str n) ''='' = Some (length t)"
    using assms(1) js_index_of_char_notin [of "CHR ''=''" t "nat_str n"] by (simp add: clean_tool_def)
  have "js_trim (nat_str n) = nat_str n" by (rule js_trim_id) (simp add: digits_trimmed nat_str_digits)
  with i assms show ?thesis
    by (simp add: limit_part_def clean_tool_def js_trim_id js_Number_str_nat_str num_of_rat_nat)
qed

lemma limit_chars: "clean_tool t \<Longrightarrow> c \<in> set (t @ ''='' @ nat_str n) \<Longrightarrow> \<not> list_sep c"
proof -
  assume a: "clean_tool t" "c \<in> set (t @ ''='' @ nat_str n)"
  have "js_digit c \<Longrightarrow> \<not> list_sep c" by (auto simp: js_digit_def list_sep_def)
  then show ?thesis using a nat_str_digits [of n] by (auto simp: clean_tool_def list_sep_def list_all_iff)
qed

lemma foldl_limit_part:
  "distinct (map fst ls) \<Longrightarrow> fst ` set ls \<inter> fst ` set out = {} \<Longrightarrow>
   list_all (\<lambda>(t, n). clean_tool t \<and> of_nat n < double_limit) ls \<Longrightarrow>
   foldl limit_part out (map (\<lambda>(t, n). t @ ''='' @ nat_str n) ls) = out @ map (\<lambda>(t, n). (t, int n)) ls"
proof (induction ls arbitrary: out)
  case (Cons l ls)
  obtain t n where l: "l = (t, n)" by (cases l)
  have "limit_part out (t @ ''='' @ nat_str n) = out @ [(t, int n)]"
    using Cons.prems l by (simp add: limit_part_text [simplified] update_notin)
  with Cons l show ?case by (auto simp: Cons.IH)
qed simp

text \<open>
  A list of tool limits written as \<^verbatim>\<open>tool=n,tool=n\<close> is read back exactly, in order, for
  tool names without separators.
\<close>

lemma parseToolCallLimits_text:
  assumes "ls \<noteq> []" "distinct (map fst ls)"
    and "list_all (\<lambda>(t, n). clean_tool t \<and> of_nat n < double_limit) ls"
  shows "parseToolCallLimits (JStr (limits_text ls)) = Some (map (\<lambda>(t, n). (t, int n)) ls)"
proof -
  let ?ps = "map (\<lambda>(tool, n). tool @ ''='' @ nat_str n) ls"
  have p: "trimmed p \<and> p \<noteq> [] \<and> (\<forall>c\<in>set p. \<not> list_sep c) \<and> hd p \<noteq> CHR ''['' \<and> hd p \<noteq> CHR ''{''" if ps: "p \<in> set ?ps" for p
  proof -
    from ps obtain t n where tn: "(t, n) \<in> set ls" "p = t @ ''='' @ nat_str n" by auto
    with assms(3) have c: "clean_tool t" by (auto simp: list_all_iff)
    then have "t \<noteq> []" "hd t \<noteq> CHR ''[''" "hd t \<noteq> CHR ''{''" by (simp_all add: clean_tool_def)
    with tn(2) trimmed_limit [OF c] limit_chars [OF c] show ?thesis by simp
  qed
  have pn: "?ps \<noteq> []" using assms(1) by simp
  have h: "hd ?ps \<in> set ?ps" "last ?ps \<in> set ?ps" using hd_in_set [OF pn] last_in_set [OF pn] by simp_all
  have ne: "limits_text ls \<noteq> []" unfolding limits_text_def using h(1) p by (intro js_join_ne) auto
  have hd: "hd (limits_text ls) = hd (hd ?ps)"
    unfolding limits_text_def using hd_js_join [of "hd ?ps" "'',''" "tl ?ps"] p [OF h(1)] pn by (metis list.collapse)
  have "trimmed (limits_text ls)"
    using ne hd p [OF h(1)] p [OF h(2)] last_js_join [of ?ps "'',''"] pn unfolding limits_text_def trimmed_def by auto
  then have tr: "js_trim (limits_text ls) = limits_text ls" by (rule js_trim_id)
  have st: "\<not> js_starts_with (limits_text ls) ''[''" "\<not> js_starts_with (limits_text ls) ''{''"
    using hd p [OF h(1)] ne by (cases "limits_text ls"; simp add: js_starts_with_def)+
  have sp: "js_split_run list_sep (limits_text ls) = ?ps"
    unfolding limits_text_def using pn p by (intro js_split_run_join) (auto simp: list_sep_def)
  have "map js_trim ?ps = ?ps" using p by (intro map_idI) (simp add: js_trim_id)
  then have parts: "filter (\<lambda>x. x \<noteq> []) (map js_trim ?ps) = ?ps" using p by (auto simp: filter_id_conv)
  have "foldl limit_part [] ?ps = map (\<lambda>(t, n). (t, int n)) ls"
    using foldl_limit_part [of ls "[]"] assms by simp
  with tr st sp parts ne assms(1) show ?thesis
    by (simp add: parseToolCallLimits_def js_coalesce_def nullish_def Let_def del: map_map)
qed

end
