(* ===== verification/Workflow_Composer.thy ===== *)
theory Workflow_Composer
  imports Workflow_Panel Job_Store
begin

text \<open>
  \<^verbatim>\<open>src/ui/src/components/workflowComposer/workflowComposerUtils.ts\<close>: the table of workflows the
  composer waits for, kept per scope in the page and in the server's preferences, and the
  workflow templates it offers. The labels of the templates are not modelled. An entry of the
  table comes from JSON and is a plain value, as in \<^verbatim>\<open>Job_Store\<close>; merging two tables is an
  instance of the locale \<open>lww_merge\<close> of that theory.
\<close>

section \<open>Awaited workflows\<close>

type_synonym wait_map = "jsval jsobj"

definition wait_state_fields :: schema where
  "wait_state_fields = [(''workflow_id'', TStr), (''started_unix_ms'', TNum), (''last_status'', TStr), (''updated_unix_ms'', TNum)]"

definition normalizeWaitStatePersisted :: "jsval \<Rightarrow> jsval option" where
  "normalizeWaitStatePersisted value =
     (if \<not> isUnknownRecord value then None
      else
        let workflowId = (case js_get value ''workflow_id'' of JStr s \<Rightarrow> js_trim s | _ \<Rightarrow> []) in
        if workflowId = [] then None
        else
          let startedUnixMs = (case js_get value ''started_unix_ms'' of JNum n \<Rightarrow> n | _ \<Rightarrow> NaN) in
          if \<not> is_finite startedUnixMs then None
          else Some (JObj
            [(''workflow_id'', JStr workflowId),
             (''started_unix_ms'', JNum startedUnixMs),
             (''last_status'', keep_typed TStr (js_get value ''last_status'')),
             (''updated_unix_ms'', keep_typed TNum (js_get value ''updated_unix_ms''))]))"

text \<open>\<^verbatim>\<open>!ts || now - ts <= staleMs\<close> for a finite clock.\<close>

definition is_fresh :: "rat \<Rightarrow> rat \<Rightarrow> jsnum \<Rightarrow> bool" where
  "is_fresh now staleMs ts =
     (case ts of
        Fin t \<Rightarrow> t = 0 \<or> now - t \<le> staleMs
      | PInf \<Rightarrow> True
      | NInf \<Rightarrow> False
      | NaN \<Rightarrow> True)"

definition waitStateTs :: "jsval \<Rightarrow> jsnum" where
  "waitStateTs value =
     (if \<not> truthy value then Fin 0
      else case js_get value ''updated_unix_ms'' of
             JNum n \<Rightarrow> n
           | _ \<Rightarrow> (case js_get value ''started_unix_ms'' of JNum n \<Rightarrow> n | _ \<Rightarrow> Fin 0))"

definition prune_entry :: "rat \<Rightarrow> rat \<Rightarrow> wait_map \<Rightarrow> string \<times> jsval \<Rightarrow> wait_map" where
  "prune_entry now staleMs out kv =
     (case kv of (key, value) \<Rightarrow>
       if \<not> truthy value \<or> \<not> typeof_object value then out
       else
         let ts = (case js_get value ''updated_unix_ms'' of
                     JNum n \<Rightarrow> n
                   | _ \<Rightarrow> (case js_get value ''started_unix_ms'' of JNum n \<Rightarrow> n | _ \<Rightarrow> Fin 0))
         in if is_fresh now staleMs ts then obj_put out key value else out)"

text \<open>\<open>None\<close> is the \<^verbatim>\<open>null\<close> or \<^verbatim>\<open>undefined\<close> table.\<close>

definition pruneWaitByScope :: "wait_map option \<Rightarrow> rat \<Rightarrow> rat \<Rightarrow> wait_map" where
  "pruneWaitByScope input now staleMs =
     (case input of
        None \<Rightarrow> []
      | Some m \<Rightarrow> foldl (prune_entry now staleMs) [] (js_entries m))"

definition extract_entry :: "wait_map \<Rightarrow> string \<times> jsval \<Rightarrow> wait_map" where
  "extract_entry out kv =
     (case normalizeWaitStatePersisted (snd kv) of
        Some normalized \<Rightarrow> obj_put out (fst kv) normalized
      | None \<Rightarrow> out)"

definition extractWorkflowWaitByScope :: "jsval \<Rightarrow> wait_map" where
  "extractWorkflowWaitByScope prefs =
     (if \<not> isUnknownRecord prefs then []
      else case js_get prefs ''workflow_wait'' of
             JObj raw \<Rightarrow> (case obj_get raw ''by_scope'' of
                 JObj byScope \<Rightarrow> foldl extract_entry [] (js_entries byScope)
               | _ \<Rightarrow> [])
           | _ \<Rightarrow> [])"

definition merge_wait :: "wait_map \<Rightarrow> string \<times> jsval \<Rightarrow> wait_map" where
  "merge_wait out kv =
     (let existing = obj_get out (fst kv) in
      if \<not> truthy existing \<or> num_le (waitStateTs existing) (waitStateTs (snd kv))
      then obj_put out (fst kv) (snd kv) else out)"

definition mergeWaitMaps :: "wait_map \<Rightarrow> wait_map \<Rightarrow> wait_map" where
  "mergeWaitMaps primary secondary = foldl merge_wait secondary (js_entries primary)"

definition same_wait :: "jsval \<Rightarrow> jsval \<Rightarrow> bool" where
  "same_wait av bv =
     (truthy bv \<and>
      strict_eq (js_get av ''workflow_id'') (js_get bv ''workflow_id'') \<and>
      num_eq (waitStateTs av) (waitStateTs bv) \<and>
      strict_eq (js_or (js_get av ''last_status'') (JStr [])) (js_or (js_get bv ''last_status'') (JStr [])))"

definition waitMapsEqual :: "wait_map \<Rightarrow> wait_map \<Rightarrow> bool" where
  "waitMapsEqual a b = same_entries same_wait a b"

section \<open>The table in the composer's state\<close>

text \<open>
  From \<^verbatim>\<open>useWorkflowComposerState.ts\<close>: what a successful load of the server's preferences does with
  the two tables (the merged table, and whether it is sent back), the entry the composer
  resumes, and the write that follows each status change. The clock is an argument; the
  deferred sending is the Boolean or the table in the result.
\<close>

definition WAIT_STALE_MS :: rat where
  "WAIT_STALE_MS = 7 * 24 * 60 * 60 * 1000"

definition loadServerWait :: "rat \<Rightarrow> jsval \<Rightarrow> wait_map \<Rightarrow> wait_map \<times> bool" where
  "loadServerWait now prefs waitByScope =
     (let remoteMap = pruneWaitByScope (Some (extractWorkflowWaitByScope prefs)) now WAIT_STALE_MS;
          localMap = pruneWaitByScope (Some waitByScope) now WAIT_STALE_MS;
          merged = mergeWaitMaps localMap remoteMap
      in (merged, \<not> waitMapsEqual merged remoteMap))"

record persisted_entry =
  pe_key :: string
  pe_value :: jsval
  pe_extra :: nat

definition resumable :: "jsval \<Rightarrow> bool" where
  "resumable rec = (truthy rec \<and> (case js_get rec ''workflow_id'' of JStr s \<Rightarrow> js_trim s \<noteq> [] | _ \<Rightarrow> False))"

definition resume_ts :: "jsval \<Rightarrow> jsnum" where
  "resume_ts v = (case js_get v ''updated_unix_ms'' of
      JNum n \<Rightarrow> n
    | _ \<Rightarrow> js_Number (js_coalesce (js_get v ''started_unix_ms'') (JNum (Fin 0))))"

definition scope_base :: "string \<Rightarrow> string" where
  "scope_base key = (case js_index_of key ''::'' of None \<Rightarrow> key | Some i \<Rightarrow> take i key)"

definition localPersistedEntry :: "rat \<Rightarrow> wait_map \<Rightarrow> string \<Rightarrow> persisted_entry option" where
  "localPersistedEntry now waitByScope waitScopeKey =
     (let fresh = pruneWaitByScope (Some waitByScope) now WAIT_STALE_MS;
          rec = obj_get fresh waitScopeKey in
      if resumable rec then Some \<lparr>pe_key = waitScopeKey, pe_value = rec, pe_extra = 0\<rparr>
      else
        let basePrefix = scope_base waitScopeKey @ ''::'';
            matches = filter (\<lambda>e. js_starts_with (fst e) basePrefix \<and> resumable (snd e)) (js_entries fresh)
        in case js_sort (\<lambda>a b. \<not> num_lt (resume_ts (snd a)) (resume_ts (snd b))) matches of
             [] \<Rightarrow> None
           | m # ms \<Rightarrow> Some \<lparr>pe_key = fst m, pe_value = snd m, pe_extra = length matches - 1\<rparr>)"

definition serverPersistedEntry :: "rat \<Rightarrow> wait_map \<Rightarrow> string \<Rightarrow> persisted_entry option" where
  "serverPersistedEntry now serverWaitByScope waitServerScopeKey =
     (if waitServerScopeKey = [] then None
      else
        let fresh = pruneWaitByScope (Some serverWaitByScope) now WAIT_STALE_MS;
            rec = obj_get fresh waitServerScopeKey in
        if resumable rec
        then Some \<lparr>pe_key = waitServerScopeKey, pe_value = rec, pe_extra = length (js_keys fresh) - 1\<rparr>
        else None)"

text \<open>\<open>next\<close> is the new entry or \<^verbatim>\<open>null\<close>; an entry with an empty workflow identifier counts as none.\<close>

definition put_or_del :: "wait_map \<Rightarrow> string \<Rightarrow> jsval \<Rightarrow> wait_map" where
  "put_or_del out key nxt =
     (if truthy nxt \<and> truthy (js_get nxt ''workflow_id'') then obj_put out key nxt else obj_del out key)"

definition write_local :: "string \<Rightarrow> string \<Rightarrow> jsval \<Rightarrow> wait_map \<Rightarrow> wait_map" where
  "write_local waitPersistedKey waitScopeKey nxt prev =
     put_or_del (if waitPersistedKey \<noteq> [] \<and> waitPersistedKey \<noteq> waitScopeKey then obj_del prev waitPersistedKey else prev)
       waitScopeKey nxt"

definition write_server :: "rat \<Rightarrow> string \<Rightarrow> jsval \<Rightarrow> wait_map \<Rightarrow> wait_map" where
  "write_server now waitServerScopeKey nxt prev =
     pruneWaitByScope (Some (put_or_del prev waitServerScopeKey nxt)) now WAIT_STALE_MS"

section \<open>Templates\<close>

definition request_task :: "string \<Rightarrow> string list \<Rightarrow> string \<Rightarrow> jsval" where
  "request_task taskId deps prompt =
     JObj ([(''task_id'', JStr taskId)] @ depends_on deps @
           [(''request'', JObj [(''prompt'', JStr prompt), (''no_session'', JBool True)])])"

definition buildLlmDagTemplate :: "jsval jsobj \<Rightarrow> bool \<Rightarrow> jsval jsobj" where
  "buildLlmDagTemplate defaults allowInlineKeys =
     [(''tasks'', JArr
        [request_task ''A'' [] ''Agent A: draft a short plan for the goal.'',
         request_task ''B'' [''A'']
           ''Agent B: critique the plan from A and suggest improvements. Plan: ${task.A.assistant_text}'',
         request_task ''C'' [''A'']
           ''Agent C: list risks and edge cases for the plan. Plan: ${task.A.assistant_text}''])]
     @ (if isNonEmptyObject (JObj defaults) then [(''defaults'', JObj defaults)] else [])
     @ (if allowInlineKeys \<and> truthy (obj_get defaults ''api_key'') then [(''allow_inline_api_keys'', JBool True)] else [])"

record template_opts =
  to_timeoutMs :: "rat option"
  to_pollMs :: "rat option"
  to_inputGoal :: "string option"

definition NO_OPTS :: template_opts where
  "NO_OPTS = \<lparr>to_timeoutMs = None, to_pollMs = None, to_inputGoal = None\<rparr>"

definition template_targets :: "string list \<Rightarrow> (string \<times> string) list" where
  "template_targets targets =
     (let normTargets = normalizeTargets (Some targets) in
      if normTargets \<noteq> [] then map (\<lambda>(idx, base). (''a'' @ nat_str (idx + 1), base)) (enumerate 0 normTargets)
      else [(''a1'', ''http://127.0.0.1:8123'')])"

definition remote_workflow :: "jsval jsobj \<Rightarrow> string \<Rightarrow> bool \<Rightarrow> jsval" where
  "remote_workflow defaults inputGoal inlineKeys =
     JObj ((if isNonEmptyObject (JObj defaults) then [(''defaults'', JObj defaults)] else [])
       @ [(''tasks'', JArr [request_task ''RUN'' []
            (if inputGoal \<noteq> [] then ''Remote agent: propose an approach for the goal: ${input.goal}''
             else ''Remote agent: propose an approach for the goal.'')])]
       @ (if inlineKeys then [(''allow_inline_api_keys'', JBool True)] else []))"

definition buildAgentParallelTemplate ::
  "jsval jsobj \<Rightarrow> string list \<Rightarrow> string option \<Rightarrow> bool \<Rightarrow> template_opts \<Rightarrow> jsval jsobj" where
  "buildAgentParallelTemplate defaults targets bearerEnv allowInlineKeys opts =
     (let targetEntries = template_targets targets;
          inputGoal = opt_or (to_inputGoal opts) [];
          inlineKeys = (allowInlineKeys \<and> truthy (obj_get defaults ''api_key''))
      in (if inputGoal \<noteq> [] then [(''inputs'', JObj [(''goal'', JStr inputGoal)])] else [])
         @ [(''tasks'', JArr [JObj
             [(''task_id'', JStr ''COLLAB''),
              (''kind'', JStr ''agentd_parallel''),
              (''agentd_parallel'', JObj
                [(''targets'', JArr (map (\<lambda>(i, base). JObj [(''id'', JStr i), (''base_url'', JStr base)]) targetEntries)),
                 (''agentd_call'', JObj
                   ([(''op'', JStr ''workflow_submit_and_wait''),
                     (''timeout_ms'', JNum (Fin (opt_or (to_timeoutMs opts) 20000))),
                     (''poll_ms'', JNum (Fin (opt_or (to_pollMs opts) 50))),
                     (''include_results'', JBool True),
                     (''include_tasks'', JBool False)]
                    @ (if opt_or bearerEnv [] \<noteq> [] then [(''bearer_env'', JStr (opt_or bearerEnv []))] else [])
                    @ [(''workflow'', remote_workflow defaults inputGoal inlineKeys)])),
                 (''aggregate'', JObj
                   [(''mode'', JStr ''first_ok''),
                    (''task_ids'', JArr (map (\<lambda>(i, base). JStr (''COLLAB:'' @ i)) targetEntries)),
                    (''ok_pointer'', JStr ''/ok''),
                    (''value_pointer'', JStr ''/agentd/final/result/results_by_task/RUN/assistant_text'')])])]])]
         @ (if inlineKeys then [(''allow_inline_api_keys'', JBool True)] else []))"

definition buildAgentParallelDemoTemplate ::
  "jsval jsobj \<Rightarrow> string list \<Rightarrow> string option \<Rightarrow> bool \<Rightarrow> jsval jsobj" where
  "buildAgentParallelDemoTemplate defaults targets bearerEnv allowInlineKeys =
     buildAgentParallelTemplate defaults targets bearerEnv allowInlineKeys
       \<lparr>to_timeoutMs = Some 120000, to_pollMs = Some 200,
        to_inputGoal = Some ''Draft a collaborative plan for a multi-agent workflow graph demo.''\<rparr>"

text \<open>The \<^verbatim>\<open>try\<close> block around the graph builder: \<^verbatim>\<open>String(err)\<close> of the errors it can throw.\<close>

fun graph_error_text :: "graph_error \<Rightarrow> string" where
  "graph_error_text No_nodes = ''Error: Graph has no nodes.''"
| "graph_error_text No_valid_nodes = ''Error: Graph has no valid nodes.''"
| "graph_error_text Invalid_JSON = ''Error: Invalid JSON''"
| "graph_error_text No_tasks = ''Error: No tasks found in workflow JSON.''"
| "graph_error_text No_supported_tasks = ''Error: No supported tasks found in workflow JSON.''"
| "graph_error_text Out_of_fuel = []"

record WorkflowComposerGraphBuild =
  gb_result :: "GraphBuildResult option"
  gb_error :: "string option"

definition buildGraphWorkflow ::
  "(string \<Rightarrow> string \<Rightarrow> bool) \<Rightarrow> GraphState \<Rightarrow> jsval jsobj \<Rightarrow> bool \<Rightarrow> string list \<Rightarrow> string option \<Rightarrow> WorkflowComposerGraphBuild" where
  "buildGraphWorkflow collate graphState defaults allowInlineKeys targets bearerEnv =
     (case buildWorkflowFromGraph collate graphState
             \<lparr>bo_defaults = defaults, bo_allowInlineKeys = allowInlineKeys, bo_targets = targets, bo_bearerEnv = bearerEnv\<rparr> of
        Inr result \<Rightarrow> \<lparr>gb_result = Some result, gb_error = None\<rparr>
      | Inl err \<Rightarrow> \<lparr>gb_result = None, gb_error = Some (graph_error_text err)\<rparr>)"

section \<open>The table of awaited workflows\<close>

definition wait_entry :: "jsval \<Rightarrow> bool" where
  "wait_entry v = (isUnknownRecord v \<and> is_JStr (js_get v ''workflow_id'') \<and>
     (is_JStr (js_get v ''last_status'') \<or> js_get v ''last_status'' = JUndef) \<and> waitStateTs v \<noteq> NaN)"

definition wait_table :: "wait_map \<Rightarrow> bool" where
  "wait_table m = (wf_obj m \<and> list_all (\<lambda>e. wait_entry (snd e)) m)"

lemma wait_entry_truthy: "wait_entry v \<Longrightarrow> truthy v"
  by (auto simp: wait_entry_def)

lemma wait_table_entry: "wait_table m \<Longrightarrow> map_of m k = Some v \<Longrightarrow> wait_entry v"
  by (auto simp: wait_table_def list_all_iff dest!: map_of_SomeD)

lemma map_of_merge_wait:
  "map_of (merge_wait m (k', v)) k =
     (if k = k' \<and> (\<not> truthy (obj_get m k) \<or> num_le (waitStateTs (obj_get m k)) (waitStateTs v))
      then Some v else map_of m k)"
  by (auto simp: merge_wait_def Let_def update_conv')

lemma wait_table_merge:
  assumes "wait_table a" "wait_table b"
  shows "wait_table (mergeWaitMaps b a)"
proof -
  have "wait_table m \<Longrightarrow> list_all (\<lambda>e. wait_entry (snd e)) es \<Longrightarrow> wait_table (foldl merge_wait m es)" for m es
    by (induction es arbitrary: m) (simp_all add: merge_wait_def Let_def wait_table_def distinct_update list_all_put)
  from this [of a "js_entries b"] assms show ?thesis
    by (simp add: mergeWaitMaps_def wait_table_def list_all_iff)
qed

lemma map_of_mergeWaitMaps:
  assumes "wait_table a" "wait_table b"
  shows "map_of (mergeWaitMaps b a) k =
    (case map_of b k of
       None \<Rightarrow> map_of a k
     | Some y \<Rightarrow> (case map_of a k of
         None \<Rightarrow> Some y
       | Some x \<Rightarrow> if num_le (waitStateTs x) (waitStateTs y) then Some y else Some x))"
proof -
  have wf: "wf_obj b" using assms(2) by (simp add: wait_table_def)
  have "map_of (mergeWaitMaps b a) k = (case map_of b k of None \<Rightarrow> map_of a k | Some v \<Rightarrow> map_of (merge_wait a (k, v)) k)"
    unfolding mergeWaitMaps_def
    by (subst map_of_foldl_keyed) (auto simp: map_of_merge_wait obj_get.simps wf)
  then show ?thesis
    using wait_table_entry [OF assms(1)] wait_entry_truthy
    by (auto simp: map_of_merge_wait obj_get.simps split: option.split)
qed

interpretation awaited: lww_merge waitStateTs map_of wait_table "\<lambda>a b. mergeWaitMaps b a"
proof
  show "wait_table m \<Longrightarrow> map_of m k = Some e \<Longrightarrow> waitStateTs e \<noteq> NaN" for m k e
    using wait_table_entry [of m k e] by (simp add: wait_entry_def)
qed (simp_all add: wait_table_merge map_of_mergeWaitMaps)

definition wait_view :: "jsval \<Rightarrow> jsval \<times> jsnum \<times> jsval" where
  "wait_view v = (js_get v ''workflow_id'', waitStateTs v, js_or (js_get v ''last_status'') (JStr []))"

lemma same_wait_iff: "wait_entry a \<Longrightarrow> wait_entry b \<Longrightarrow> same_wait a b \<longleftrightarrow> wait_view a = wait_view b"
  by (cases "js_get a ''workflow_id''"; cases "js_get b ''workflow_id''")
    (auto simp: wait_entry_def same_wait_def wait_view_def strict_eq_or_str num_eq_def)

interpretation wait_comparison: entry_comparison same_wait wait_view wait_entry
  by unfold_locales (simp_all add: same_wait_iff, simp add: same_wait_def)

lemma map_of_prune:
  assumes "wf_obj m"
  shows "map_of (pruneWaitByScope (Some m) now stale) k =
    (case map_of m k of
       None \<Rightarrow> None
     | Some v \<Rightarrow> if truthy v \<and> typeof_object v \<and> is_fresh now stale (waitStateTs v) then Some v else None)"
  unfolding pruneWaitByScope_def option.case
  by (subst map_of_foldl_keyed)
    (auto simp: prune_entry_def update_conv' waitStateTs_def assms split: option.split)

lemma wf_prune [simp]: "wf_obj (pruneWaitByScope m now stale)"
proof -
  have "wf_obj ps \<Longrightarrow> wf_obj (foldl (prune_entry now stale) ps es)" for ps es
    by (induction es arbitrary: ps) (auto simp: prune_entry_def Let_def distinct_update)
  then show ?thesis by (cases m) (simp_all add: pruneWaitByScope_def)
qed

lemma prune_table: "wait_table m \<Longrightarrow> wait_table (pruneWaitByScope (Some m) now stale)"
proof -
  assume a: "wait_table m"
  have "wait_entry v" if "(k, v) \<in> set (pruneWaitByScope (Some m) now stale)" for k v
  proof -
    have "map_of (pruneWaitByScope (Some m) now stale) k = Some v" using that by (simp add: map_of_is_SomeI)
    with a have "map_of m k = Some v"
      by (simp add: map_of_prune wait_table_def del: map_of_eq_Some_iff split: option.splits if_splits)
    then show ?thesis by (rule wait_table_entry [OF a])
  qed
  then show ?thesis by (auto simp: wait_table_def list_all_iff)
qed

lemma prune_table_lookup:
  "wait_table m \<Longrightarrow> map_of (pruneWaitByScope (Some m) now stale) k =
    (case map_of m k of Some v \<Rightarrow> if is_fresh now stale (waitStateTs v) then Some v else None | None \<Rightarrow> None)"
proof -
  assume a: "wait_table m"
  have "truthy v \<and> typeof_object v" if "map_of m k = Some v" for v
    using wait_table_entry [OF a that] by (auto simp: wait_entry_def typeof_object_def)
  moreover have "wf_obj m" using a by (simp add: wait_table_def)
  ultimately show ?thesis by (cases "map_of m k") (simp_all add: map_of_prune del: map_of_eq_Some_iff)
qed

lemma wf_extract: "wf_obj (extractWorkflowWaitByScope prefs)"
proof -
  have "wf_obj ps \<Longrightarrow> wf_obj (foldl extract_entry ps es)" for ps es
    by (induction es arbitrary: ps) (auto simp: extract_entry_def distinct_update split: option.split)
  then show ?thesis by (simp add: extractWorkflowWaitByScope_def split: jsval.split)
qed

text \<open>Numbers read from JSON are never \<^verbatim>\<open>NaN\<close>; then the extracted table is well formed.\<close>

definition scope_entries :: "jsval \<Rightarrow> jsval jsobj" where
  "scope_entries prefs = safeObject (js_get (js_get prefs ''workflow_wait'') ''by_scope'')"

definition no_nan_stamp :: "jsval \<Rightarrow> bool" where
  "no_nan_stamp prefs = list_all (\<lambda>e. js_get (snd e) ''updated_unix_ms'' \<noteq> JNum NaN) (scope_entries prefs)"

lemma normalized_entry:
  "normalizeWaitStatePersisted v = Some w \<Longrightarrow> js_get v ''updated_unix_ms'' \<noteq> JNum NaN \<Longrightarrow> wait_entry w"
  by (cases "js_get v ''updated_unix_ms''")
    (auto simp: normalizeWaitStatePersisted_def Let_def wait_entry_def waitStateTs_def keep_typed_def is_finite_iff split: if_splits)

lemma extract_eq: "extractWorkflowWaitByScope prefs = foldl extract_entry [] (js_entries (scope_entries prefs))"
proof (cases prefs)
  case (JObj ps)
  then show ?thesis
    by (cases "obj_get ps ''workflow_wait''")
      (auto simp: extractWorkflowWaitByScope_def scope_entries_def js_entries_def array_index_def js_digit_def split: jsval.split)
qed (simp_all add: extractWorkflowWaitByScope_def scope_entries_def js_entries_def array_index_def js_digit_def)

lemma extract_table:
  assumes "no_nan_stamp prefs"
  shows "wait_table (extractWorkflowWaitByScope prefs)"
proof -
  have "list_all (\<lambda>e. wait_entry (snd e)) ps \<Longrightarrow> list_all (\<lambda>e. js_get (snd e) ''updated_unix_ms'' \<noteq> JNum NaN) es \<Longrightarrow>
      list_all (\<lambda>e. wait_entry (snd e)) (foldl extract_entry ps es)" for ps es
    by (induction es arbitrary: ps) (auto simp: extract_entry_def list_all_put normalized_entry split: option.split)
  from this [of "[]" "js_entries (scope_entries prefs)"] assms have "list_all (\<lambda>e. wait_entry (snd e)) (extractWorkflowWaitByScope prefs)"
    by (simp add: extract_eq no_nan_stamp_def list_all_iff)
  with wf_extract show ?thesis by (simp add: wait_table_def)
qed



section \<open>The templates\<close>

lemma imported_tasks:
  assumes "obj_get spec ''tasks'' = JArr ts"
    and "foldl import_task \<lparr>im_nodes = [], im_edges = [], im_warnings = []\<rparr> ts = im" "im_nodes im \<noteq> []"
  shows "\<exists>nodes. import_workflow collate (JObj spec)
      = Inr \<lparr>ir_state = \<lparr>gs_nodes = nodes, gs_edges = im_edges im\<rparr>, ir_warnings = im_warnings im\<rparr> \<and>
    mset (map unplaced nodes) = mset (map unplaced (im_nodes im))"
proof -
  have "ts \<noteq> []" using assms(2,3) by auto
  obtain out where out: "layoutGraph collate (im_nodes im) (im_edges im) = Some out" using layoutGraph_total by blast
  have "import_workflow collate (JObj spec)
      = Inr \<lparr>ir_state = \<lparr>gs_nodes = out, gs_edges = im_edges im\<rparr>, ir_warnings = im_warnings im\<rparr>"
    using assms \<open>ts \<noteq> []\<close> out by (simp add: import_workflow_def record_of_def)
  with layout_mset [OF out] show ?thesis by blast
qed

definition llm_node :: "string \<Rightarrow> string \<Rightarrow> GraphNode" where
  "llm_node i p = \<lparr>gn_id = i, gn_kind = Llm, gn_x = Fin 0, gn_y = Fin 0, gn_prompt = p, gn_targets = None\<rparr>"

definition collab_node :: "string \<Rightarrow> string list \<Rightarrow> GraphNode" where
  "collab_node p ts = \<lparr>gn_id = ''COLLAB'', gn_kind = Agent_parallel, gn_x = Fin 0, gn_y = Fin 0, gn_prompt = p, gn_targets = Some ts\<rparr>"

lemma unplaced_nodes [simp]: "unplaced (llm_node i p) = llm_node i p" "unplaced (collab_node q ts) = collab_node q ts"
  by (simp_all add: unplaced_def llm_node_def collab_node_def)

lemma import_request_task:
  assumes "trimmed i" "i \<noteq> []" "trimmed p" "p \<noteq> []" "list_all (\<lambda>d. trimmed d \<and> d \<noteq> []) deps"
  shows "import_task im (request_task i deps p) =
    im\<lparr>im_nodes := im_nodes im @ [llm_node i p], im_edges := im_edges im @ map (\<lambda>d. \<lparr>ge_from = d, ge_to = i\<rparr>) deps\<rparr>"
proof -
  have "filter (\<lambda>d. d \<noteq> []) (map js_trim deps) = deps"
    using assms(5) by (simp add: list_all_iff js_trim_id map_idI filter_id_conv)
  then have "filter (\<lambda>d. d \<noteq> []) (map (\<lambda>d. js_trim (text_of (JStr d))) deps) = deps" by simp
  with assms show ?thesis
    by (simp add: import_task_def request_task_def Let_def js_trim_id record_of_def llm_node_def comp_def del: filter_map)
qed

lemma literal_trimmed:
  "trimmed ''Agent A: draft a short plan for the goal.''"
  "trimmed ''Agent B: critique the plan from A and suggest improvements. Plan: ${task.A.assistant_text}''"
  "trimmed ''Agent C: list risks and edge cases for the plan. Plan: ${task.A.assistant_text}''"
  "trimmed ''Remote agent: propose an approach for the goal: ${input.goal}''"
  "trimmed ''Remote agent: propose an approach for the goal.''"
  "trimmed ''A''" "trimmed ''B''" "trimmed ''C''"
  by (simp_all add: trimmed_def is_ws_def)

lemma import_template_target:
  "trimmed b \<Longrightarrow> b \<noteq> [] \<Longrightarrow> parse_target (out, ws) (JObj [(''id'', JStr i), (''base_url'', JStr b)]) = (out @ [b], ws)"
  by (simp add: parse_target_def js_trim_id)

lemma import_template_targets:
  "list_all (\<lambda>(i, b). trimmed b \<and> b \<noteq> []) es \<Longrightarrow>
   foldl parse_target (out, ws) (map (\<lambda>(i, base). JObj [(''id'', JStr i), (''base_url'', JStr base)]) es) = (out @ map snd es, ws)"
  by (induction es arbitrary: out) (auto simp: import_template_target)

lemma template_targets_bases:
  "map snd (template_targets ts) = (if normalizeTargets (Some ts) = [] then [''http://127.0.0.1:8123''] else normalizeTargets (Some ts))"
proof -
  have "map snd (map (\<lambda>(idx, base). (''a'' @ nat_str (idx + 1), base)) (enumerate k xs)) = xs" for k and xs :: "string list"
    by (induction xs arbitrary: k) simp_all
  then show ?thesis by (simp add: template_targets_def Let_def)
qed

lemma template_targets_clean: "list_all (\<lambda>(i, b). trimmed b \<and> b \<noteq> []) (template_targets ts)"
proof -
  have "trimmed ''http://127.0.0.1:8123''" by (simp add: trimmed_def is_ws_def)
  then have "trimmed b \<and> b \<noteq> []" if "b \<in> set (map snd (template_targets ts))" for b
    using that unfolding template_targets_bases by (auto simp: normalizeTargets_def split: if_splits)
  then show ?thesis by (force simp: list_all_iff)
qed

definition remote_prompt :: "template_opts \<Rightarrow> string" where
  "remote_prompt opts = (if opt_or (to_inputGoal opts) [] \<noteq> []
     then ''Remote agent: propose an approach for the goal: ${input.goal}'' else ''Remote agent: propose an approach for the goal.'')"

lemma import_collab_task:
  "\<exists>task. obj_get (buildAgentParallelTemplate d ts b a opts) ''tasks'' = JArr [task] \<and> schedulable_task task \<and>
     import_task im task = im\<lparr>im_nodes := im_nodes im @ [collab_node (remote_prompt opts) (map snd (template_targets ts))]\<rparr>"
  by (simp add: buildAgentParallelTemplate_def Let_def import_task_def schedulable_task_def record_of_def
      parseAgentParallelTargets_def import_template_targets [OF template_targets_clean] parseAgentParallelPrompt_def
      remote_workflow_def request_task_def remote_prompt_def collab_node_def js_trim_id literal_trimmed trimmed_def is_ws_def str_or_def)

lemma llm_tasks:
  "\<exists>t1 t2 t3. obj_get (buildLlmDagTemplate d a) ''tasks'' = JArr [t1, t2, t3] \<and> list_all schedulable_task [t1, t2, t3] \<and>
     (\<exists>p1 p2 p3. foldl import_task \<lparr>im_nodes = [], im_edges = [], im_warnings = []\<rparr> [t1, t2, t3] =
        \<lparr>im_nodes = [llm_node ''A'' p1, llm_node ''B'' p2, llm_node ''C'' p3],
         im_edges = [\<lparr>ge_from = ''A'', ge_to = ''B''\<rparr>, \<lparr>ge_from = ''A'', ge_to = ''C''\<rparr>], im_warnings = []\<rparr>)"
proof -
  have "schedulable_task (request_task i deps p)" if "i \<noteq> []" for i deps p
    using that by (simp add: schedulable_task_def request_task_def)
  then show ?thesis by (simp add: buildLlmDagTemplate_def import_request_task literal_trimmed) blast
qed

lemma template_defaults:
  "obj_get (buildLlmDagTemplate d a) ''defaults'' \<in> {JUndef, JObj d}"
  "obj_get (buildAgentParallelTemplate d ts b a opts) ''defaults'' = JUndef"
  by (simp_all add: buildLlmDagTemplate_def buildAgentParallelTemplate_def Let_def)

lemma template_inline_keys:
  "obj_get (buildLlmDagTemplate d a) ''allow_inline_api_keys'' = (if a \<and> truthy (obj_get d ''api_key'') then JBool True else JUndef)"
  "obj_get (buildAgentParallelTemplate d ts b a opts) ''allow_inline_api_keys'' = (if a \<and> truthy (obj_get d ''api_key'') then JBool True else JUndef)"
  by (simp_all add: buildLlmDagTemplate_def buildAgentParallelTemplate_def Let_def)

lemma llm_template_opens:
  "\<exists>r p1 p2 p3. import_workflow collate (JObj (buildLlmDagTemplate d a)) = Inr r \<and> ir_warnings r = [] \<and>
      mset (map unplaced (gs_nodes (ir_state r))) = mset [llm_node ''A'' p1, llm_node ''B'' p2, llm_node ''C'' p3] \<and>
      gs_edges (ir_state r) = [\<lparr>ge_from = ''A'', ge_to = ''B''\<rparr>, \<lparr>ge_from = ''A'', ge_to = ''C''\<rparr>]"
proof -
  obtain t1 t2 t3 p1 p2 p3 where l: "obj_get (buildLlmDagTemplate d a) ''tasks'' = JArr [t1, t2, t3]"
    "foldl import_task \<lparr>im_nodes = [], im_edges = [], im_warnings = []\<rparr> [t1, t2, t3] =
        \<lparr>im_nodes = [llm_node ''A'' p1, llm_node ''B'' p2, llm_node ''C'' p3],
         im_edges = [\<lparr>ge_from = ''A'', ge_to = ''B''\<rparr>, \<lparr>ge_from = ''A'', ge_to = ''C''\<rparr>], im_warnings = []\<rparr>"
    using llm_tasks [of d a] by blast
  from imported_tasks [OF l, of collate] show ?thesis by fastforce
qed

lemma collab_template_opens:
  "\<exists>r. import_workflow collate (JObj (buildAgentParallelTemplate d ts b a opts)) = Inr r \<and> ir_warnings r = [] \<and>
      map unplaced (gs_nodes (ir_state r)) = [collab_node (remote_prompt opts)
        (if normalizeTargets (Some ts) = [] then [''http://127.0.0.1:8123''] else normalizeTargets (Some ts))] \<and>
      gs_edges (ir_state r) = []"
proof -
  let ?n = "collab_node (remote_prompt opts) (map snd (template_targets ts))"
  obtain t where t: "obj_get (buildAgentParallelTemplate d ts b a opts) ''tasks'' = JArr [t]"
    "foldl import_task \<lparr>im_nodes = [], im_edges = [], im_warnings = []\<rparr> [t] = \<lparr>im_nodes = [?n], im_edges = [], im_warnings = []\<rparr>"
    using import_collab_task [of d ts b a opts "\<lparr>im_nodes = [], im_edges = [], im_warnings = []\<rparr>"] by auto
  obtain nodes where "import_workflow collate (JObj (buildAgentParallelTemplate d ts b a opts))
      = Inr \<lparr>ir_state = \<lparr>gs_nodes = nodes, gs_edges = []\<rparr>, ir_warnings = []\<rparr>" "mset (map unplaced nodes) = mset [?n]"
    using imported_tasks [OF t, of collate] by auto
  then show ?thesis unfolding template_targets_bases by (auto simp del: mset_map)
qed

lemma templates_schedulable:
  "coerceScheduleSpec (JObj (buildLlmDagTemplate d a)) = Some (JObj (buildLlmDagTemplate d a))"
  "coerceScheduleSpec (JObj (buildAgentParallelTemplate d ts b a opts)) = Some (JObj (buildAgentParallelTemplate d ts b a opts))"
  using llm_tasks [of d a] import_collab_task [of d ts b a opts] template_defaults(1) [of d a]
  by (fastforce simp: coerceScheduleSpec_iff list_all_iff template_defaults(2))+

text \<open>
  Every template the composer offers can be scheduled as it is and opens in the graph editor
  without a warning: the plan template as A followed by B and C, the collaboration template as one node
  whose targets are the configured ones (or the local placeholder); and a template asks the
  server to accept inline keys exactly when that is allowed and there is a key.
\<close>

lemma templates_open:
  "(\<exists>r p1 p2 p3. import_workflow collate (JObj (buildLlmDagTemplate d a)) = Inr r \<and> ir_warnings r = [] \<and>
      mset (map unplaced (gs_nodes (ir_state r))) = mset [llm_node ''A'' p1, llm_node ''B'' p2, llm_node ''C'' p3] \<and>
      gs_edges (ir_state r) = [\<lparr>ge_from = ''A'', ge_to = ''B''\<rparr>, \<lparr>ge_from = ''A'', ge_to = ''C''\<rparr>]) \<and>
   (\<exists>r. import_workflow collate (JObj (buildAgentParallelTemplate d ts b a opts)) = Inr r \<and> ir_warnings r = [] \<and>
      map unplaced (gs_nodes (ir_state r)) = [collab_node (remote_prompt opts)
        (if normalizeTargets (Some ts) = [] then [''http://127.0.0.1:8123''] else normalizeTargets (Some ts))] \<and>
      gs_edges (ir_state r) = []) \<and>
   list_all (\<lambda>w. coerceScheduleSpec (JObj w) = Some (JObj w) \<and>
       obj_get w ''allow_inline_api_keys'' = (if a \<and> truthy (obj_get d ''api_key'') then JBool True else JUndef))
     [buildLlmDagTemplate d a, buildAgentParallelTemplate d ts b a opts, buildAgentParallelDemoTemplate d ts b a]"
  using llm_template_opens [of collate d a] collab_template_opens [of collate d ts b a opts]
  by (simp add: templates_schedulable template_inline_keys buildAgentParallelDemoTemplate_def)

end
