(* ===== verification/Connection_Profiles.thy ===== *)
theory Connection_Profiles
  imports Session_Scope Json_Utils
begin

text \<open>
  \<^verbatim>\<open>src/ui/src/hooks/uiSettingsProfiles.ts\<close>: connection profiles, their secrets and their copy in the
  server's preferences. A profile comes out of local storage and is an object of plain
  values; \<open>normalizeProfile\<close> gives it its declared shape. What the code takes from the
  browser is a parameter: \<open>url_parts\<close> is \<^verbatim>\<open>new URL(s)\<close> read as host name and port, \<open>None\<close> where
  it throws; \<open>page_protocol\<close> is \<^verbatim>\<open>window.location.protocol\<close>, \<open>None\<close> without a window; a new
  identifier from \<^verbatim>\<open>generateProfileId()\<close> is an argument.
\<close>

section \<open>Addresses and names\<close>

record browser =
  url_parts :: "string \<Rightarrow> (string \<times> string) option"
  page_protocol :: "string option"

definition http_scheme :: "string \<Rightarrow> bool" where
  "http_scheme b = (js_starts_with (js_lower b) ''http://'' \<or> js_starts_with (js_lower b) ''https://'')"

definition host_part :: "string \<Rightarrow> string" where
  "host_part hostPart =
     (if js_starts_with hostPart ''['' \<and> js_includes hostPart '']''
      then (case js_index_of hostPart '']'' of Some i \<Rightarrow> drop 1 (take i hostPart) | None \<Rightarrow> [])
      else hd (js_split (CHR '':'') hostPart))"

definition loopback_host :: "string \<Rightarrow> bool" where
  "loopback_host h = (let hostLower = js_lower h in
     hostLower = ''localhost'' \<or> hostLower = ''::1'' \<or> js_starts_with hostLower ''127.'')"

definition normalizeHttpBase :: "browser \<Rightarrow> string \<Rightarrow> string \<Rightarrow> string \<Rightarrow> string" where
  "normalizeHttpBase env raw fallback defaultScheme =
     (let b = js_trim raw in
      if length b = 0 then fallback
      else if http_scheme b then strip_slashes b
      else
        let host = host_part (hd (js_split (CHR ''/'') b));
            scheme = (if loopback_host host then
                        (case page_protocol env of
                           None \<Rightarrow> defaultScheme
                         | Some proto \<Rightarrow>
                             if js_lower proto = ''http:'' \<or> js_lower proto = ''https:''
                             then butlast (js_lower proto) else defaultScheme)
                      else defaultScheme)
        in strip_slashes (scheme @ ''://'' @ b))"

definition hostLabel :: "browser \<Rightarrow> string \<Rightarrow> string \<Rightarrow> string \<Rightarrow> string" where
  "hostLabel env raw fallback scheme =
     (let norm = normalizeHttpBase env raw fallback scheme in
      case url_parts env norm of
        None \<Rightarrow> norm
      | Some (hostname, port) \<Rightarrow> if port \<noteq> [] then hostname @ '':'' @ port else hostname)"

section \<open>Profiles\<close>

type_synonym profile = "jsval jsobj"

datatype override_kind =
    OEnum "string list"
  | OBool
  | OString
  | OTrimmed "string list"
  | OChoice "string list"

definition run_override_rows :: "(string \<times> override_kind) list" where
  "run_override_rows =
     [(''tools'', OEnum [''host'', ''basic'', ''none'']),
      (''yolo'', OBool),
      (''hostPolicy'', OEnum [''full'', ''readonly'']),
      (''automationProfile'', OTrimmed [[], ''full'', ''guided'', ''strict'', ''custom'']),
      (''verbose'', OBool),
      (''model'', OString),
      (''summaryModel'', OString),
      (''summaryMaxChars'', OString),
      (''baseUrl'', OString),
      (''apiKey'', OString),
      (''proxyUrl'', OString),
      (''timeoutMs'', OString),
      (''maxCaptureBytes'', OString),
      (''streamAssistant'', OBool),
      (''trace'', OBool),
      (''useAsync'', OBool),
      (''maxSteps'', OString),
      (''maxRepeatedToolCalls'', OString),
      (''maxToolCallsTotal'', OString),
      (''maxToolCallsPerTool'', OString),
      (''toolCallLimits'', OString),
      (''maxChars'', OString),
      (''keepLast'', OString),
      (''memoryContextMode'', OChoice [''files'', ''search'', ''index'', ''salience'']),
      (''memoryIncludeStructured'', OBool),
      (''memoryIncludeCore'', OBool),
      (''memoryIncludeDaily'', OBool),
      (''memoryIncludeSession'', OBool),
      (''memoryDailyDays'', OString),
      (''memoryTotalCap'', OString),
      (''memorySearchQuery'', OString),
      (''memorySearchOrder'', OString),
      (''memorySearchUseIndex'', OBool),
      (''memorySearchCaseSensitive'', OBool),
      (''memorySearchFallbackToFiles'', OBool),
      (''memorySearchMaxResults'', OString),
      (''memorySearchMaxSnippetChars'', OString),
      (''memorySearchContextLines'', OString)]"

definition readString :: "jsval \<Rightarrow> string option" where
  "readString val =
     (case val of
        JStr s \<Rightarrow> Some s
      | JNum n \<Rightarrow> if is_finite n then Some (num_str n) else None
      | _ \<Rightarrow> None)"

fun read_override :: "override_kind \<Rightarrow> jsval \<Rightarrow> jsval option" where
  "read_override (OEnum xs) v = (case v of JStr s \<Rightarrow> given (s \<in> set xs) (JStr s) | _ \<Rightarrow> None)"
| "read_override OBool v = given (is_JBool v) v"
| "read_override OString v = map_option JStr (readString v)"
| "read_override (OTrimmed xs) v =
     (case readString v of Some s \<Rightarrow> given (js_trim s \<in> set xs) (JStr (js_trim s)) | None \<Rightarrow> None)"
| "read_override (OChoice xs) v =
     (case readString v of Some s \<Rightarrow> given (s \<in> set xs) (JStr s) | None \<Rightarrow> None)"

definition normalizeRunOverrides :: "jsval \<Rightarrow> jsval" where
  "normalizeRunOverrides raw =
     (if \<not> truthy raw \<or> \<not> typeof_object raw then JUndef
      else
        let out = obj_of_opts (map (\<lambda>(k, kind). (k, read_override kind (js_get raw k))) run_override_rows)
        in if length (js_keys out) > 0 then JObj out else JUndef)"

definition stripSecretRunOverrides :: "jsval \<Rightarrow> jsval" where
  "stripSecretRunOverrides raw =
     (if \<not> truthy raw then JUndef
      else let out = obj_del (spread raw) ''apiKey'' in
           if length (js_keys out) > 0 then JObj out else JUndef)"

definition secret_text :: "jsval \<Rightarrow> jsval option" where
  "secret_text v = (case v of JStr s \<Rightarrow> given (js_trim s \<noteq> []) (JStr s) | _ \<Rightarrow> None)"

definition extractProfileSecrets :: "profile \<Rightarrow> jsval jsobj" where
  "extractProfileSecrets p =
     obj_of_opts
       [(''brokerAuthToken'', secret_text (obj_get p ''brokerAuthToken'')),
        (''daemonAuthToken'', secret_text (obj_get p ''daemonAuthToken'')),
        (''runOverridesApiKey'', secret_text (js_get (normalizeRunOverrides (obj_get p ''runOverrides'')) ''apiKey''))]"

definition sanitizeProfileForPersistence :: "profile \<Rightarrow> profile" where
  "sanitizeProfileForPersistence p =
     obj_put_all p
       [(''brokerAuthToken'', JStr []),
        (''daemonAuthToken'', JStr []),
        (''runOverrides'', stripSecretRunOverrides (obj_get p ''runOverrides''))]"

definition mergeProfileSecrets :: "profile \<Rightarrow> jsval \<Rightarrow> profile" where
  "mergeProfileSecrets profile secret =
     (if \<not> truthy secret then profile
      else
        let out1 = (case js_get secret ''brokerAuthToken'' of
                      JStr s \<Rightarrow> obj_put profile ''brokerAuthToken'' (JStr s) | _ \<Rightarrow> profile);
            out2 = (case js_get secret ''daemonAuthToken'' of
                      JStr s \<Rightarrow> obj_put out1 ''daemonAuthToken'' (JStr s) | _ \<Rightarrow> out1)
        in case js_get secret ''runOverridesApiKey'' of
             JStr s \<Rightarrow> obj_put out2 ''runOverrides''
               (JObj (obj_put (spread (js_or (obj_get out2 ''runOverrides'') (JObj []))) ''apiKey'' (JStr s)))
           | _ \<Rightarrow> out2)"

definition secretsEqual :: "jsval \<Rightarrow> jsval \<Rightarrow> bool" where
  "secretsEqual a b = list_all
     (\<lambda>k. strict_eq (js_or (js_get a k) (JStr [])) (js_or (js_get b k) (JStr [])))
     [''brokerAuthToken'', ''daemonAuthToken'', ''runOverridesApiKey'']"

definition secret_entry :: "jsval jsobj \<Rightarrow> string \<times> jsval \<Rightarrow> jsval jsobj" where
  "secret_entry out kv =
     (case kv of (key, value) \<Rightarrow>
       if js_trim key = [] \<or> \<not> truthy value \<or> \<not> typeof_object value then out
       else
         let nxt = obj_of_opts (map (\<lambda>k. (k, secret_text (js_get value k)))
                     [''brokerAuthToken'', ''daemonAuthToken'', ''runOverridesApiKey''])
         in if length (js_keys nxt) > 0 then obj_put out key (JObj nxt) else out)"

definition normalizeSecretMap :: "jsval \<Rightarrow> jsval jsobj" where
  "normalizeSecretMap raw =
     (if \<not> truthy raw \<or> \<not> typeof_object raw then []
      else foldl secret_entry [] (js_entries (spread raw)))"

definition profileNameDefault :: "browser \<Rightarrow> profile \<Rightarrow> string" where
  "profileNameDefault env p =
     (if obj_get p ''mode'' = JStr ''broker'' then
        let agent = js_trim (text_of (obj_get p ''brokerAgentId''));
            dep = js_trim (text_of (obj_get p ''brokerDeploymentId''))
        in if agent \<noteq> [] then (if dep \<noteq> [] then ''broker:'' @ agent @ ''@'' @ dep else ''broker:'' @ agent)
           else ''broker:'' @ hostLabel env (text_of (obj_get p ''brokerBase'')) ''https://127.0.0.1:8443'' ''https''
      else ''daemon:'' @ hostLabel env (text_of (obj_get p ''base'')) ''http://127.0.0.1:8123'' ''http'')"

definition str_field :: "profile \<Rightarrow> string \<Rightarrow> jsval \<Rightarrow> jsval" where
  "str_field p k d = (if is_JStr (obj_get p k) then obj_get p k else d)"

definition flag_field :: "profile \<Rightarrow> string \<Rightarrow> jsval \<Rightarrow> jsval" where
  "flag_field p k d = (if is_JBool (obj_get p k) then obj_get p k else d)"

text \<open>The profile before its name is filled in, and the whole function; \<open>freshId\<close> is the identifier generated on demand.\<close>

definition unnamed_profile :: "string \<Rightarrow> jsval jsobj \<Rightarrow> profile \<Rightarrow> profile" where
  "unnamed_profile freshId defaults p =
     [(''id'', (case obj_get p ''id'' of JStr s \<Rightarrow> if js_trim s \<noteq> [] then JStr s else JStr freshId | _ \<Rightarrow> JStr freshId)),
      (''name'', (case obj_get p ''name'' of JStr s \<Rightarrow> JStr (js_trim s) | _ \<Rightarrow> JStr [])),
      (''mode'', (if obj_get p ''mode'' = JStr ''broker'' then JStr ''broker'' else JStr ''direct'')),
      (''base'', str_field p ''base'' (obj_get defaults ''daemonBaseUrl'')),
      (''brokerBase'', str_field p ''brokerBase'' (obj_get defaults ''brokerBaseUrl'')),
      (''brokerAgentId'', str_field p ''brokerAgentId'' (obj_get defaults ''brokerAgentId'')),
      (''brokerDeploymentId'', str_field p ''brokerDeploymentId'' (obj_get defaults ''brokerDeploymentId'')),
      (''brokerCookieAuth'', flag_field p ''brokerCookieAuth'' (obj_get defaults ''brokerCookieAuth'')),
      (''brokerAuthToken'', str_field p ''brokerAuthToken'' (JStr [])),
      (''daemonAuthToken'', str_field p ''daemonAuthToken'' (JStr [])),
      (''runOverridesEnabled'', flag_field p ''runOverridesEnabled'' (JBool False)),
      (''runOverrides'', normalizeRunOverrides (obj_get p ''runOverrides''))]"

definition normalizeProfile :: "browser \<Rightarrow> string \<Rightarrow> jsval jsobj \<Rightarrow> profile \<Rightarrow> profile" where
  "normalizeProfile env freshId defaults p =
     (let out = unnamed_profile freshId defaults p in
      if truthy (obj_get out ''name'') then out
      else obj_put out ''name'' (JStr (profileNameDefault env out)))"

section \<open>The copy in the server's preferences\<close>

definition server_profile_keys :: "string list" where
  "server_profile_keys = [''id'', ''name'', ''mode'', ''base'', ''brokerBase'', ''brokerAgentId'', ''brokerDeploymentId'', ''brokerCookieAuth'']"

definition toServerProfile :: "profile \<Rightarrow> jsval jsobj" where
  "toServerProfile p = map (\<lambda>k. (k, obj_get p k)) server_profile_keys"

definition buildServerPrefs :: "profile list \<Rightarrow> string \<Rightarrow> jsval" where
  "buildServerPrefs profiles activeId =
     JObj [(''connection'', JObj
       [(''active_profile_id'', JStr activeId),
        (''profiles'', JArr (map (\<lambda>p. JObj (toServerProfile p)) profiles))])]"

record merged_prefs =
  mp_profiles :: "profile list"
  mp_active :: string

text \<open>\<^verbatim>\<open>new Map(localProfiles.map(p => [p.id, p]))\<close> and \<^verbatim>\<open>localById.get(id)\<close>: the last profile with that identifier.\<close>

definition local_by_id :: "profile list \<Rightarrow> jsval \<Rightarrow> profile option" where
  "local_by_id locals i = find (\<lambda>p. obj_get p ''id'' = i) (rev locals)"

definition local_field :: "profile option \<Rightarrow> string \<Rightarrow> jsval" where
  "local_field loc k = (case loc of Some p \<Rightarrow> obj_get p k | None \<Rightarrow> JUndef)"

text \<open>\<open>freshIds\<close> supplies the identifier generated for an incoming profile that has none.\<close>

definition merge_profile ::
  "browser \<Rightarrow> (nat \<Rightarrow> string) \<Rightarrow> jsval jsobj \<Rightarrow> profile list \<Rightarrow> nat \<times> jsval \<Rightarrow> profile" where
  "merge_profile env freshIds defaults locals ip =
     (case ip of (i, p) \<Rightarrow>
       let loc = local_by_id locals (js_get p ''id'') in
       normalizeProfile env (freshIds i) defaults
         (obj_put_all (spread p)
           [(''brokerAuthToken'', local_field loc ''brokerAuthToken''),
            (''daemonAuthToken'', local_field loc ''daemonAuthToken''),
            (''runOverridesEnabled'', local_field loc ''runOverridesEnabled''),
            (''runOverrides'', local_field loc ''runOverrides'')]))"

definition first_id :: "profile list \<Rightarrow> string" where
  "first_id ps = (case ps of [] \<Rightarrow> [] | p # _ \<Rightarrow> text_of (obj_get p ''id''))"

definition mergeServerPrefs ::
  "browser \<Rightarrow> (nat \<Rightarrow> string) \<Rightarrow> jsval \<Rightarrow> profile list \<Rightarrow> jsval jsobj \<Rightarrow> merged_prefs" where
  "mergeServerPrefs env freshIds prefs localProfiles defaults =
     (case js_get (js_get prefs ''connection'') ''profiles'' of
        JArr (i # is) \<Rightarrow>
          let merged = map (merge_profile env freshIds defaults localProfiles) (enumerate 0 (i # is));
              desiredActive = (case js_get (js_get prefs ''connection'') ''active_profile_id'' of JStr s \<Rightarrow> s | _ \<Rightarrow> [])
          in \<lparr>mp_profiles = merged,
              mp_active = (if \<exists>p\<in>set merged. obj_get p ''id'' = JStr desiredActive then desiredActive else first_id merged)\<rparr>
      | _ \<Rightarrow> \<lparr>mp_profiles = localProfiles, mp_active = first_id localProfiles\<rparr>)"

section \<open>Values read from storage\<close>

text \<open>\<^verbatim>\<open>safeParse\<close>: \<open>None\<close> is \<^verbatim>\<open>undefined\<close>. A raw item is \<open>None\<close> where the storage has no such key.\<close>

definition safeParse :: "string option \<Rightarrow> jsval option" where
  "safeParse raw = (case raw of None \<Rightarrow> None | Some s \<Rightarrow> if s = [] then None else json_parse s)"

definition scalar_text :: "jsval option \<Rightarrow> string option" where
  "scalar_text parsed =
     (case parsed of
        Some (JStr s) \<Rightarrow> Some s
      | Some (JNum n) \<Rightarrow> if is_finite n then Some (num_str n) else None
      | Some (JBool b) \<Rightarrow> Some (if b then ''true'' else ''false'')
      | _ \<Rightarrow> None)"

definition readLegacyString :: "string option \<Rightarrow> string \<Rightarrow> string" where
  "readLegacyString item fallback =
     (case item of
        None \<Rightarrow> fallback
      | Some raw \<Rightarrow>
          (case scalar_text (safeParse (Some raw)) of
             Some s \<Rightarrow> s
           | None \<Rightarrow> if js_trim raw \<noteq> [] then js_trim raw else fallback))"

definition readStorageString :: "string option \<Rightarrow> string option" where
  "readStorageString item =
     (case item of
        None \<Rightarrow> None
      | Some raw \<Rightarrow>
          (case scalar_text (safeParse (Some raw)) of
             Some s \<Rightarrow> Some s
           | None \<Rightarrow> given (js_trim raw \<noteq> []) (js_trim raw)))"

definition readLegacySecretString :: "string option \<Rightarrow> string option \<Rightarrow> string \<Rightarrow> string" where
  "readLegacySecretString sessionItem localItem fallback =
     (case readStorageString sessionItem of Some s \<Rightarrow> s | None \<Rightarrow> readLegacyString localItem fallback)"

definition readLegacyMode :: "string option \<Rightarrow> string \<Rightarrow> string" where
  "readLegacyMode item fallback = (if readLegacyString item fallback = ''broker'' then ''broker'' else ''direct'')"

text \<open>\<^verbatim>\<open>src/ui/src/hooks/uiRunSettingsShared.ts\<close>.\<close>

definition resolveOverrideValue :: "bool \<Rightarrow> jsval jsobj \<Rightarrow> string \<Rightarrow> jsval \<Rightarrow> jsval" where
  "resolveOverrideValue runOverridesEnabled runOverrides key globalValue =
     (if \<not> runOverridesEnabled then globalValue
      else if map_of runOverrides key \<noteq> None then obj_get runOverrides key
      else globalValue)"

section \<open>Normal profiles\<close>

lemma read_override_idem: "read_override kind v = Some w \<Longrightarrow> read_override kind w = Some w"
  by (cases kind) (auto simp: readString_def split: jsval.splits option.splits if_splits)

lemma read_override_undef [simp]: "read_override kind JUndef = None"
  by (cases kind) (auto simp: readString_def)

lemma distinct_override_rows: "distinct (map fst run_override_rows)"
  by (simp add: run_override_rows_def)

definition override_opts :: "jsval \<Rightarrow> (string \<times> jsval option) list" where
  "override_opts raw = map (\<lambda>(k, kind). (k, read_override kind (js_get raw k))) run_override_rows"

lemma distinct_override_opts: "distinct (map fst (override_opts raw))"
proof -
  have "map fst (override_opts raw) = map fst run_override_rows" by (auto simp: override_opts_def)
  then show ?thesis by (simp only: distinct_override_rows)
qed

lemma normalizeRunOverrides_eq:
  "normalizeRunOverrides raw =
     (if truthy raw \<and> typeof_object raw \<and> obj_of_opts (override_opts raw) \<noteq> [] then JObj (obj_of_opts (override_opts raw)) else JUndef)"
  by (simp add: normalizeRunOverrides_def override_opts_def Let_def)

lemma override_lookup:
  "(k, kind) \<in> set run_override_rows \<Longrightarrow>
   obj_get (obj_of_opts (override_opts raw)) k = (case read_override kind (js_get raw k) of Some w \<Rightarrow> w | None \<Rightarrow> JUndef)"
  by (rule obj_get_opts [OF distinct_override_opts]) (force simp: override_opts_def)

lemma override_opts_idem: "override_opts (JObj (obj_of_opts (override_opts raw))) = override_opts raw"
proof -
  define X where "X = obj_of_opts (override_opts raw)"
  have "read_override kind (obj_get X k) = read_override kind (js_get raw k)" if "(k, kind) \<in> set run_override_rows" for k kind
    unfolding X_def override_lookup [OF that] by (auto simp: read_override_idem split: option.split)
  then have "override_opts (JObj X) = override_opts raw" by (auto simp: override_opts_def)
  then show ?thesis by (simp only: X_def)
qed

lemma normalizeRunOverrides_idem [simp]: "normalizeRunOverrides (normalizeRunOverrides raw) = normalizeRunOverrides raw"
proof (cases "truthy raw \<and> typeof_object raw \<and> obj_of_opts (override_opts raw) \<noteq> []")
  case True
  then show ?thesis
    unfolding normalizeRunOverrides_eq [of raw] normalizeRunOverrides_eq [of "JObj _"]
    by (simp add: override_opts_idem normalizeRunOverrides_eq typeof_object_def)
qed (auto simp: normalizeRunOverrides_eq)

lemma overrides_shape: "normalizeRunOverrides raw = JUndef \<or> (\<exists>ps. normalizeRunOverrides raw = JObj ps \<and> wf_obj ps \<and> ps \<noteq> [])"
  using wf_obj_of_opts [OF distinct_override_opts, of raw] by (simp add: normalizeRunOverrides_eq)

text \<open>The keys of a profile, and that its normal form depends on nothing else.\<close>

definition profile_keys :: "string list" where
  "profile_keys = server_profile_keys @ [''brokerAuthToken'', ''daemonAuthToken'', ''runOverridesEnabled'', ''runOverrides'']"

lemmas profile_key_simps = profile_keys_def server_profile_keys_def

lemma keys_normalizeProfile: "map fst (normalizeProfile env f d p) = profile_keys"
  by (simp add: normalizeProfile_def unnamed_profile_def Let_def profile_key_simps)

lemma normalizeProfile_cong:
  "(\<And>k. k \<in> set profile_keys \<Longrightarrow> obj_get p k = obj_get q k) \<Longrightarrow> normalizeProfile env f d p = normalizeProfile env f d q"
proof -
  assume "\<And>k. k \<in> set profile_keys \<Longrightarrow> obj_get p k = obj_get q k"
  then have "unnamed_profile f d p = unnamed_profile f d q"
    by (simp add: unnamed_profile_def str_field_def flag_field_def profile_key_simps)
  then show ?thesis by (simp add: normalizeProfile_def)
qed

text \<open>A profile in normal form: normalising it changes nothing, whatever identifier is generated.\<close>

definition normal_profile :: "browser \<Rightarrow> jsval jsobj \<Rightarrow> profile \<Rightarrow> bool" where
  "normal_profile env d p \<longleftrightarrow> (\<forall>f. normalizeProfile env f d p = p)"

lemma profile_field:
  "obj_get (normalizeProfile env f d p) k =
     (if k = ''name'' then (if truthy (obj_get (unnamed_profile f d p) k) then obj_get (unnamed_profile f d p) k
                            else JStr (profileNameDefault env (unnamed_profile f d p)))
      else obj_get (unnamed_profile f d p) k)"
  by (simp add: normalizeProfile_def Let_def js_obj_simps)

lemma profileNameDefault_ne: "profileNameDefault env p \<noteq> []"
  by (simp add: profileNameDefault_def Let_def)

lemma unnamed_fields:
  "obj_get (unnamed_profile f d p) ''id'' = (case obj_get p ''id'' of JStr s \<Rightarrow> if js_trim s \<noteq> [] then JStr s else JStr f | _ \<Rightarrow> JStr f)"
  "obj_get (unnamed_profile f d p) ''name'' = (case obj_get p ''name'' of JStr s \<Rightarrow> JStr (js_trim s) | _ \<Rightarrow> JStr [])"
  "obj_get (unnamed_profile f d p) ''brokerAuthToken'' = str_field p ''brokerAuthToken'' (JStr [])"
  "obj_get (unnamed_profile f d p) ''daemonAuthToken'' = str_field p ''daemonAuthToken'' (JStr [])"
  "obj_get (unnamed_profile f d p) ''runOverrides'' = normalizeRunOverrides (obj_get p ''runOverrides'')"
  by (simp_all add: unnamed_profile_def)

lemma field_idem:
  "obj_get q k = str_field p k v \<Longrightarrow> str_field q k v = str_field p k v"
  "obj_get q k = flag_field p k v \<Longrightarrow> flag_field q k v = flag_field p k v"
  by (simp_all add: str_field_def flag_field_def)

lemma unnamed_idem:
  assumes "obj_get q ''name'' = JStr n" "trimmed n" "js_trim f \<noteq> []"
    and q: "\<And>k. k \<noteq> ''name'' \<Longrightarrow> obj_get q k = obj_get (unnamed_profile f d p) k"
  shows "unnamed_profile f' d q = obj_put (unnamed_profile f d p) ''name'' (JStr n)"
proof -
  let ?id = "case obj_get p ''id'' of JStr s \<Rightarrow> if js_trim s \<noteq> [] then JStr s else JStr f | _ \<Rightarrow> JStr f"
  let ?mode = "if obj_get p ''mode'' = JStr ''broker'' then JStr ''broker'' else JStr ''direct''"
  have g: "obj_get q ''id'' = ?id" "obj_get q ''mode'' = ?mode"
    "obj_get q ''runOverrides'' = normalizeRunOverrides (obj_get p ''runOverrides'')"
    by (simp_all add: q) (simp_all add: unnamed_profile_def)
  have i: "(case obj_get q ''id'' of JStr s \<Rightarrow> if js_trim s \<noteq> [] then JStr s else JStr f' | _ \<Rightarrow> JStr f') = ?id"
    unfolding g using assms(3) by (auto split: jsval.split)
  have m: "(if obj_get q ''mode'' = JStr ''broker'' then JStr ''broker'' else JStr ''direct'') = ?mode"
    unfolding g by simp
  have st: "str_field q k v = str_field p k v"
    if "(k, v) \<in> {(''base'', obj_get d ''daemonBaseUrl''), (''brokerBase'', obj_get d ''brokerBaseUrl''),
      (''brokerAgentId'', obj_get d ''brokerAgentId''), (''brokerDeploymentId'', obj_get d ''brokerDeploymentId''),
      (''brokerAuthToken'', JStr []), (''daemonAuthToken'', JStr [])}" for k v
    using that by (intro field_idem(1)) (auto simp: q unnamed_profile_def)
  have bo: "flag_field q k v = flag_field p k v"
    if "(k, v) \<in> {(''brokerCookieAuth'', obj_get d ''brokerCookieAuth''), (''runOverridesEnabled'', JBool False)}" for k v
    using that by (intro field_idem(2)) (auto simp: q unnamed_profile_def)
  show ?thesis
    unfolding unnamed_profile_def i m g(3) by (simp add: assms(1) js_trim_id [OF assms(2)] st bo)
qed

lemma normal_normalizeProfile:
  assumes "js_trim f \<noteq> []" "trimmed (profileNameDefault env (unnamed_profile f d p))"
  shows "normal_profile env d (normalizeProfile env f d p)"
  unfolding normal_profile_def
proof
  fix f'
  let ?u = "unnamed_profile f d p" and ?q = "normalizeProfile env f d p"
  obtain n where n: "obj_get ?q ''name'' = JStr n" "trimmed n" "n \<noteq> []" "?q = obj_put ?u ''name'' (JStr n)"
  proof -
    have "\<exists>s. obj_get ?u ''name'' = JStr (js_trim s)"
      by (auto simp: unnamed_profile_def split: jsval.splits intro: exI [of _ "[]"])
    then obtain s where s: "obj_get ?u ''name'' = JStr (js_trim s)" ..
    show ?thesis
    proof (cases "js_trim s = []")
      case True
      with s assms(2) that [of "profileNameDefault env ?u"] show ?thesis
        by (simp add: profileNameDefault_ne normalizeProfile_def Let_def js_obj_simps)
    next
      case False
      have "obj_put ?u ''name'' (JStr (js_trim s)) = ?u"
        using s by (intro update_same) (simp add: obj_get.simps unnamed_profile_def)
      with False s that [of "js_trim s"] show ?thesis by (simp add: normalizeProfile_def Let_def)
    qed
  qed
  have "unnamed_profile f' d ?q = ?q"
    unfolding n(4) by (rule unnamed_idem [OF _ n(2) assms(1)]) (simp_all add: js_obj_simps)
  with n show "normalizeProfile env f' d ?q = ?q" by (simp add: normalizeProfile_def [of env f'])
qed

section \<open>Secrets\<close>

text \<open>What a stored profile must not hold, and what is taken out of it and put back.\<close>

definition clean_profile :: "profile \<Rightarrow> bool" where
  "clean_profile p \<longleftrightarrow> \<not> truthy (obj_get p ''brokerAuthToken'') \<and> \<not> truthy (obj_get p ''daemonAuthToken'') \<and>
     js_get (obj_get p ''runOverrides'') ''apiKey'' = JUndef"

lemma strip_no_key: "js_get (stripSecretRunOverrides raw) ''apiKey'' = JUndef"
  by (simp add: stripSecretRunOverrides_def Let_def js_obj_simps)

lemma sanitize_field:
  "obj_get (sanitizeProfileForPersistence p) k =
     (if k = ''brokerAuthToken'' \<or> k = ''daemonAuthToken'' then JStr []
      else if k = ''runOverrides'' then stripSecretRunOverrides (obj_get p ''runOverrides'') else obj_get p k)"
  by (simp add: sanitizeProfileForPersistence_def obj_put_all_def js_obj_simps)

lemma sanitize_clean: "clean_profile (sanitizeProfileForPersistence p)"
  by (simp add: clean_profile_def sanitize_field strip_no_key)

lemma secrets_lookup:
  "obj_get (extractProfileSecrets p) ''brokerAuthToken'' = opt_or (secret_text (obj_get p ''brokerAuthToken'')) JUndef"
  "obj_get (extractProfileSecrets p) ''daemonAuthToken'' = opt_or (secret_text (obj_get p ''daemonAuthToken'')) JUndef"
  "obj_get (extractProfileSecrets p) ''runOverridesApiKey'' =
     opt_or (secret_text (js_get (normalizeRunOverrides (obj_get p ''runOverrides'')) ''apiKey'')) JUndef"
  by (simp_all add: extractProfileSecrets_def obj_of_opts_def put_some_def js_obj_simps split: option.split)

lemma merge_field:
  "obj_get (mergeProfileSecrets p (JObj s)) k =
     (if k = ''brokerAuthToken'' \<and> is_JStr (obj_get s ''brokerAuthToken'') then obj_get s ''brokerAuthToken''
      else if k = ''daemonAuthToken'' \<and> is_JStr (obj_get s ''daemonAuthToken'') then obj_get s ''daemonAuthToken''
      else if k = ''runOverrides'' \<and> is_JStr (obj_get s ''runOverridesApiKey'')
      then JObj (obj_put (spread (js_or (obj_get p ''runOverrides'') (JObj []))) ''apiKey'' (obj_get s ''runOverridesApiKey''))
      else obj_get p k)"
  by (cases "obj_get s ''brokerAuthToken''"; cases "obj_get s ''daemonAuthToken''"; cases "obj_get s ''runOverridesApiKey''")
    (simp_all add: mergeProfileSecrets_def js_obj_simps)

lemma strip_lookup:
  assumes "o' = JUndef \<or> (\<exists>ps. o' = JObj ps)"
  shows "stripSecretRunOverrides o' = JUndef \<or> (\<exists>ps. stripSecretRunOverrides o' = JObj ps)"
    and "js_get (stripSecretRunOverrides o') k = (if k = ''apiKey'' then JUndef else js_get o' k)"
proof -
  show "stripSecretRunOverrides o' = JUndef \<or> (\<exists>ps. stripSecretRunOverrides o' = JObj ps)"
    by (simp add: stripSecretRunOverrides_def Let_def)
  show "js_get (stripSecretRunOverrides o') k = (if k = ''apiKey'' then JUndef else js_get o' k)"
  proof (cases o')
    case (JObj ps)
    have "obj_del ps ''apiKey'' = [] \<Longrightarrow> k \<noteq> ''apiKey'' \<Longrightarrow> obj_get ps k = JUndef"
      using obj_get_del [of "''apiKey''" ps k] by simp
    with JObj show ?thesis by (simp add: stripSecretRunOverrides_def Let_def js_obj_simps)
  qed (use assms in \<open>auto simp: stripSecretRunOverrides_def\<close>)
qed

text \<open>A token that is empty or has a visible character, and an override key that is absent or has one.\<close>

definition no_blank_secret :: "profile \<Rightarrow> bool" where
  "no_blank_secret p \<longleftrightarrow>
     list_all (\<lambda>k. case obj_get p k of JStr s \<Rightarrow> s = [] \<or> js_trim s \<noteq> [] | _ \<Rightarrow> False) [''brokerAuthToken'', ''daemonAuthToken''] \<and>
     (case js_get (obj_get p ''runOverrides'') ''apiKey'' of JUndef \<Rightarrow> True | JStr s \<Rightarrow> js_trim s \<noteq> [] | _ \<Rightarrow> False)"

definition same_profile :: "profile \<Rightarrow> profile \<Rightarrow> bool" where
  "same_profile p q \<longleftrightarrow> (\<forall>k. k \<noteq> ''runOverrides'' \<longrightarrow> obj_get p k = obj_get q k) \<and>
     (\<forall>k. js_get (obj_get p ''runOverrides'') k = js_get (obj_get q ''runOverrides'') k)"

lemma normal_overrides: "normal_profile env d p \<Longrightarrow> normalizeRunOverrides (obj_get p ''runOverrides'') = obj_get p ''runOverrides''"
  using unnamed_fields(5) profile_field [of env f d p "''runOverrides''" for f] by (simp add: normal_profile_def)

lemma secrets_restored:
  assumes "normal_profile env d p" "no_blank_secret p"
  shows "same_profile (mergeProfileSecrets (sanitizeProfileForPersistence p) (JObj (extractProfileSecrets p))) p"
proof -
  let ?s = "extractProfileSecrets p" and ?o = "obj_get p ''runOverrides''"
  let ?q = "mergeProfileSecrets (sanitizeProfileForPersistence p) (JObj ?s)"
  note n = normal_overrides [OF assms(1)]
  have o: "?o = JUndef \<or> (\<exists>ps. ?o = JObj ps)" using overrides_shape [of ?o] n by auto
  have tok: "obj_get ?q k = obj_get p k" if "k \<in> {''brokerAuthToken'', ''daemonAuthToken''}" for k
  proof -
    have "case obj_get p k of JStr s \<Rightarrow> s = [] \<or> js_trim s \<noteq> [] | _ \<Rightarrow> False"
      using that assms(2) by (auto simp: no_blank_secret_def)
    then obtain t where t: "obj_get p k = JStr t" "t = [] \<or> js_trim t \<noteq> []" by (cases "obj_get p k") simp_all
    have "obj_get ?s k = opt_or (secret_text (obj_get p k)) JUndef" using that by (auto simp: secrets_lookup)
    with t have "obj_get ?s k = JStr t \<or> t = [] \<and> obj_get ?s k = JUndef" by (auto simp: secret_text_def)
    moreover have "obj_get ?q k = (if is_JStr (obj_get ?s k) then obj_get ?s k else JStr [])"
      using that by (elim insertE emptyE) (simp_all add: merge_field sanitize_field)
    ultimately show ?thesis using t(1) by (elim disjE) simp_all
  qed
  have ov: "js_get (obj_get ?q ''runOverrides'') k = js_get ?o k" for k
  proof (cases "js_get ?o ''apiKey''")
    case (JStr t)
    then have "js_trim t \<noteq> []" using assms(2) by (simp add: no_blank_secret_def)
    with JStr have "obj_get ?q ''runOverrides'' = JObj (obj_put (spread (js_or (stripSecretRunOverrides ?o) (JObj []))) ''apiKey'' (JStr t))"
      by (simp add: merge_field secrets_lookup n secret_text_def sanitize_field)
    moreover have "obj_get (spread (js_or (stripSecretRunOverrides ?o) (JObj []))) k = js_get (stripSecretRunOverrides ?o) k"
      using strip_lookup(1) [OF o] by (auto simp: js_or_def)
    ultimately show ?thesis using JStr strip_lookup(2) [OF o, of k] by (simp add: js_obj_simps)
  next
    case JUndef
    then have "obj_get ?q ''runOverrides'' = stripSecretRunOverrides ?o"
      by (simp add: merge_field secrets_lookup n secret_text_def sanitize_field)
    with JUndef strip_lookup(2) [OF o, of k] show ?thesis by simp
  qed (use assms(2) in \<open>simp_all add: no_blank_secret_def\<close>)
  have "obj_get ?q k = obj_get p k" if "k \<noteq> ''runOverrides''" for k
    using that tok [of k] by (cases "k \<in> {''brokerAuthToken'', ''daemonAuthToken''}") (auto simp: merge_field sanitize_field)
  with ov show ?thesis by (simp add: same_profile_def)
qed

section \<open>The server's copy\<close>

lemma server_profile_lookup: "obj_get (toServerProfile p) k = (if k \<in> set server_profile_keys then obj_get p k else JUndef)"
  by (simp add: toServerProfile_def server_profile_keys_def)

lemma find_rev_distinct:
  assumes "distinct (map f xs)" "x \<in> set xs"
  shows "find (\<lambda>y. f y = f x) (rev xs) = Some x"
proof -
  have "\<exists>y. find (\<lambda>y. f y = f x) (rev xs) = Some y"
    using assms(2) by (metis (mono_tags, lifting) find_None_iff not_None_eq set_rev)
  then obtain y where y: "find (\<lambda>y. f y = f x) (rev xs) = Some y" ..
  then have "f y = f x" "y \<in> set xs" by (auto simp: find_Some_iff) (metis nth_mem rev_nth length_rev set_rev)
  with assms y show ?thesis by (metis distinct_map inj_onD)
qed

lemma merge_own_profile:
  assumes "distinct (map (\<lambda>p. obj_get p ''id'') ps)" "p \<in> set ps" "normal_profile env d p"
  shows "merge_profile env fresh d ps (i, JObj (toServerProfile p)) = p"
proof -
  have l: "local_by_id ps (obj_get p ''id'') = Some p"
    unfolding local_by_id_def by (rule find_rev_distinct [OF assms(1,2)])
  have "obj_get (toServerProfile p) ''id'' = obj_get p ''id''" by (simp add: server_profile_lookup server_profile_keys_def)
  with l have "merge_profile env fresh d ps (i, JObj (toServerProfile p)) = normalizeProfile env (fresh i) d
     (obj_put_all (toServerProfile p) (map (\<lambda>k. (k, obj_get p k)) [''brokerAuthToken'', ''daemonAuthToken'', ''runOverridesEnabled'', ''runOverrides'']))"
    by (simp add: merge_profile_def local_field_def)
  also have "\<dots> = normalizeProfile env (fresh i) d p"
    by (rule normalizeProfile_cong) (auto simp: obj_put_all_def js_obj_simps server_profile_lookup profile_keys_def)
  finally show ?thesis using assms(3) by (simp add: normal_profile_def)
qed

text \<open>
  C31. The copy of the profiles in the server's preferences holds no token and no run override,
  and merging it back into the same profiles restores them exactly, with the active
  profile kept (or the first one where the active identifier is unknown).
\<close>

theorem server_prefs_roundtrip:
  assumes "ps \<noteq> []" "distinct (map (\<lambda>p. obj_get p ''id'') ps)" "list_all (normal_profile env d) ps"
  shows "mergeServerPrefs env fresh (buildServerPrefs ps active) ps d
      = \<lparr>mp_profiles = ps, mp_active = (if JStr active \<in> set (map (\<lambda>p. obj_get p ''id'') ps) then active else first_id ps)\<rparr> \<and>
    list_all (\<lambda>k. list_all (\<lambda>p. obj_get (toServerProfile p) k = JUndef) ps)
      [''brokerAuthToken'', ''daemonAuthToken'', ''runOverrides'']"
proof -
  have m: "map (merge_profile env fresh d ps) (enumerate k (map (\<lambda>p. JObj (toServerProfile p)) qs)) = qs" if "set qs \<subseteq> set ps" for k qs
    using that assms(2,3) by (induction qs arbitrary: k) (auto simp: merge_own_profile list_all_iff)
  obtain q qs where ps: "ps = q # qs" using assms(1) by (cases ps) auto
  have pr: "js_get (js_get (buildServerPrefs ps active) ''connection'') ''profiles'' = JArr (JObj (toServerProfile q) # map (\<lambda>p. JObj (toServerProfile p)) qs)"
    "js_get (js_get (buildServerPrefs ps active) ''connection'') ''active_profile_id'' = JStr active"
    by (simp_all add: buildServerPrefs_def ps)
  have mm: "map (merge_profile env fresh d ps) (enumerate 0 (JObj (toServerProfile q) # map (\<lambda>p. JObj (toServerProfile p)) qs)) = ps"
    using m [of ps 0] by (simp add: ps)
  have "mergeServerPrefs env fresh (buildServerPrefs ps active) ps d
      = \<lparr>mp_profiles = ps, mp_active = (if \<exists>p\<in>set ps. obj_get p ''id'' = JStr active then active else first_id ps)\<rparr>"
    unfolding mergeServerPrefs_def pr jsval.case list.case mm Let_def ..
  moreover have "(\<exists>p\<in>set ps. obj_get p ''id'' = JStr active) \<longleftrightarrow> JStr active \<in> set (map (\<lambda>p. obj_get p ''id'') ps)" by force
  ultimately show ?thesis by (simp add: server_profile_lookup server_profile_keys_def list_all_iff)
qed

definition sample_stored :: profile where
  "sample_stored =
     [(''id'', JStr ''p1''), (''name'', JStr ''home''), (''mode'', JStr ''broker''), (''base'', JStr ''http://h''), (''brokerBase'', JStr ''https://b''),
      (''brokerAgentId'', JStr ''a1''), (''brokerDeploymentId'', JStr []), (''brokerCookieAuth'', JBool True),
      (''brokerAuthToken'', JStr ''t''), (''daemonAuthToken'', JStr []), (''runOverridesEnabled'', JBool True), (''runOverrides'', JUndef)]"

theorem server_prefs_roundtrip_witness:
  "mp_profiles (mergeServerPrefs \<lparr>url_parts = (\<lambda>_. None), page_protocol = None\<rparr> (\<lambda>_. ''f'') (buildServerPrefs [sample_stored] ''p1'') [sample_stored] []) = [sample_stored]"
proof -
  have "normal_profile env d sample_stored" for env d
    by (simp add: normal_profile_def normalizeProfile_def unnamed_profile_def sample_stored_def str_field_def flag_field_def
        normalizeRunOverrides_def js_trim_eval)
  then show ?thesis
    using server_prefs_roundtrip [of "[sample_stored]" "\<lparr>url_parts = (\<lambda>_. None), page_protocol = None\<rparr>" "[]" "\<lambda>_. ''f''" "''p1''"] by simp
qed

end
