(* ===== verification/Profile_State.thy ===== *)
theory Profile_State
  imports Connection_Profiles
begin

text \<open>
  \<^verbatim>\<open>src/ui/src/hooks/useUiConnectionProfileState.ts\<close>, the update functions of
  \<^verbatim>\<open>src/ui/src/hooks/useUiRunSettings.ts\<close> and the pull of \<^verbatim>\<open>src/ui/src/hooks/useConnectionServerPrefs.ts\<close>:
  the profiles kept in local storage, their secrets kept in session storage, and the active
  profile. An operation takes the state at the last render and returns the state
  of the next one; the setters of one event are applied together. \<open>ps_profiles\<close> is what local
  storage holds, \<open>ps_secrets\<close> what session storage holds (any value, as it may come from an
  older version).
\<close>

section \<open>State and operations\<close>

record profile_state =
  ps_profiles :: "profile list"
  ps_secrets :: jsval
  ps_active :: string

record page =
  pg_env :: browser
  pg_defaults :: "jsval jsobj"
  pg_local :: "string \<Rightarrow> string option"
  pg_session :: "string \<Rightarrow> string option"

abbreviation dflt :: "page \<Rightarrow> string \<Rightarrow> jsval" where
  "dflt pg k \<equiv> obj_get (pg_defaults pg) k"

abbreviation profile_id :: "profile \<Rightarrow> string" where
  "profile_id p \<equiv> text_of (obj_get p ''id'')"

definition buildLegacyProfile :: "page \<Rightarrow> string \<Rightarrow> profile" where
  "buildLegacyProfile pg freshId =
     (let legacy = (\<lambda>item k. JStr (readLegacyString (pg_local pg item) (text_of (dflt pg k))));
          secret = (\<lambda>item k. JStr (readLegacySecretString (pg_session pg item) (pg_local pg item) (text_of (dflt pg k))))
      in normalizeProfile (pg_env pg) freshId (pg_defaults pg)
           [(''mode'', JStr (readLegacyMode (pg_local pg ''agentui.connectionMode'') (text_of (dflt pg ''connectionMode'')))),
            (''base'', legacy ''agentui.base'' ''daemonBaseUrl''),
            (''brokerBase'', legacy ''agentui.brokerBase'' ''brokerBaseUrl''),
            (''brokerAgentId'', legacy ''agentui.brokerAgentId'' ''brokerAgentId''),
            (''brokerDeploymentId'', legacy ''agentui.brokerDeploymentId'' ''brokerDeploymentId''),
            (''brokerCookieAuth'', dflt pg ''brokerCookieAuth''),
            (''brokerAuthToken'', secret ''agentui.brokerAuthToken'' ''brokerAuthToken''),
            (''daemonAuthToken'', secret ''agentui.daemonAuthToken'' ''daemonAuthToken'')])"

text \<open>\<^verbatim>\<open>setConnectionProfileSecrets(prev => ({ ...normalizeSecretMap(prev), [id]: secret }))\<close>, skipped without a secret.\<close>

definition put_secret :: "jsval \<Rightarrow> string \<Rightarrow> jsval jsobj \<Rightarrow> jsval" where
  "put_secret prev i secret =
     (if length (js_keys secret) > 0 then JObj (obj_put (normalizeSecretMap prev) i (JObj secret)) else prev)"

text \<open>The body of the loop of the effect over the stored profiles.\<close>

record effect_acc =
  ea_secrets :: "jsval jsobj"
  ea_secretsChanged :: bool
  ea_changed :: bool
  ea_normalized :: "profile list"

definition json_or_null :: "jsval \<Rightarrow> string option" where
  "json_or_null v = json_compact (js_coalesce v JNull)"

definition profile_differs :: "jsval jsobj \<Rightarrow> profile \<Rightarrow> profile \<Rightarrow> bool" where
  "profile_differs defaults persisted profile =
     (\<not> list_all (\<lambda>k. strict_eq (obj_get persisted k) (obj_get profile k))
        [''id'', ''name'', ''mode'', ''base'', ''brokerBase'', ''brokerAgentId'', ''brokerDeploymentId'']
      \<or> \<not> strict_eq (obj_get persisted ''brokerCookieAuth'') (flag_field profile ''brokerCookieAuth'' (obj_get defaults ''brokerCookieAuth''))
      \<or> \<not> strict_eq (obj_get persisted ''brokerAuthToken'') (js_or (obj_get profile ''brokerAuthToken'') (JStr []))
      \<or> \<not> strict_eq (obj_get persisted ''daemonAuthToken'') (js_or (obj_get profile ''daemonAuthToken'') (JStr []))
      \<or> \<not> strict_eq (obj_get persisted ''runOverridesEnabled'') (flag_field profile ''runOverridesEnabled'' (JBool False))
      \<or> json_or_null (stripSecretRunOverrides (obj_get profile ''runOverrides'')) \<noteq> json_or_null (obj_get persisted ''runOverrides''))"

definition effect_profile :: "page \<Rightarrow> (nat \<Rightarrow> string) \<Rightarrow> effect_acc \<Rightarrow> nat \<times> profile \<Rightarrow> effect_acc" where
  "effect_profile pg fresh acc ip =
     (case ip of (i, profile) \<Rightarrow>
       let normalizedProfile = normalizeProfile (pg_env pg) (fresh i) (pg_defaults pg) profile;
           nid = profile_id normalizedProfile;
           extracted = extractProfileSecrets profile;
           mergedSecret = JObj (obj_put_all (spread (js_or (obj_get (ea_secrets acc) nid) (JObj []))) extracted);
           store = (length (js_keys extracted) > 0 \<and> \<not> secretsEqual (obj_get (ea_secrets acc) nid) mergedSecret);
           persisted = sanitizeProfileForPersistence normalizedProfile
       in \<lparr>ea_secrets = (if store then obj_put (ea_secrets acc) nid mergedSecret else ea_secrets acc),
           ea_secretsChanged = (ea_secretsChanged acc \<or> store),
           ea_changed = (ea_changed acc \<or> profile_differs (pg_defaults pg) persisted profile),
           ea_normalized = ea_normalized acc @ [persisted]\<rparr>)"

definition normalize_effect :: "page \<Rightarrow> (nat \<Rightarrow> string) \<Rightarrow> profile_state \<Rightarrow> profile_state" where
  "normalize_effect pg fresh st =
     (if ps_profiles st = [] then
        let legacy = buildLegacyProfile pg (fresh 0) in
        \<lparr>ps_profiles = [sanitizeProfileForPersistence legacy],
         ps_secrets = put_secret (ps_secrets st) (profile_id legacy) (extractProfileSecrets legacy),
         ps_active = profile_id legacy\<rparr>
      else
        let acc = foldl (effect_profile pg fresh)
              \<lparr>ea_secrets = normalizeSecretMap (ps_secrets st), ea_secretsChanged = False, ea_changed = False, ea_normalized = []\<rparr>
              (enumerate 0 (ps_profiles st))
        in \<lparr>ps_profiles = (if ea_changed acc then ea_normalized acc else ps_profiles st),
            ps_secrets = (if ea_secretsChanged acc then JObj (ea_secrets acc) else ps_secrets st),
            ps_active = (if \<exists>p\<in>set (ea_normalized acc). obj_get p ''id'' = JStr (ps_active st)
                         then ps_active st else first_id (ea_normalized acc))\<rparr>)"

definition fallbackProfile :: "page \<Rightarrow> profile" where
  "fallbackProfile pg = normalizeProfile (pg_env pg) [] (pg_defaults pg)
     [(''id'', JStr ''fallback''), (''name'', JStr ''default''),
      (''mode'', dflt pg ''connectionMode''), (''base'', dflt pg ''daemonBaseUrl''),
      (''brokerBase'', dflt pg ''brokerBaseUrl''), (''brokerAgentId'', dflt pg ''brokerAgentId''),
      (''brokerDeploymentId'', dflt pg ''brokerDeploymentId''), (''brokerCookieAuth'', dflt pg ''brokerCookieAuth''),
      (''brokerAuthToken'', dflt pg ''brokerAuthToken''), (''daemonAuthToken'', dflt pg ''daemonAuthToken'')]"

definition base_profile :: "profile_state \<Rightarrow> profile" where
  "base_profile st =
     (case find (\<lambda>p. obj_get p ''id'' = JStr (ps_active st)) (ps_profiles st) of
        Some p \<Rightarrow> p | None \<Rightarrow> hd (ps_profiles st))"

definition activeProfile :: "page \<Rightarrow> profile_state \<Rightarrow> profile" where
  "activeProfile pg st =
     (if ps_profiles st = [] then fallbackProfile pg
      else mergeProfileSecrets (base_profile st) (js_get (ps_secrets st) (profile_id (base_profile st))))"

fun find_index :: "('a \<Rightarrow> bool) \<Rightarrow> 'a list \<Rightarrow> nat option" where
  "find_index P [] = None"
| "find_index P (x # xs) = (if P x then Some 0 else map_option Suc (find_index P xs))"

definition store_profile :: "profile_state \<Rightarrow> jsval \<Rightarrow> profile \<Rightarrow> profile list" where
  "store_profile st currentId sanitized =
     (if ps_profiles st = [] then []
      else
        let idx_of = (\<lambda>i. find_index (\<lambda>p. obj_get p ''id'' = i) (ps_profiles st));
            resolvedIdx = (case idx_of currentId of
                Some i \<Rightarrow> i
              | None \<Rightarrow> (case idx_of (JStr (ps_active st)) of Some i \<Rightarrow> i | None \<Rightarrow> 0))
        in if json_compact (JObj sanitized) = json_compact (JObj (ps_profiles st ! resolvedIdx)) then ps_profiles st
           else (ps_profiles st)[resolvedIdx := sanitized])"

definition updateActiveProfile ::
  "page \<Rightarrow> string \<Rightarrow> (profile \<Rightarrow> profile) \<Rightarrow> profile_state \<Rightarrow> profile_state" where
  "updateActiveProfile pg freshId update st =
     (let current = activeProfile pg st;
          nextProfile = normalizeProfile (pg_env pg) freshId (pg_defaults pg) (update current);
          nextId = profile_id nextProfile;
          nextSecret = extractProfileSecrets nextProfile;
          cleared = (if nextId \<noteq> profile_id current then obj_del (normalizeSecretMap (ps_secrets st)) (profile_id current)
                     else normalizeSecretMap (ps_secrets st))
      in \<lparr>ps_profiles = store_profile st (obj_get current ''id'') (sanitizeProfileForPersistence nextProfile),
          ps_secrets = (if nextId = [] then ps_secrets st
            else JObj (if length (js_keys nextSecret) > 0 then obj_put cleared nextId (JObj nextSecret)
                       else obj_del cleared nextId)),
          ps_active = (if nextId \<noteq> profile_id current then nextId else ps_active st)\<rparr>)"

definition append_profile :: "profile_state \<Rightarrow> string \<Rightarrow> profile \<Rightarrow> profile_state" where
  "append_profile st i p =
     \<lparr>ps_profiles = ps_profiles st @ [sanitizeProfileForPersistence p],
      ps_secrets = put_secret (ps_secrets st) i (extractProfileSecrets p),
      ps_active = i\<rparr>"

definition addProfile :: "page \<Rightarrow> string \<Rightarrow> string option \<Rightarrow> profile_state \<Rightarrow> profile_state" where
  "addProfile pg i mode st =
     append_profile st i (normalizeProfile (pg_env pg) i (pg_defaults pg)
       [(''id'', JStr i), (''mode'', (case mode of Some m \<Rightarrow> js_or (JStr m) (dflt pg ''connectionMode'') | None \<Rightarrow> dflt pg ''connectionMode'')),
        (''base'', dflt pg ''daemonBaseUrl''), (''brokerBase'', dflt pg ''brokerBaseUrl''),
        (''brokerAgentId'', dflt pg ''brokerAgentId''), (''brokerDeploymentId'', dflt pg ''brokerDeploymentId''),
        (''brokerCookieAuth'', dflt pg ''brokerCookieAuth''),
        (''brokerAuthToken'', dflt pg ''brokerAuthToken''), (''daemonAuthToken'', dflt pg ''daemonAuthToken'')])"

definition duplicateProfile :: "page \<Rightarrow> string \<Rightarrow> profile_state \<Rightarrow> profile_state" where
  "duplicateProfile pg i st =
     (let current = activeProfile pg st in
      append_profile st i (normalizeProfile (pg_env pg) i (pg_defaults pg)
        (obj_put_all current [(''id'', JStr i), (''name'', JStr (text_of (obj_get current ''name'') @ '' copy''))])))"

text \<open>
  \<open>eager\<close> tells whether React ran the updater of the profiles before the statement that reads
  \<^verbatim>\<open>nextActive\<close>, as it does when no other update is pending; otherwise \<^verbatim>\<open>nextActive\<close> is still empty there.
\<close>

definition deleteProfile :: "bool \<Rightarrow> string \<Rightarrow> profile_state \<Rightarrow> profile_state" where
  "deleteProfile eager i st =
     (let rest = filter (\<lambda>p. obj_get p ''id'' \<noteq> JStr i) (ps_profiles st);
          keep = (length (ps_profiles st) \<le> 1 \<or> rest = []);
          nextActive = (if \<not> keep \<and> i = ps_active st then first_id rest else [])
      in \<lparr>ps_profiles = (if keep then ps_profiles st else rest),
          ps_secrets = JObj (obj_del (normalizeSecretMap (ps_secrets st)) i),
          ps_active = (if eager \<and> nextActive \<noteq> [] then nextActive else ps_active st)\<rparr>)"

text \<open>The stored part of a successful pull of the server's preferences.\<close>

definition pullServerPrefs :: "page \<Rightarrow> (nat \<Rightarrow> string) \<Rightarrow> jsval \<Rightarrow> profile_state \<Rightarrow> profile_state" where
  "pullServerPrefs pg fresh prefs st =
     (let locals = map (\<lambda>p. mergeProfileSecrets p (js_get (ps_secrets st) (profile_id p))) (ps_profiles st);
          merged = mergeServerPrefs (pg_env pg) fresh prefs locals (pg_defaults pg)
      in st\<lparr>ps_profiles := mp_profiles merged,
            ps_active := (if mp_active merged \<noteq> [] then mp_active merged else ps_active st)\<rparr>)"

text \<open>The updates that the settings make through \<open>updateActiveProfile\<close>.\<close>

definition setProfileName :: "browser \<Rightarrow> string \<Rightarrow> profile \<Rightarrow> profile" where
  "setProfileName env value prev =
     (let nextName = str_or (js_trim value) (profileNameDefault env prev) in
      if obj_get prev ''name'' = JStr nextName then prev else obj_put prev ''name'' (JStr nextName))"

definition setRunValue :: "string \<Rightarrow> (jsval \<Rightarrow> jsval) \<Rightarrow> jsval \<Rightarrow> profile \<Rightarrow> profile" where
  "setRunValue key nxt globalValue prev =
     (let prevOverrides = spread (js_or (obj_get prev ''runOverrides'') (JObj []));
          hasPrev = (map_of prevOverrides key \<noteq> None);
          prevValue = (if hasPrev then obj_get prevOverrides key else globalValue);
          nextValue = nxt prevValue
      in if hasPrev \<and> nextValue = prevValue then prev
         else obj_put_all prev [(''runOverridesEnabled'', JBool True), (''runOverrides'', JObj (obj_put prevOverrides key nextValue))])"

definition setProfileOverridesEnabled :: "bool \<Rightarrow> jsval jsobj \<Rightarrow> profile \<Rightarrow> profile" where
  "setProfileOverridesEnabled enabled snapshotRunOverrides prev =
     (if enabled = truthy (obj_get prev ''runOverridesEnabled'') then prev
      else if \<not> enabled then obj_put prev ''runOverridesEnabled'' (JBool False)
      else
        let seed = (if truthy (obj_get prev ''runOverrides'') \<and> length (js_keys (spread (obj_get prev ''runOverrides''))) > 0
                    then obj_get prev ''runOverrides'' else JObj snapshotRunOverrides)
        in obj_put_all prev [(''runOverridesEnabled'', JBool True), (''runOverrides'', seed)])"

definition copyProfileOverridesFromGlobal :: "jsval jsobj \<Rightarrow> profile \<Rightarrow> profile" where
  "copyProfileOverridesFromGlobal snapshotRunOverrides prev =
     obj_put_all prev [(''runOverridesEnabled'', JBool True), (''runOverrides'', JObj snapshotRunOverrides)]"

definition clearProfileOverrides :: "profile \<Rightarrow> profile" where
  "clearProfileOverrides prev =
     (if \<not> truthy (obj_get prev ''runOverridesEnabled'') \<and> \<not> truthy (obj_get prev ''runOverrides'') then prev
      else obj_put_all prev [(''runOverridesEnabled'', JBool False), (''runOverrides'', JUndef)])"

section \<open>The effect\<close>

definition persisted :: "page \<Rightarrow> (nat \<Rightarrow> string) \<Rightarrow> nat \<times> profile \<Rightarrow> profile" where
  "persisted pg fresh ip = sanitizeProfileForPersistence (normalizeProfile (pg_env pg) (fresh (fst ip)) (pg_defaults pg) (snd ip))"

lemma effect_loop:
  "ea_normalized (foldl (effect_profile pg fresh) acc ips) = ea_normalized acc @ map (persisted pg fresh) ips"
  "ea_changed (foldl (effect_profile pg fresh) acc ips) \<longleftrightarrow>
     ea_changed acc \<or> (\<exists>ip\<in>set ips. profile_differs (pg_defaults pg) (persisted pg fresh ip) (snd ip))"
  by (induction ips arbitrary: acc) (auto simp: effect_profile_def Let_def persisted_def)

definition effect_out :: "page \<Rightarrow> (nat \<Rightarrow> string) \<Rightarrow> profile_state \<Rightarrow> profile list" where
  "effect_out pg fresh st = map (persisted pg fresh) (enumerate 0 (ps_profiles st))"

lemma effect_profiles:
  assumes "ps_profiles st \<noteq> []"
  shows "ps_profiles (normalize_effect pg fresh st) =
      (if \<exists>ip\<in>set (enumerate 0 (ps_profiles st)). profile_differs (pg_defaults pg) (persisted pg fresh ip) (snd ip)
       then effect_out pg fresh st else ps_profiles st)"
    and "ps_active (normalize_effect pg fresh st) =
      (if \<exists>p\<in>set (effect_out pg fresh st). obj_get p ''id'' = JStr (ps_active st) then ps_active st else first_id (effect_out pg fresh st))"
  using assms by (simp_all add: normalize_effect_def Let_def effect_loop effect_out_def)

lemma persisted_clean: "clean_profile (persisted pg fresh ip)"
  by (simp add: persisted_def sanitize_clean)

lemma strict_eq_JStr [simp]: "strict_eq (JStr s) v \<longleftrightarrow> v = JStr s"
  by (cases v) auto

lemma persisted_id: "\<exists>s. obj_get (persisted pg fresh ip) ''id'' = JStr s"
  by (auto simp: persisted_def sanitize_field profile_field unnamed_fields split: jsval.split)

lemma persisted_token:
  "obj_get (persisted pg fresh ip) ''brokerAuthToken'' = JStr []" "obj_get (persisted pg fresh ip) ''daemonAuthToken'' = JStr []"
  by (simp_all add: persisted_def sanitize_field)

lemma same_clean:
  assumes "\<not> profile_differs d (persisted pg fresh ip) p"
  shows "\<not> truthy (obj_get p ''brokerAuthToken'') \<and> \<not> truthy (obj_get p ''daemonAuthToken'') \<and>
    obj_get p ''id'' = obj_get (persisted pg fresh ip) ''id''"
proof -
  have t: "\<not> truthy v" if "js_or v (JStr []) = JStr []" for v using that by (cases v) (auto simp: js_or_def split: if_splits)
  obtain s where "obj_get (persisted pg fresh ip) ''id'' = JStr s" using persisted_id by blast
  then show ?thesis using assms by (simp add: profile_differs_def persisted_token t)
qed

lemma effect_tokens:
  assumes "p \<in> set (ps_profiles (normalize_effect pg fresh st))"
  shows "\<not> truthy (obj_get p ''brokerAuthToken'') \<and> \<not> truthy (obj_get p ''daemonAuthToken'')"
proof (cases "ps_profiles st = []")
  case True
  with assms have "p = sanitizeProfileForPersistence (buildLegacyProfile pg (fresh 0))"
    by (simp add: normalize_effect_def Let_def)
  then show ?thesis by (simp add: sanitize_field)
next
  case False
  show ?thesis
  proof (cases "\<exists>ip\<in>set (enumerate 0 (ps_profiles st)). profile_differs (pg_defaults pg) (persisted pg fresh ip) (snd ip)")
    case True
    with assms False show ?thesis by (auto simp: effect_profiles effect_out_def persisted_token)
  next
    case same: False
    with assms False have "p \<in> set (ps_profiles st)" by (simp add: effect_profiles)
    then obtain ip where "ip \<in> set (enumerate 0 (ps_profiles st))" "snd ip = p"
      by (metis imageE map_snd_enumerate list.set_map)
    with same same_clean show ?thesis by blast
  qed
qed

lemma effect_clean:
  assumes "list_all clean_profile (ps_profiles st)"
  shows "list_all clean_profile (ps_profiles (normalize_effect pg fresh st))"
proof (cases "ps_profiles st = []")
  case False
  with assms show ?thesis by (auto simp: effect_profiles effect_out_def list_all_iff persisted_clean)
qed (simp add: normalize_effect_def Let_def sanitize_clean)

lemma effect_active:
  "ps_profiles (normalize_effect pg fresh st) \<noteq> [] \<and>
   (\<exists>p\<in>set (ps_profiles (normalize_effect pg fresh st)). obj_get p ''id'' = JStr (ps_active (normalize_effect pg fresh st)))"
proof (cases "ps_profiles st = []")
  case True
  have "\<exists>s. obj_get (buildLegacyProfile pg (fresh 0)) ''id'' = JStr s"
    by (auto simp: buildLegacyProfile_def Let_def profile_field unnamed_fields)
  with True show ?thesis by (auto simp: normalize_effect_def Let_def sanitize_field)
next
  case False
  let ?out = "effect_out pg fresh st" and ?st = "normalize_effect pg fresh st"
  obtain o1 os where out: "?out = o1 # os" using False by (cases "ps_profiles st") (auto simp: effect_out_def)
  then have "o1 \<in> set ?out" by simp
  then have "\<exists>s. obj_get o1 ''id'' = JStr s" unfolding effect_out_def set_map using persisted_id by (metis imageE)
  then obtain s where "obj_get o1 ''id'' = JStr s" ..
  then have v: "\<exists>p\<in>set ?out. obj_get p ''id'' = JStr (ps_active ?st)"
    using out False by (auto simp: effect_profiles first_id_def)
  show ?thesis
  proof (cases "\<exists>ip\<in>set (enumerate 0 (ps_profiles st)). profile_differs (pg_defaults pg) (persisted pg fresh ip) (snd ip)")
    case True
    with v False out show ?thesis by (simp add: effect_profiles)
  next
    case same: False
    from v obtain ip where ip: "ip \<in> set (enumerate 0 (ps_profiles st))" "obj_get (persisted pg fresh ip) ''id'' = JStr (ps_active ?st)"
      by (auto simp: effect_out_def)
    then have "obj_get (snd ip) ''id'' = JStr (ps_active ?st)" using same same_clean by metis
    moreover have "snd ip \<in> set (ps_profiles st)" using ip(1) by (metis imageI map_snd_enumerate list.set_map)
    ultimately show ?thesis using same False by (auto simp: effect_profiles(1))
  qed
qed

section \<open>No secret is stored\<close>

inductive profile_step :: "page \<Rightarrow> profile_state \<Rightarrow> profile_state \<Rightarrow> bool" for pg where
  effect: "profile_step pg st (normalize_effect pg fresh st)"
| update: "profile_step pg st (updateActiveProfile pg f u st)"
| add: "profile_step pg st (addProfile pg i mode st)"
| duplicate: "profile_step pg st (duplicateProfile pg i st)"
| delete: "profile_step pg st (deleteProfile eager i st)"

lemma store_clean:
  assumes "list_all clean_profile (ps_profiles st)" "clean_profile p"
  shows "list_all clean_profile (store_profile st i p)"
proof -
  have "list_all clean_profile (xs[n := p])" if "list_all clean_profile xs" for xs n
    using that assms(2) set_update_subset_insert [of xs n p] by (auto simp: list_all_iff)
  with assms show ?thesis by (auto simp: store_profile_def Let_def)
qed

lemma step_clean:
  "profile_step pg st st' \<Longrightarrow> list_all clean_profile (ps_profiles st) \<Longrightarrow> list_all clean_profile (ps_profiles st')"
proof (induction rule: profile_step.induct)
  case (delete st eager i)
  then show ?case by (auto simp: deleteProfile_def Let_def list_all_iff)
qed (simp_all add: effect_clean updateActiveProfile_def store_clean sanitize_clean addProfile_def duplicateProfile_def append_profile_def Let_def)

text \<open>
  C29. No sequence of edits of the connection profiles (updates by any function, additions, copies,
  deletions, normalisations, in any order) puts a token or an API key into the stored profiles
  once they hold none. The normalisation that runs after each of them, from any stored
  state, leaves at least one profile, no token in any of them, and an active profile that exists.
\<close>

theorem profiles_hold_no_secret:
  "(list_all clean_profile (ps_profiles st) \<and> (profile_step pg)\<^sup>*\<^sup>* st st' \<longrightarrow> list_all clean_profile (ps_profiles st')) \<and>
   (let s = normalize_effect pg fresh st in
      ps_profiles s \<noteq> [] \<and> JStr (ps_active s) \<in> set (map (\<lambda>p. obj_get p ''id'') (ps_profiles s)) \<and>
      list_all (\<lambda>p. \<not> truthy (obj_get p ''brokerAuthToken'') \<and> \<not> truthy (obj_get p ''daemonAuthToken'')) (ps_profiles s))"
proof -
  have "(profile_step pg)\<^sup>*\<^sup>* st st' \<Longrightarrow> list_all clean_profile (ps_profiles st) \<Longrightarrow> list_all clean_profile (ps_profiles st')"
    by (induction rule: rtranclp_induct) (auto dest: step_clean)
  moreover have "JStr (ps_active s) \<in> set (map (\<lambda>p. obj_get p ''id'') (ps_profiles s))"
    if "\<exists>p\<in>set (ps_profiles s). obj_get p ''id'' = JStr (ps_active s)" for s
    using that by force
  ultimately show ?thesis
    using effect_active [of pg fresh st] effect_tokens [of _ pg fresh st] by (auto simp: Let_def list_all_iff)
qed

text \<open>A page without stored items, and a stored profile of it.\<close>

definition sample_page :: page where
  "sample_page = \<lparr>pg_env = \<lparr>url_parts = (\<lambda>_. None), page_protocol = None\<rparr>, pg_defaults = [], pg_local = (\<lambda>_. None), pg_session = (\<lambda>_. None)\<rparr>"

definition sample_profile :: "jsval \<Rightarrow> profile" where
  "sample_profile overrides =
     [(''id'', JStr ''p1''), (''name'', JStr ''home''), (''mode'', JStr ''direct''), (''base'', JStr ''http://h''), (''brokerBase'', JStr []),
      (''brokerAgentId'', JStr []), (''brokerDeploymentId'', JStr []), (''brokerCookieAuth'', JBool False),
      (''brokerAuthToken'', JStr []), (''daemonAuthToken'', JStr []), (''runOverridesEnabled'', JBool False), (''runOverrides'', overrides)]"

theorem profiles_hold_no_secret_witness:
  "list_all clean_profile (ps_profiles (deleteProfile True ''p1''
      (addProfile sample_page ''p2'' None \<lparr>ps_profiles = [sample_profile JUndef], ps_secrets = JObj [], ps_active = ''p1''\<rparr>)))"
proof -
  let ?st = "\<lparr>ps_profiles = [sample_profile JUndef], ps_secrets = JObj [], ps_active = ''p1''\<rparr>"
  have "(profile_step sample_page)\<^sup>*\<^sup>* ?st (deleteProfile True ''p1'' (addProfile sample_page ''p2'' None ?st))"
    by (rule rtranclp.rtrancl_into_rtrancl [OF r_into_rtranclp]) (rule profile_step.add, rule profile_step.delete)
  moreover have "list_all clean_profile (ps_profiles ?st)" by (simp add: sample_profile_def clean_profile_def)
  ultimately show ?thesis using profiles_hold_no_secret by blast
qed

section \<open>An update is read back\<close>

lemma find_index_nth:
  "find_index P xs = Some i \<Longrightarrow> i < length xs \<and> P (xs ! i) \<and> (\<forall>j<i. \<not> P (xs ! j))"
proof (induction xs arbitrary: i)
  case (Cons x xs)
  then show ?case by (cases i) (auto split: if_splits simp: less_Suc_eq_0_disj)
qed simp

lemma find_nth:
  assumes "i < length xs" "P (xs ! i)" "\<forall>j<i. \<not> P (xs ! j)"
  shows "find P xs = Some (xs ! i)"
  using assms by (auto simp: find_Some_iff)

lemma find_first_index: "find P xs = Some x \<Longrightarrow> P x \<and> (\<exists>i. find_index P xs = Some i \<and> xs ! i = x)"
  by (induction xs) (auto split: if_splits)

text \<open>The profile shown is the first with its identifier.\<close>

lemma base_first:
  assumes "ps_profiles st \<noteq> []"
  obtains i where "find_index (\<lambda>p. obj_get p ''id'' = obj_get (base_profile st) ''id'') (ps_profiles st) = Some i"
    "ps_profiles st ! i = base_profile st"
proof (cases "find (\<lambda>p. obj_get p ''id'' = JStr (ps_active st)) (ps_profiles st)")
  case None
  then have b: "base_profile st = ps_profiles st ! 0" using assms by (simp add: base_profile_def hd_conv_nth)
  have "find (\<lambda>p. obj_get p ''id'' = obj_get (base_profile st) ''id'') (ps_profiles st) = Some (ps_profiles st ! 0)"
    by (rule find_nth) (use assms b in simp_all)
  from find_first_index [OF this] b that show thesis by auto
next
  case (Some p)
  then have b: "base_profile st = p" "obj_get p ''id'' = JStr (ps_active st)"
    using find_first_index [OF Some] by (simp_all add: base_profile_def)
  from find_first_index [OF Some] b that show thesis by auto
qed

lemma base_after_store:
  assumes "ps_profiles st \<noteq> []" "obj_get q ''id'' = obj_get (base_profile st) ''id''"
    and i: "find_index (\<lambda>p. obj_get p ''id'' = obj_get (base_profile st) ''id'') (ps_profiles st) = Some i"
  shows "base_profile (st\<lparr>ps_profiles := (ps_profiles st)[i := q], ps_secrets := s\<rparr>) = q"
proof -
  let ?ps = "ps_profiles st" and ?b = "base_profile st" and ?act = "\<lambda>p. obj_get p ''id'' = JStr (ps_active st)"
  note n = find_index_nth [OF i]
  show ?thesis
  proof (cases "find ?act ?ps")
    case None
    then have "?b = hd ?ps" by (simp add: base_profile_def)
    then have "i = 0" using n assms(1) by (cases i) (auto simp: hd_conv_nth)
    moreover have "find ?act (?ps[i := q]) = None"
    proof -
      have "?b \<in> set ?ps" using \<open>?b = hd ?ps\<close> assms(1) by simp
      with None have "\<not> ?act ?b" by (auto simp: find_None_iff)
      with assms(2) have "\<not> ?act q" by simp
      with None show ?thesis using set_update_subset_insert [of ?ps i q] unfolding find_None_iff by blast
    qed
    ultimately show ?thesis using assms(1) by (cases ?ps) (simp_all add: base_profile_def)
  next
    case (Some p)
    then have b: "?b = p" "?act ?b" using find_first_index [OF Some] by (simp_all add: base_profile_def)
    have "find ?act (?ps[i := q]) = Some (?ps[i := q] ! i)"
      by (rule find_nth) (use n b assms(2) in simp_all)
    with n show ?thesis by (simp add: base_profile_def)
  qed
qed

lemma merge_id: "obj_get (mergeProfileSecrets p s) ''id'' = obj_get p ''id''"
  by (auto simp: mergeProfileSecrets_def Let_def js_obj_simps split: jsval.split)

lemma merge_no_secret: "obj_get (mergeProfileSecrets p (JObj [])) k = obj_get p k"
  by (simp add: merge_field)


lemma sample_normal: "normal_profile env d (sample_profile JUndef)"
  by (simp add: normal_profile_def normalizeProfile_def unnamed_profile_def sample_profile_def str_field_def flag_field_def
      normalizeRunOverrides_def js_trim_eval)

definition sample_update :: "profile \<Rightarrow> profile" where
  "sample_update p = obj_put (obj_put p ''base'' (JStr ''http://k'')) ''daemonAuthToken'' (JStr ''tok'')"

lemma sample_updated: "normal_profile env d (sample_update (sample_profile JUndef))"
  by (simp add: normal_profile_def normalizeProfile_def unnamed_profile_def sample_profile_def str_field_def flag_field_def
      normalizeRunOverrides_def js_trim_eval sample_update_def)

lemma sample_text_changes:
  "json_compact (JObj (sanitizeProfileForPersistence (sample_update (sample_profile JUndef)))) \<noteq> json_compact (JObj (sample_profile JUndef))"
  by code_simp


section \<open>What the comparison misses\<close>

text \<open>The fields the effect compares have their declared types.\<close>

definition typed_profile :: "profile \<Rightarrow> bool" where
  "typed_profile p \<longleftrightarrow>
     list_all (\<lambda>k. is_JStr (obj_get p k)) [''id'', ''name'', ''mode'', ''base'', ''brokerBase'', ''brokerAgentId'', ''brokerDeploymentId''] \<and>
     is_JBool (obj_get p ''brokerCookieAuth'') \<and> is_JBool (obj_get p ''runOverridesEnabled'')"

lemma strict_eq_refl: "is_JStr v \<or> is_JBool v \<Longrightarrow> strict_eq v v"
  by (cases v) auto

lemma no_difference:
  assumes "normal_profile (pg_env pg) (pg_defaults pg) p" "typed_profile p"
    and "obj_get p ''brokerAuthToken'' = JStr []" "obj_get p ''daemonAuthToken'' = JStr []"
  shows "\<not> profile_differs (pg_defaults pg) (persisted pg fresh (i, p)) p"
proof -
  have "persisted pg fresh (i, p) = sanitizeProfileForPersistence p" using assms(1) by (simp add: persisted_def normal_profile_def)
  with assms(2-) show ?thesis
    by (simp add: profile_differs_def sanitize_field typed_profile_def flag_field_def strict_eq_refl js_or_def)
qed

text \<open>
  The effect that moves secrets out of local storage compares run overrides with the API key already
  removed on both sides. So when no token is stored, profiles in normal form are never
  rewritten, and an API key among their overrides stays in local storage.
\<close>

lemma effect_misses_api_key:
  assumes "ps_profiles st \<noteq> []"
    and "list_all (\<lambda>p. normal_profile (pg_env pg) (pg_defaults pg) p \<and> typed_profile p \<and>
       obj_get p ''brokerAuthToken'' = JStr [] \<and> obj_get p ''daemonAuthToken'' = JStr []) (ps_profiles st)"
  shows "ps_profiles (normalize_effect pg fresh st) = ps_profiles st"
proof -
  have "\<not> profile_differs (pg_defaults pg) (persisted pg fresh ip) (snd ip)" if "ip \<in> set (enumerate 0 (ps_profiles st))" for ip
  proof -
    have "snd ip \<in> set (ps_profiles st)" using that by (metis imageI map_snd_enumerate list.set_map)
    with assms(2) show ?thesis using no_difference [of pg "snd ip" fresh "fst ip"] by (simp add: list_all_iff)
  qed
  with assms(1) show ?thesis by (simp add: effect_profiles)
qed

lemma key_override: "normalizeRunOverrides (JObj [(''apiKey'', JStr k)]) = JObj [(''apiKey'', JStr k)]"
  by (simp add: normalizeRunOverrides_def run_override_rows_def obj_of_opts_def put_some_def readString_def typeof_object_def)

lemma sample_key_normal: "normal_profile env d (sample_profile (JObj [(''apiKey'', JStr k)]))"
  by (simp add: normal_profile_def normalizeProfile_def unnamed_profile_def sample_profile_def str_field_def flag_field_def
      key_override js_trim_eval)

definition sample_pulled :: profile_state where
  "sample_pulled = pullServerPrefs sample_page (\<lambda>_. ''f'') (buildServerPrefs [sample_profile JUndef] ''p1'')
     \<lparr>ps_profiles = [sample_profile JUndef], ps_secrets = JObj [(''p1'', JObj [(''runOverridesApiKey'', JStr ''sk'')])], ps_active = ''p1''\<rparr>"

lemma sample_pulled_profiles: "ps_profiles sample_pulled = [sample_profile (JObj [(''apiKey'', JStr ''sk'')])]"
proof -
  let ?k = "sample_profile (JObj [(''apiKey'', JStr ''sk'')])"
  have m: "mergeProfileSecrets (sample_profile JUndef) (JObj [(''runOverridesApiKey'', JStr ''sk'')]) = ?k"
    by (simp add: mergeProfileSecrets_def sample_profile_def js_or_def)
  have "toServerProfile (sample_profile JUndef) = toServerProfile ?k"
    by (simp add: toServerProfile_def server_profile_keys_def sample_profile_def)
  then have "merge_profile (pg_env sample_page) (\<lambda>_. ''f'') (pg_defaults sample_page) [?k] (0, JObj (toServerProfile (sample_profile JUndef))) = ?k"
    using merge_own_profile [of "[?k]" ?k "pg_env sample_page" "pg_defaults sample_page" "\<lambda>_. ''f''" 0] by (simp add: sample_key_normal)
  moreover have "obj_get (sample_profile JUndef) ''id'' = JStr ''p1''" by (simp add: sample_profile_def)
  ultimately show ?thesis
    by (simp add: sample_pulled_def pullServerPrefs_def mergeServerPrefs_def buildServerPrefs_def Let_def m)
qed

text \<open>
  The state after a pull of unchanged profiles: the key that was only in session storage is now
  in local storage, and the effect leaves it there.
\<close>

text \<open>
  Deleting a profile never removes the last one and never leaves the list empty, and drops the
  secrets of exactly the profile named. The secrets go even when the profile stays: the only profile
  loses its tokens when its deletion is refused.
\<close>

lemma deleteProfile_keeps_one:
  "(ps_profiles st \<noteq> [] \<longrightarrow> ps_profiles (deleteProfile eager i st) \<noteq> []) \<and>
   (\<forall>k. js_get (ps_secrets (deleteProfile eager i st)) k = (if k = i then JUndef else obj_get (normalizeSecretMap (ps_secrets st)) k)) \<and>
   (\<forall>p. ps_profiles st = [p] \<longrightarrow> ps_profiles (deleteProfile eager i st) = [p])"
  by (simp add: deleteProfile_def Let_def js_obj_simps)

end
