(* ===== verification/History_Data.thy ===== *)
theory History_Data
  imports Json_Utils
begin

text \<open>
  \<^verbatim>\<open>src/ui/src/history/historyPanelData.ts\<close>: the rows of the history panel, read defensively from
  the daemon's answers, and the conversation built from them. A row is an object whose fields are
  each read by one of a few readers; a reader gives \<^verbatim>\<open>undefined\<close> for a value it does not
  accept, and the field is then present and undefined. \<open>read_row\<close> is the shape all row
  normalisers share; the locale \<open>row_reader\<close> states what such a normaliser promises.
\<close>

section \<open>Readers\<close>

definition asTrimmedString :: "jsval \<Rightarrow> jsval" where
  "asTrimmedString value =
     (case value of JStr s \<Rightarrow> if js_trim s \<noteq> [] then JStr (js_trim s) else JUndef | _ \<Rightarrow> JUndef)"

definition asFiniteNumber :: "jsval \<Rightarrow> jsval" where
  "asFiniteNumber value =
     (case value of
        JNum n \<Rightarrow> if is_finite n then JNum n else JUndef
      | JStr s \<Rightarrow> if js_trim s \<noteq> [] \<and> is_finite (js_Number_str s) then JNum (js_Number_str s) else JUndef
      | _ \<Rightarrow> JUndef)"

definition asOptionalBoolean :: "jsval \<Rightarrow> jsval" where
  "asOptionalBoolean value =
     (case value of
        JBool b \<Rightarrow> JBool b
      | JNum n \<Rightarrow> JBool (\<not> num_eq n (Fin 0))
      | JStr s \<Rightarrow>
          (let lowered = js_lower (js_trim s) in
           if lowered = [] then JUndef
           else if lowered = ''true'' \<or> lowered = ''1'' then JBool True
           else if lowered = ''false'' \<or> lowered = ''0'' then JBool False
           else JUndef)
      | _ \<Rightarrow> JUndef)"

definition parseUnknownRecordJson :: "jsval \<Rightarrow> jsval" where
  "parseUnknownRecordJson value =
     (case value of
        JStr s \<Rightarrow>
          (if js_trim s = [] then JUndef
           else case json_parse (js_trim s) of Some (JObj ps) \<Rightarrow> JObj ps | _ \<Rightarrow> JUndef)
      | _ \<Rightarrow> JUndef)"

datatype reader =
    RTrimmed
  | RText
  | RNumber
  | RNumberOr0
  | RFlag
  | RBool
  | RTrue
  | RRecord
  | REvents

definition toAgentEvent :: "jsval \<Rightarrow> jsval option" where
  "toAgentEvent value =
     (if \<not> isUnknownRecord value then None
      else case asTrimmedString (js_get value ''type'') of
             JStr t \<Rightarrow> Some (JObj [(''type'', JStr t), (''trace_id'', asTrimmedString (js_get value ''trace_id'')), (''data'', js_get value ''data'')])
           | _ \<Rightarrow> None)"

definition rows_with :: "(jsval \<Rightarrow> jsval option) \<Rightarrow> jsval \<Rightarrow> jsval list" where
  "rows_with f value = (case value of JArr xs \<Rightarrow> List.map_filter f xs | _ \<Rightarrow> [])"

definition normalizeAgentEvents :: "jsval \<Rightarrow> jsval list" where
  "normalizeAgentEvents = rows_with toAgentEvent"

fun read_field :: "reader \<Rightarrow> jsval \<Rightarrow> jsval" where
  "read_field RTrimmed v = asTrimmedString v"
| "read_field RText v = (if is_JStr v then v else JUndef)"
| "read_field RNumber v = asFiniteNumber v"
| "read_field RNumberOr0 v = js_coalesce (asFiniteNumber v) (JNum (Fin 0))"
| "read_field RFlag v = asOptionalBoolean v"
| "read_field RBool v = (if is_JBool v then v else JUndef)"
| "read_field RTrue v = (if v = JBool True then JBool True else JUndef)"
| "read_field RRecord v = (if isUnknownRecord v then v else JUndef)"
| "read_field REvents v = JArr (normalizeAgentEvents v)"

section \<open>Rows\<close>

type_synonym row_schema = "(string \<times> reader) list"

definition read_row :: "row_schema \<Rightarrow> jsval \<Rightarrow> jsval option" where
  "read_row sch value =
     (if \<not> isUnknownRecord value then None
      else Some (JObj (map (\<lambda>(k, r). (k, read_field r (js_get value k))) sch)))"

definition HistoryEntry :: row_schema where
  "HistoryEntry =
     [(''ts_unix_ms'', RNumberOr0), (''prompt'', RTrimmed), (''assistant_text'', RText), (''events'', REvents),
      (''ok'', RFlag), (''job_id'', RTrimmed), (''job_status'', RTrimmed), (''live'', RTrue), (''trace_id'', RTrimmed),
      (''tools'', RTrimmed), (''yolo'', RBool), (''host_policy'', RTrimmed), (''effective_automation_profile'', RTrimmed),
      (''automation_profile'', RTrimmed), (''model'', RTrimmed), (''base_url'', RTrimmed)]"

definition toHistoryEntry :: "jsval \<Rightarrow> jsval option" where
  "toHistoryEntry = read_row HistoryEntry"

definition normalizeHistoryEntries :: "jsval \<Rightarrow> jsval list" where
  "normalizeHistoryEntries = rows_with toHistoryEntry"

definition DbMessageRow :: row_schema where
  "DbMessageRow =
     [(''role'', RTrimmed), (''content'', RText), (''created_unix_ms'', RNumber), (''content_truncated'', RFlag),
      (''mm_json'', RText), (''mm_bytes'', RNumber)]"

definition toDbMessageRow :: "jsval \<Rightarrow> jsval option" where
  "toDbMessageRow = read_row DbMessageRow"

definition normalizeDbMessageRows :: "jsval \<Rightarrow> jsval list" where
  "normalizeDbMessageRows = rows_with toDbMessageRow"

definition DbRunSummaryRow :: row_schema where
  "DbRunSummaryRow =
     [(''run_id'', RNumber), (''id'', RNumber), (''ts_unix_ms'', RNumber), (''ok'', RFlag), (''error'', RText)]"

definition toDbRunSummaryRow :: "jsval \<Rightarrow> jsval option" where
  "toDbRunSummaryRow = read_row DbRunSummaryRow"

definition normalizeDbRunSummaryRows :: "jsval \<Rightarrow> jsval list" where
  "normalizeDbRunSummaryRows = rows_with toDbRunSummaryRow"

definition finite_num :: "jsval \<Rightarrow> rat option" where
  "finite_num v = (case v of JNum (Fin r) \<Rightarrow> Some r | _ \<Rightarrow> None)"

definition getDbRunNumericId :: "jsval \<Rightarrow> rat option" where
  "getDbRunNumericId row = opt_orelse (finite_num (js_get row ''run_id'')) (finite_num (js_get row ''id''))"

definition DbToolRecordRow :: row_schema where
  "DbToolRecordRow =
     [(''tool_name'', RTrimmed), (''arguments_json'', RText), (''result_text'', RText), (''result_for_prompt_text'', RText),
      (''result_truncated_for_prompt'', RFlag), (''ts_unix_ms'', RNumber), (''created_unix_ms'', RNumber), (''updated_unix_ms'', RNumber)]"

definition toDbToolRecordRow :: "jsval \<Rightarrow> jsval option" where
  "toDbToolRecordRow = read_row DbToolRecordRow"

definition normalizeDbRunDetailRow :: "jsval \<Rightarrow> jsval option" where
  "normalizeDbRunDetailRow value =
     (if \<not> isUnknownRecord value then None
      else Some (JObj
        [(''ok'', JBool (js_get value ''ok'' = JBool True)),
         (''run'', (case toDbRunSummaryRow (js_get value ''run'') of Some r \<Rightarrow> r | None \<Rightarrow> JUndef)),
         (''tool_records'', JArr (rows_with toDbToolRecordRow (js_get value ''tool_records'')))]))"

text \<open>The two row types with a record that may be given as JSON text.\<close>

definition record_or_json :: "jsval \<Rightarrow> string \<Rightarrow> string \<Rightarrow> jsval" where
  "record_or_json value k kj =
     (if isUnknownRecord (js_get value k) then js_get value k else parseUnknownRecordJson (js_get value kj))"

definition ui_action_head :: row_schema where
  "ui_action_head =
     [(''id'', RNumber), (''run_id'', RNumber), (''ts_unix_ms'', RNumber), (''tool_call_id'', RTrimmed), (''type'', RTrimmed),
      (''title'', RTrimmed), (''message'', RText), (''path'', RTrimmed), (''mime'', RTrimmed), (''repeat'', RNumber), (''autoplay'', RFlag)]"

definition toDbUiActionRow :: "jsval \<Rightarrow> jsval option" where
  "toDbUiActionRow value =
     (if \<not> isUnknownRecord value then None
      else Some (JObj (map (\<lambda>(k, r). (k, read_field r (js_get value k))) ui_action_head @
        [(''action'', record_or_json value ''action'' ''action_json''), (''action_json'', read_field RText (js_get value ''action_json''))])))"

definition normalizeDbUiActionRows :: "jsval \<Rightarrow> jsval list" where
  "normalizeDbUiActionRows = rows_with toDbUiActionRow"

definition client_event_head :: row_schema where
  "client_event_head = [(''id'', RNumber), (''ts_unix_ms'', RNumber), (''type'', RTrimmed)]"

definition toDbClientEventRow :: "jsval \<Rightarrow> jsval option" where
  "toDbClientEventRow value =
     (if \<not> isUnknownRecord value then None
      else Some (JObj (map (\<lambda>(k, r). (k, read_field r (js_get value k))) client_event_head @
        [(''data'', record_or_json value ''data'' ''data_json''), (''data_json'', read_field RText (js_get value ''data_json''))])))"

definition normalizeDbClientEventRows :: "jsval \<Rightarrow> jsval list" where
  "normalizeDbClientEventRows = rows_with toDbClientEventRow"

definition artifact_row :: "jsval \<Rightarrow> jsval option" where
  "artifact_row row =
     (if \<not> isUnknownRecord row then None
      else
        let nestedData = (if isUnknownRecord (js_get row ''data'') then js_get row ''data'' else JNull);
            artifact = js_coalesce (js_coalesce (js_get nestedData ''artifact'') (js_get row ''artifact'')) row;
            artifactRecord = (if isUnknownRecord artifact then artifact else JNull)
        in if artifact = JUndef then None
           else Some (JObj
             [(''artifact'', artifact),
              (''path'', asTrimmedString (js_get artifactRecord ''path'')),
              (''resolved_path'', asTrimmedString (js_get artifactRecord ''resolved_path'')),
              (''tool_call_id'',
                 js_coalesce (js_coalesce (asTrimmedString (js_get nestedData ''tool_call_id'')) (asTrimmedString (js_get row ''tool_call_id'')))
                   (asTrimmedString (js_get artifactRecord ''tool_call_id''))),
              (''kind'', js_coalesce (asTrimmedString (js_get artifactRecord ''kind'')) (asTrimmedString (js_get row ''kind''))),
              (''title'', js_coalesce (asTrimmedString (js_get artifactRecord ''title'')) (asTrimmedString (js_get row ''title'')))]))"

definition normalizeSessionArtifactRows :: "jsval \<Rightarrow> jsval list" where
  "normalizeSessionArtifactRows = rows_with artifact_row"

definition toSceneEntity :: "jsval \<Rightarrow> string \<Rightarrow> (string \<times> jsval) option" where
  "toSceneEntity value fallbackId =
     (if \<not> isUnknownRecord value then None
      else case (js_coalesce (asTrimmedString (js_get value ''id'')) (asTrimmedString (JStr fallbackId)), asTrimmedString (js_get value ''kind'')) of
             (JStr i, JStr kind) \<Rightarrow> Some (i, JObj
               [(''id'', JStr i), (''kind'', JStr kind), (''title'', asTrimmedString (js_get value ''title'')),
                (''props'', read_field RRecord (js_get value ''props'')),
                (''created_ms'', asFiniteNumber (js_get value ''created_ms'')), (''updated_ms'', asFiniteNumber (js_get value ''updated_ms''))])
           | _ \<Rightarrow> None)"

definition scene_step :: "jsval jsobj \<Rightarrow> string \<times> jsval \<Rightarrow> jsval jsobj" where
  "scene_step next kv = (case toSceneEntity (snd kv) (fst kv) of Some (i, e) \<Rightarrow> obj_put next i e | None \<Rightarrow> next)"

definition normalizeSceneEntityStore :: "jsval \<Rightarrow> jsval jsobj" where
  "normalizeSceneEntityStore value =
     (if \<not> isUnknownRecord value then [] else foldl scene_step [] (js_entries (safeObject value)))"

definition normalizeSessionSceneSnapshot :: "jsval \<Rightarrow> jsval option" where
  "normalizeSessionSceneSnapshot value =
     (if \<not> isUnknownRecord value \<or> js_get value ''ok'' \<noteq> JBool True then None
      else Some (JObj [(''updated_unix_ms'', asFiniteNumber (js_get value ''updated_unix_ms'')),
                       (''scene'', JObj (normalizeSceneEntityStore (js_get value ''scene'')))]))"

record ParsedToolArguments =
  ta_cmd :: jsval
  ta_argv :: "string list option"

definition parseToolArgumentsJson :: "string \<Rightarrow> ParsedToolArguments option" where
  "parseToolArgumentsJson raw =
     (if js_trim raw = [] then None
      else case json_parse (js_trim raw) of
             Some (JObj ps) \<Rightarrow>
               (let argv = (case obj_get ps ''argv'' of
                       JArr xs \<Rightarrow> filter (\<lambda>s. s \<noteq> []) (map (\<lambda>v. case v of JStr s \<Rightarrow> s | _ \<Rightarrow> []) xs)
                     | _ \<Rightarrow> [])
                in Some \<lparr>ta_cmd = asTrimmedString (obj_get ps ''cmd''), ta_argv = (if argv \<noteq> [] then Some argv else None)\<rparr>)
           | _ \<Rightarrow> None)"

section \<open>The conversation\<close>

datatype PersistedConversationItem =
    Message (item_ts: jsnum) (item_message: jsval)
  | Tool_record (item_ts: jsnum) (item_run: jsval) (item_runId: "rat option") (item_details: jsval) (item_tool: jsval)

definition num_or_0 :: "jsval \<Rightarrow> jsnum" where
  "num_or_0 v = (case v of JNum n \<Rightarrow> n | _ \<Rightarrow> Fin 0)"

definition message_item :: "jsval \<Rightarrow> PersistedConversationItem list" where
  "message_item message =
     (let ts = num_or_0 (js_get message ''created_unix_ms'') in
      if \<not> truthy (JNum ts) then [] else [Message ts message])"

text \<open>\<^verbatim>\<open>ts + idx + 1\<close>, and the time of a tool record: the first of its three times that is set.\<close>

definition num_plus :: "jsnum \<Rightarrow> nat \<Rightarrow> jsnum" where
  "num_plus ts k = (case ts of Fin r \<Rightarrow> Fin (r + of_nat k) | _ \<Rightarrow> ts)"

definition tool_ts :: "jsnum \<Rightarrow> nat \<Rightarrow> jsval \<Rightarrow> jsnum" where
  "tool_ts ts idx rec =
     num_or_0 (js_or (js_get rec ''ts_unix_ms'') (js_or (js_get rec ''created_unix_ms'')
       (js_or (js_get rec ''updated_unix_ms'') (JNum (num_plus ts (idx + 1))))))"

definition run_details :: "jsval jsobj \<Rightarrow> jsval \<Rightarrow> jsval" where
  "run_details detailsById run =
     (case getDbRunNumericId run of Some r \<Rightarrow> obj_get detailsById (num_str (Fin r)) | None \<Rightarrow> JUndef)"

definition tool_records :: "jsval \<Rightarrow> jsval list" where
  "tool_records details = (case js_get details ''tool_records'' of JArr xs \<Rightarrow> xs | _ \<Rightarrow> [])"

definition run_items :: "jsval jsobj \<Rightarrow> jsval \<Rightarrow> PersistedConversationItem list" where
  "run_items detailsById run =
     (let ts = num_or_0 (js_get run ''ts_unix_ms'') in
      if \<not> truthy (JNum ts) then []
      else
        let details = run_details detailsById run in
        map (\<lambda>(idx, rec). Tool_record (tool_ts ts idx rec) run (getDbRunNumericId run) details rec)
          (enumerate 0 (tool_records details)))"

definition by_ts :: "PersistedConversationItem \<Rightarrow> PersistedConversationItem \<Rightarrow> bool" where
  "by_ts a b = (\<not> num_lt (item_ts b) (item_ts a))"

definition buildPersistedConversationItems ::
  "jsval list \<Rightarrow> jsval list \<Rightarrow> jsval jsobj \<Rightarrow> PersistedConversationItem list" where
  "buildPersistedConversationItems dbMessages dbRuns detailsById =
     js_sort by_ts (concat (map message_item dbMessages) @ concat (map (run_items detailsById) dbRuns))"

text \<open>The two searches for the newest row: \<open>later\<close> is the test of the loop body.\<close>

definition later :: "string \<Rightarrow> jsval option \<Rightarrow> jsval \<Rightarrow> jsval option" where
  "later k prev row =
     (case prev of
        None \<Rightarrow> Some row
      | Some l \<Rightarrow>
          if num_le (num_or_0 (js_or (js_get l k) (JNum (Fin 0)))) (num_or_0 (js_get row k)) then Some row else Some l)"

definition findLastAssistantMessage :: "jsval list \<Rightarrow> jsval option" where
  "findLastAssistantMessage messages =
     foldl (\<lambda>prev m. if js_get m ''role'' \<noteq> JStr ''assistant'' then prev else later ''created_unix_ms'' prev m) None messages"

definition findLastRun :: "jsval list \<Rightarrow> jsval option" where
  "findLastRun runs = foldl (later ''ts_unix_ms'') None runs"

section \<open>Rows are typed, and reading them again changes nothing\<close>

fun field_value :: "reader \<Rightarrow> jsval \<Rightarrow> bool" where
  "field_value RTrimmed v = (v = JUndef \<or> (\<exists>s. v = JStr s \<and> s \<noteq> [] \<and> trimmed s))"
| "field_value RText v = (v = JUndef \<or> is_JStr v)"
| "field_value RNumber v = (v = JUndef \<or> (\<exists>r. v = JNum (Fin r)))"
| "field_value RNumberOr0 v = (\<exists>r. v = JNum (Fin r))"
| "field_value RFlag v = (v = JUndef \<or> is_JBool v)"
| "field_value RBool v = (v = JUndef \<or> is_JBool v)"
| "field_value RTrue v = (v = JUndef \<or> v = JBool True)"
| "field_value RRecord v = (v = JUndef \<or> is_JObj v)"
| "field_value REvents v = (case v of JArr es \<Rightarrow> list_all (\<lambda>e. toAgentEvent e = Some e) es | _ \<Rightarrow> False)"

definition row_typed :: "row_schema \<Rightarrow> jsval \<Rightarrow> bool" where
  "row_typed sch v \<longleftrightarrow> is_JObj v \<and> list_all (\<lambda>(k, r). field_value r (js_get v k)) sch"

text \<open>What a row normaliser promises: rows it gives are good, and it leaves them as they are.\<close>

locale row_reader =
  fixes norm :: "jsval \<Rightarrow> jsval option" and good :: "jsval \<Rightarrow> bool"
  assumes norm_good: "norm v = Some w \<Longrightarrow> good w"
    and norm_idem: "norm v = Some w \<Longrightarrow> norm w = Some w"
begin

lemma rows_good: "list_all good (rows_with norm v)"
proof (cases v)
  case (JArr xs)
  have "list_all good (List.map_filter norm xs)"
    by (induction xs) (auto simp: map_filter_simps norm_good split: option.split)
  with JArr show ?thesis by (simp add: rows_with_def)
qed (simp_all add: rows_with_def)

lemma rows_fixed: "list_all (\<lambda>w. norm w = Some w) (rows_with norm v)"
proof (cases v)
  case (JArr xs)
  have "list_all (\<lambda>w. norm w = Some w) (List.map_filter norm xs)"
    by (induction xs) (auto simp: map_filter_simps norm_idem split: option.split)
  with JArr show ?thesis by (simp add: rows_with_def)
qed (simp_all add: rows_with_def)

lemma rows_idem: "rows_with norm (JArr (rows_with norm v)) = rows_with norm v"
proof -
  have "list_all (\<lambda>w. norm w = Some w) ws \<Longrightarrow> List.map_filter norm ws = ws" for ws
    by (induction ws) (simp_all add: map_filter_simps)
  from this [OF rows_fixed] show ?thesis by (simp add: rows_with_def)
qed

end

lemma asTrimmedString_simps [simp]:
  "asTrimmedString JUndef = JUndef" "asTrimmedString (asTrimmedString v) = asTrimmedString v"
  by (cases v; simp add: asTrimmedString_def)+

lemma asTrimmedString_JStr: "asTrimmedString v = JStr s \<Longrightarrow> s \<noteq> [] \<and> trimmed s \<and> asTrimmedString (JStr s) = JStr s"
  by (cases v) (auto simp: asTrimmedString_def split: if_splits)

lemma toAgentEvent_idem: "toAgentEvent v = Some w \<Longrightarrow> toAgentEvent w = Some w"
  by (cases "asTrimmedString (js_get v ''type'')")
    (auto simp: toAgentEvent_def split: if_splits dest: asTrimmedString_JStr)

interpretation agent_events: row_reader toAgentEvent "\<lambda>w. toAgentEvent w = Some w"
  by unfold_locales (auto dest: toAgentEvent_idem)

lemma read_field_value: "field_value r (read_field r v)"
  using agent_events.rows_fixed [of v]
  by (cases r) (auto simp: asTrimmedString_def asFiniteNumber_def asOptionalBoolean_def js_coalesce_def nullish_def is_finite_iff
      normalizeAgentEvents_def Let_def split: jsval.split)

lemma read_field_idem: "read_field r (read_field r v) = read_field r v"
  using agent_events.rows_idem [of v]
  by (cases r) (auto simp: asFiniteNumber_def asOptionalBoolean_def js_coalesce_def nullish_def is_finite_iff
      normalizeAgentEvents_def Let_def split: jsval.split)

lemma obj_get_fields: "distinct (map fst sch) \<Longrightarrow> (k, r) \<in> set sch \<Longrightarrow> obj_get (map (\<lambda>(k, r). (k, f k r)) sch @ ps) k = f k r"
  by (induction sch) (auto simp: image_iff)

lemma read_row_lookup:
  assumes "distinct (map fst sch)" "(k, r) \<in> set sch"
  shows "js_get (JObj (map (\<lambda>(k, r). (k, read_field r (js_get v k))) sch @ ps)) k = read_field r (js_get v k)"
  using obj_get_fields [OF assms, of "\<lambda>k r. read_field r (js_get v k)" ps] by simp

lemma read_fields_again:
  assumes "distinct (map fst sch)" and w: "w = JObj (map (\<lambda>(k, r). (k, read_field r (js_get v k))) sch @ ps)"
  shows "map (\<lambda>(k, r). (k, read_field r (js_get w k))) sch = map (\<lambda>(k, r). (k, read_field r (js_get v k))) sch"
    and "list_all (\<lambda>(k, r). field_value r (js_get w k)) sch"
  unfolding w list_all_iff
  using read_row_lookup [OF assms(1), of _ _ v ps] by (auto simp: read_field_idem read_field_value simp del: js_get.simps)

lemma row_reader_read_row: "distinct (map fst sch) \<Longrightarrow> row_reader (read_row sch) (row_typed sch)"
proof
  fix v w assume d: "distinct (map fst sch)" and n: "read_row sch v = Some w"
  then have w: "w = JObj (map (\<lambda>(k, r). (k, read_field r (js_get v k))) sch @ [])"
    by (simp add: read_row_def split: if_splits)
  note again = read_fields_again [OF d w]
  show "row_typed sch w" using again(2) w by (simp add: row_typed_def)
  have "isUnknownRecord w" using w by simp
  then show "read_row sch w = Some w" unfolding read_row_def again(1) using w by simp
qed

interpretation history_entries: row_reader toHistoryEntry "row_typed HistoryEntry"
  unfolding toHistoryEntry_def by (rule row_reader_read_row) (simp add: HistoryEntry_def)

interpretation message_rows: row_reader toDbMessageRow "row_typed DbMessageRow"
  unfolding toDbMessageRow_def by (rule row_reader_read_row) (simp add: DbMessageRow_def)

interpretation run_rows: row_reader toDbRunSummaryRow "row_typed DbRunSummaryRow"
  unfolding toDbRunSummaryRow_def by (rule row_reader_read_row) (simp add: DbRunSummaryRow_def)

interpretation tool_rows: row_reader toDbToolRecordRow "row_typed DbToolRecordRow"
  unfolding toDbToolRecordRow_def by (rule row_reader_read_row) (simp add: DbToolRecordRow_def)

lemma record_or_json_again:
  assumes "js_get w k = record_or_json v k kj" "js_get w kj = read_field RText (js_get v kj)"
  shows "record_or_json w k kj = record_or_json v k kj"
proof -
  have "parseUnknownRecordJson (read_field RText u) = parseUnknownRecordJson u" for u
    by (cases u) (simp_all add: parseUnknownRecordJson_def)
  with assms show ?thesis unfolding record_or_json_def by auto
qed

lemma head_row_again:
  assumes "distinct (map fst sch @ [k, kj])"
    and w: "w = JObj (map (\<lambda>(k, r). (k, read_field r (js_get v k))) sch @ [(k, record_or_json v k kj), (kj, read_field RText (js_get v kj))])"
  shows "w = JObj (map (\<lambda>(k, r). (k, read_field r (js_get w k))) sch @ [(k, record_or_json w k kj), (kj, read_field RText (js_get w kj))])"
    and "row_typed (sch @ [(k, RRecord), (kj, RText)]) w"
proof -
  have d: "distinct (map fst sch)" using assms(1) by simp
  have nk: "obj_get (map (\<lambda>(k, r). (k, read_field r (js_get v k))) sch @ ps) x = obj_get ps x" if "x \<notin> fst ` set sch" for ps x
    using that by (induction sch) auto
  have "k \<notin> fst ` set sch" "kj \<notin> fst ` set sch" "k \<noteq> kj" using assms(1) by auto
  then have l: "js_get w k = record_or_json v k kj" "js_get w kj = read_field RText (js_get v kj)"
    unfolding w by (simp_all add: nk)
  note r = record_or_json_again [OF l]
  have t: "read_field RText (js_get w kj) = read_field RText (js_get v kj)" unfolding l by simp
  show "w = JObj (map (\<lambda>(k, r). (k, read_field r (js_get w k))) sch @ [(k, record_or_json w k kj), (kj, read_field RText (js_get w kj))])"
    unfolding read_fields_again(1) [OF d w] r t by (rule w)
  have "field_value RRecord (record_or_json v k kj)"
    by (auto simp: record_or_json_def parseUnknownRecordJson_def split: jsval.split option.split)
  moreover have "field_value RText (js_get w kj)" unfolding l(2) by simp
  ultimately show "row_typed (sch @ [(k, RRecord), (kj, RText)]) w"
    using read_fields_again(2) [OF d w] l(1) w by (simp add: row_typed_def del: js_get.simps)
qed

interpretation ui_actions: row_reader toDbUiActionRow "row_typed (ui_action_head @ [(''action'', RRecord), (''action_json'', RText)])"
proof
  fix v w assume "toDbUiActionRow v = Some w"
  then have w: "w = JObj (map (\<lambda>(k, r). (k, read_field r (js_get v k))) ui_action_head @
      [(''action'', record_or_json v ''action'' ''action_json''), (''action_json'', read_field RText (js_get v ''action_json''))])"
    unfolding toDbUiActionRow_def by (simp del: isUnknownRecord_iff read_field.simps split: if_splits)
  have d: "distinct (map fst ui_action_head @ [''action'', ''action_json''])" by (simp add: ui_action_head_def)
  show "row_typed (ui_action_head @ [(''action'', RRecord), (''action_json'', RText)]) w" by (rule head_row_again(2) [OF d w])
  have "isUnknownRecord w" using w by simp
  then show "toDbUiActionRow w = Some w" unfolding toDbUiActionRow_def using head_row_again(1) [OF d w] by argo
qed

interpretation client_events: row_reader toDbClientEventRow "row_typed (client_event_head @ [(''data'', RRecord), (''data_json'', RText)])"
proof
  fix v w assume "toDbClientEventRow v = Some w"
  then have w: "w = JObj (map (\<lambda>(k, r). (k, read_field r (js_get v k))) client_event_head @
      [(''data'', record_or_json v ''data'' ''data_json''), (''data_json'', read_field RText (js_get v ''data_json''))])"
    unfolding toDbClientEventRow_def by (simp del: isUnknownRecord_iff read_field.simps split: if_splits)
  have d: "distinct (map fst client_event_head @ [''data'', ''data_json''])" by (simp add: client_event_head_def)
  show "row_typed (client_event_head @ [(''data'', RRecord), (''data_json'', RText)]) w" by (rule head_row_again(2) [OF d w])
  have "isUnknownRecord w" using w by simp
  then show "toDbClientEventRow w = Some w" unfolding toDbClientEventRow_def using head_row_again(1) [OF d w] by argo
qed

text \<open>
  Every row the history panel reads, whatever the daemon sends, has in each field a value of the
  declared type or nothing, with identifiers trimmed and numbers finite; and
  normalising the rows again changes nothing.
\<close>

lemma history_rows_normal:
  "list_all (row_typed HistoryEntry) (normalizeHistoryEntries v) \<and>
   list_all (row_typed DbMessageRow) (normalizeDbMessageRows v) \<and>
   list_all (row_typed DbRunSummaryRow) (normalizeDbRunSummaryRows v) \<and>
   list_all (row_typed (ui_action_head @ [(''action'', RRecord), (''action_json'', RText)])) (normalizeDbUiActionRows v) \<and>
   list_all (row_typed (client_event_head @ [(''data'', RRecord), (''data_json'', RText)])) (normalizeDbClientEventRows v) \<and>
   list_all (\<lambda>norm. norm (JArr (norm v)) = norm v)
     [normalizeHistoryEntries, normalizeDbMessageRows, normalizeDbRunSummaryRows, normalizeDbUiActionRows,
      normalizeDbClientEventRows, normalizeAgentEvents]"
  unfolding normalizeHistoryEntries_def normalizeDbMessageRows_def normalizeDbRunSummaryRows_def
    normalizeDbUiActionRows_def normalizeDbClientEventRows_def normalizeAgentEvents_def
  by (simp add: history_entries.rows_good history_entries.rows_idem message_rows.rows_good message_rows.rows_idem
      run_rows.rows_good run_rows.rows_idem ui_actions.rows_good ui_actions.rows_idem client_events.rows_good
      client_events.rows_idem agent_events.rows_idem)

section \<open>The conversation is complete and in order\<close>

definition is_message :: "PersistedConversationItem \<Rightarrow> bool" where
  "is_message i = (case i of Message _ _ \<Rightarrow> True | _ \<Rightarrow> False)"

definition timed :: "string \<Rightarrow> jsval \<Rightarrow> bool" where
  "timed k row = truthy (JNum (num_or_0 (js_get row k)))"

definition details_typed :: "jsval jsobj \<Rightarrow> bool" where
  "details_typed d = list_all (\<lambda>e. list_all (row_typed DbToolRecordRow) (tool_records (snd e))) d"

lemma typed_num:
  assumes "row_typed sch row" "(k, RNumber) \<in> set sch"
  shows "js_get row k = JUndef \<or> (\<exists>r. js_get row k = JNum (Fin r))"
  using assms by (fastforce simp: row_typed_def list_all_iff)

lemma typed_num_finite: "row_typed sch row \<Longrightarrow> (k, RNumber) \<in> set sch \<Longrightarrow> is_finite (num_or_0 (js_get row k))"
  using typed_num by (fastforce simp: num_or_0_def)

lemma tool_ts_finite:
  assumes "row_typed DbToolRecordRow rec" "is_finite ts"
  shows "is_finite (tool_ts ts idx rec)"
proof -
  have n: "num_or_0 (js_or a b) = (if truthy a then num_or_0 a else num_or_0 b)" for a b by (simp add: js_or_def)
  have "is_finite (num_or_0 (js_get rec k))" if "k \<in> {''ts_unix_ms'', ''created_unix_ms'', ''updated_unix_ms''}" for k
    using that by (intro typed_num_finite [OF assms(1)]) (auto simp: DbToolRecordRow_def)
  moreover have "is_finite (num_or_0 (JNum (num_plus ts (idx + 1))))"
    using assms(2) by (auto simp: num_or_0_def num_plus_def is_finite_iff)
  ultimately show ?thesis unfolding tool_ts_def n by simp
qed

lemma run_records_typed:
  assumes "details_typed d"
  shows "list_all (row_typed DbToolRecordRow) (tool_records (run_details d run))"
proof -
  have "list_all (row_typed DbToolRecordRow) (tool_records (obj_get d k))" for k
  proof (cases "map_of d k")
    case (Some v)
    with assms show ?thesis by (auto simp: details_typed_def list_all_iff obj_get.simps dest!: map_of_SomeD)
  qed (simp add: tool_records_def obj_get.simps)
  then show ?thesis by (auto simp: run_details_def tool_records_def split: option.split)
qed

lemma items_finite:
  assumes "list_all (row_typed DbMessageRow) ms" "list_all (row_typed DbRunSummaryRow) rs" "details_typed d"
    and "i \<in> set (concat (map message_item ms) @ concat (map (run_items d) rs))"
  shows "is_finite (item_ts i)"
proof -
  have m: "is_finite (num_or_0 (js_get m ''created_unix_ms''))" if "m \<in> set ms" for m
    using assms(1) that by (intro typed_num_finite [of DbMessageRow]) (auto simp: list_all_iff DbMessageRow_def)
  have r: "is_finite (num_or_0 (js_get run ''ts_unix_ms''))" if "run \<in> set rs" for run
    using assms(2) that by (intro typed_num_finite [of DbRunSummaryRow]) (auto simp: list_all_iff DbRunSummaryRow_def)
  have "is_finite (item_ts i)" if "run \<in> set rs" "i \<in> set (run_items d run)" for run
  proof -
    from that(2) obtain idx rec where "i = Tool_record (tool_ts (num_or_0 (js_get run ''ts_unix_ms'')) idx rec) run (getDbRunNumericId run) (run_details d run) rec"
      "rec \<in> set (tool_records (run_details d run))"
      by (auto simp: run_items_def Let_def split: if_splits dest: in_set_enumerate_eq [THEN iffD1]) (auto simp: in_set_enumerate_eq)
    with r [OF that(1)] run_records_typed [OF assms(3), of run] show ?thesis by (simp add: tool_ts_finite list_all_iff)
  qed
  with assms(4) m show ?thesis by (auto simp: message_item_def Let_def split: if_splits)
qed

definition fin_val :: "jsnum \<Rightarrow> rat" where
  "fin_val n = (case n of Fin r \<Rightarrow> r | _ \<Rightarrow> 0)"

lemma sorted_items:
  assumes "\<And>i. i \<in> set items \<Longrightarrow> is_finite (item_ts i)"
  shows "sorted_wrt (\<lambda>a b. num_le (item_ts a) (item_ts b)) (js_sort by_ts items)"
proof -
  have "by_ts a b = key_asc (\<lambda>i. fin_val (item_ts i)) a b" if "a \<in> set items" "b \<in> set items" for a b
    using assms [OF that(1)] assms [OF that(2)] by (auto simp: by_ts_def key_asc_def fin_val_def is_finite_iff)
  then have "js_sort by_ts items = js_sort (key_asc (\<lambda>i. fin_val (item_ts i))) items" by (rule js_sort_cong)
  moreover have "sorted_wrt (\<lambda>a b. num_le (item_ts a) (item_ts b)) (js_sort (key_asc (\<lambda>i. fin_val (item_ts i))) items)"
  proof (rule sorted_wrt_mono_rel [OF _ asc.sorted_js_sort])
    fix a b assume ab: "a \<in> set (js_sort (key_asc (\<lambda>i. fin_val (item_ts i))) items)" "b \<in> set (js_sort (key_asc (\<lambda>i. fin_val (item_ts i))) items)"
      and "key_asc (\<lambda>i. fin_val (item_ts i)) a b"
    with assms [of a] assms [of b] show "num_le (item_ts a) (item_ts b)"
      by (auto simp: key_asc_def fin_val_def is_finite_iff)
  qed
  ultimately show ?thesis by simp
qed

lemma split_items:
  "filter is_message (concat (map message_item ms)) = concat (map message_item ms)"
  "filter is_message (concat (map (run_items d) rs)) = []"
  "filter (\<lambda>i. \<not> is_message i) (concat (map message_item ms)) = []"
  "filter (\<lambda>i. \<not> is_message i) (concat (map (run_items d) rs)) = concat (map (run_items d) rs)"
  by (auto simp: filter_id_conv filter_empty_conv message_item_def run_items_def is_message_def Let_def split: if_splits)

lemma message_items: "map item_message (concat (map message_item ms)) = filter (timed ''created_unix_ms'') ms"
  by (induction ms) (auto simp: message_item_def timed_def Let_def)

lemma run_items_eq:
  "map (\<lambda>i. (item_run i, item_tool i)) (concat (map (run_items d) rs)) =
     concat (map (\<lambda>run. map (Pair run) (tool_records (run_details d run))) (filter (timed ''ts_unix_ms'') rs))"
proof -
  have "map (\<lambda>i. (item_run i, item_tool i)) (run_items d run) =
      (if timed ''ts_unix_ms'' run then map (Pair run) (tool_records (run_details d run)) else [])" for run
  proof -
    have "map (\<lambda>i. (item_run i, item_tool i)) (map (\<lambda>(idx, rec). Tool_record (f idx rec) run a b rec) (enumerate k xs)) = map (Pair run) xs" for f a b k xs
      by (induction xs arbitrary: k) auto
    then show ?thesis by (simp add: run_items_def timed_def Let_def)
  qed
  then show ?thesis by (induction rs) auto
qed



section \<open>The newest row\<close>

definition row_ts :: "string \<Rightarrow> jsval \<Rightarrow> jsnum" where
  "row_ts k row = num_or_0 (js_get row k)"

definition last_newest :: "string \<Rightarrow> jsval list \<Rightarrow> jsval \<Rightarrow> bool" where
  "last_newest k rows r \<longleftrightarrow> (\<exists>pre post. rows = pre @ r # post \<and>
     list_all (\<lambda>x. num_le (row_ts k x) (row_ts k r)) pre \<and> list_all (\<lambda>x. num_lt (row_ts k x) (row_ts k r)) post)"

lemma later_step:
  assumes "is_finite (row_ts k l)" "is_finite (row_ts k x)"
  shows "later k (Some l) x = (if num_le (row_ts k l) (row_ts k x) then Some x else Some l)"
proof -
  have "num_or_0 (js_or (js_get l k) (JNum (Fin 0))) = row_ts k l"
    using assms(1) by (cases "js_get l k") (auto simp: row_ts_def num_or_0_def js_or_def is_finite_iff)
  then show ?thesis by (simp add: later_def row_ts_def)
qed

lemma foldl_later:
  "list_all (\<lambda>x. is_finite (row_ts k x)) rows \<Longrightarrow>
   (case foldl (later k) None rows of None \<Rightarrow> rows = [] | Some r \<Rightarrow> last_newest k rows r)"
proof (induction rows rule: rev_induct)
  case (snoc x rows)
  show ?case
  proof (cases "foldl (later k) None rows")
    case None
    with snoc have "rows = []" by simp
    moreover have "last_newest k [x] x" unfolding last_newest_def by (intro exI [of _ "[]"]) simp
    ultimately show ?thesis by (simp add: later_def)
  next
    case (Some l)
    with snoc have ln: "last_newest k rows l" by simp
    then obtain pre post where pp: "rows = pre @ l # post" "list_all (\<lambda>x. num_le (row_ts k x) (row_ts k l)) pre"
      "list_all (\<lambda>x. num_lt (row_ts k x) (row_ts k l)) post" by (auto simp: last_newest_def)
    have fin: "is_finite (row_ts k l)" "is_finite (row_ts k x)" using snoc.prems pp(1) by simp_all
    have up: "num_le (row_ts k y) (row_ts k x)" if "num_le (row_ts k l) (row_ts k x)" "y \<in> set rows" for y
    proof -
      have "num_le (row_ts k y) (row_ts k l)" using that(2) pp fin(1) by (auto simp: list_all_iff num_le_def is_finite_iff num_lt_def split: jsnum.splits)
      with that(1) show ?thesis using num_le_trans by blast
    qed
    show ?thesis
    proof (cases "num_le (row_ts k l) (row_ts k x)")
      case True
      with up have "last_newest k (rows @ [x]) x"
        unfolding last_newest_def by (intro exI [of _ rows] exI [of _ "[]"]) (simp add: list_all_iff)
      with Some True show ?thesis by (simp add: later_step [OF fin])
    next
      case False
      then have "num_lt (row_ts k x) (row_ts k l)" using fin by (auto simp: is_finite_iff)
      with pp have "last_newest k (rows @ [x]) l"
        unfolding last_newest_def by (intro exI [of _ pre] exI [of _ "post @ [x]"]) simp
      with Some False show ?thesis by (simp add: later_step [OF fin])
    qed
  qed
qed simp

lemma foldl_skip: "foldl (\<lambda>a x. if \<not> P x then a else f a x) z xs = foldl f z (filter P xs)"
  by (induction xs arbitrary: z) simp_all

text \<open>
  The last run and the last assistant message are the newest ones, the later row among equals;
  there is none exactly when there is no run and no message of the assistant.
\<close>

lemma last_rows_newest:
  assumes "list_all (row_typed DbRunSummaryRow) rs" "list_all (row_typed DbMessageRow) ms"
  shows "(case findLastRun rs of None \<Rightarrow> rs = [] | Some r \<Rightarrow> last_newest ''ts_unix_ms'' rs r) \<and>
    (let answers = filter (\<lambda>m. js_get m ''role'' = JStr ''assistant'') ms in
     case findLastAssistantMessage ms of None \<Rightarrow> answers = [] | Some m \<Rightarrow> last_newest ''created_unix_ms'' answers m)"
proof -
  have r: "list_all (\<lambda>x. is_finite (row_ts ''ts_unix_ms'' x)) rs"
    using assms(1) typed_num_finite [of DbRunSummaryRow _ "''ts_unix_ms''"] by (auto simp: list_all_iff row_ts_def DbRunSummaryRow_def)
  have m: "list_all (\<lambda>x. is_finite (row_ts ''created_unix_ms'' x)) ms"
    using assms(2) typed_num_finite [of DbMessageRow _ "''created_unix_ms''"] by (auto simp: list_all_iff row_ts_def DbMessageRow_def)
  have "findLastAssistantMessage ms = foldl (later ''created_unix_ms'') None (filter (\<lambda>m. js_get m ''role'' = JStr ''assistant'') ms)"
    unfolding findLastAssistantMessage_def by (rule foldl_skip)
  moreover have "list_all (\<lambda>x. is_finite (row_ts ''created_unix_ms'' x)) (filter (\<lambda>m. js_get m ''role'' = JStr ''assistant'') ms)"
    using m by (simp add: list_all_iff)
  ultimately show ?thesis using foldl_later [OF r] foldl_later by (simp add: findLastRun_def Let_def)
qed

end
