(* ===== verification/Team_Run.thy ===== *)
theory Team_Run
  imports Json_Utils
begin

text \<open>
  \<^verbatim>\<open>src/ui/src/components/broker/teamRunUtils.ts\<close> and \<^verbatim>\<open>brokerObjectUtils.ts\<close>: the settings of a team run read
  defensively, and the two ways of adding connected agents to a run, all at once or one per
  missing role. Agents, team members and runtime members come from the broker's answers
  and are plain values; a member added is a record. The local date format is the parameter
  \<open>local_time\<close>.
\<close>

section \<open>Event types and texts\<close>

definition TEAM_RUN_EVENT_TYPES :: "string list" where
  "TEAM_RUN_EVENT_TYPES =
     [''team_run_created'', ''team_run_status'', ''team_runtime_members_updated'', ''team_quorum_request'', ''team_quorum_result'',
      ''team_goal_progress'', ''team_goal_drift'', ''team_goal_spawn_validation'', ''team_goal_replan_resume'', ''team_handoff'']"

definition ORCHESTRATOR_EVENT_TYPES :: "string list" where
  "ORCHESTRATOR_EVENT_TYPES =
     [''orchestrator_run_created'', ''orchestrator_run_updated'', ''orchestrator_run_status'', ''orchestrator_run_heartbeat'',
      ''orchestrator_goal_revision'', ''orchestrator_role_plan_revision'', ''orchestrator_spawn_requested'',
      ''orchestrator_spawn_updated'', ''orchestrator_spawn_status'']"

definition GUIDANCE_EVENT_TYPES :: "string list" where
  "GUIDANCE_EVENT_TYPES = [''team_guidance_created'', ''team_guidance_ack'', ''team_guidance_expired'']"

definition fmtTs :: "(rat \<Rightarrow> string) \<Rightarrow> jsnum option \<Rightarrow> string" where
  "fmtTs local_time ms = (case ms of Some (Fin r) \<Rightarrow> if r = 0 then [] else local_time r | _ \<Rightarrow> [])"

definition fmtSummary :: "jsval \<Rightarrow> string" where
  "fmtSummary summary =
     (if \<not> truthy summary \<or> \<not> typeof_object summary then []
      else js_join dot_sep (List.map_filter
        (\<lambda>key. case js_get summary key of JNum n \<Rightarrow> Some (key @ '' '' @ num_str n) | _ \<Rightarrow> None)
        [''total'', ''queued'', ''running'', ''done'', ''error'', ''cancelled'', ''interrupted'', ''unknown'', ''ok'', ''failed'', ''dispatch_errors'']))"

definition parseCsvList :: "string option \<Rightarrow> string list" where
  "parseCsvList raw =
     (case raw of
        None \<Rightarrow> []
      | Some s \<Rightarrow> if s = [] then [] else filter (\<lambda>x. x \<noteq> []) (map js_trim (js_split (CHR '','') s)))"

section \<open>Roles\<close>

definition instruction_text :: "jsval \<Rightarrow> string" where
  "instruction_text value =
     js_trim (case value of
        JStr s \<Rightarrow> s
      | JObj ps \<Rightarrow> (case obj_get ps ''instruction'' of JStr s \<Rightarrow> s | _ \<Rightarrow> [])
      | _ \<Rightarrow> [])"

definition role_entry :: "string jsobj \<Rightarrow> string \<times> jsval \<Rightarrow> string jsobj" where
  "role_entry out kv =
     (let role = js_lower (js_trim (fst kv)); instr = instruction_text (snd kv) in
      if role = [] \<or> instr = [] then out else obj_put out role instr)"

definition normalizeRoleInstructionMap :: "jsval \<Rightarrow> string jsobj" where
  "normalizeRoleInstructionMap raw = (case raw of JObj ps \<Rightarrow> foldl role_entry [] (js_entries ps) | _ \<Rightarrow> [])"

definition normalizeRolePromptMode :: "jsval \<Rightarrow> string" where
  "normalizeRolePromptMode raw =
     (case raw of
        JStr s \<Rightarrow> (let mode = js_lower (js_trim s) in if mode = ''append'' \<or> mode = ''replace'' then mode else ''prepend'')
      | _ \<Rightarrow> ''prepend'')"

definition normalizeSharedMemoryMode :: "jsval \<Rightarrow> string" where
  "normalizeSharedMemoryMode raw =
     (case raw of
        JStr s \<Rightarrow> (let mode = js_lower (js_trim s) in
                   if mode = ''read_only'' \<or> mode = ''readonly'' then ''read_only'' else ''read_write'')
      | _ \<Rightarrow> ''read_write'')"

record RoleGraphEdge =
  re_from :: string
  re_to :: string
  re_reason :: "string option"

definition role_edge :: "jsval \<Rightarrow> RoleGraphEdge option" where
  "role_edge item =
     (case item of
        JObj ps \<Rightarrow>
          (let name = (\<lambda>k k'. js_lower (js_trim (js_String (js_coalesce (js_coalesce (obj_get ps k) (obj_get ps k')) (JStr [])))));
               from = name ''from_role'' ''from''; to = name ''to_role'' ''to'';
               reason = (if truthy (obj_get ps ''reason'') then js_trim (js_String (obj_get ps ''reason'')) else [])
           in if from = [] \<or> to = [] then None
              else Some \<lparr>re_from = from, re_to = to, re_reason = given (reason \<noteq> []) reason\<rparr>)
      | _ \<Rightarrow> None)"

definition normalizeRoleGraphEdges :: "jsval \<Rightarrow> RoleGraphEdge list" where
  "normalizeRoleGraphEdges raw =
     (let edgesRaw = (case raw of
             JArr xs \<Rightarrow> xs
           | JObj ps \<Rightarrow> (case obj_get ps ''edges'' of JArr xs \<Rightarrow> xs | _ \<Rightarrow> [])
           | _ \<Rightarrow> [])
      in List.map_filter role_edge edgesRaw)"

section \<open>Members\<close>

record RuntimeMemberDraft =
  rm_agent_id :: string
  rm_role :: string
  rm_deployment_id :: "string option"

definition agent_id_of :: "jsval \<Rightarrow> string" where
  "agent_id_of v = js_trim (text_of (js_get v ''agent_id''))"

definition normalizeRoleValue :: "jsval \<Rightarrow> string" where
  "normalizeRoleValue role = js_trim (text_of role)"

record connection =
  co_connected :: bool
  co_deploymentId :: string

definition isConnectedAgent :: "jsval \<Rightarrow> connection" where
  "isConnectedAgent agent =
     (let deployments = (case js_get agent ''deployments'' of JArr xs \<Rightarrow> xs | _ \<Rightarrow> []) in
      \<lparr>co_connected = (js_get agent ''connected'' = JBool True \<or> length deployments > 0),
       co_deploymentId = (if length deployments > 0 \<and> truthy (js_get (deployments ! 0) ''deployment_id'')
                          then js_String (js_get (deployments ! 0) ''deployment_id'') else [])\<rparr>)"

definition draft :: "jsval \<Rightarrow> string \<Rightarrow> RuntimeMemberDraft" where
  "draft agent role =
     (let deploymentId = co_deploymentId (isConnectedAgent agent) in
      \<lparr>rm_agent_id = agent_id_of agent, rm_role = role, rm_deployment_id = given (deploymentId \<noteq> []) deploymentId\<rparr>)"

text \<open>The identifiers of the members and of the runtime members, blank ones left out.\<close>

definition seen_agents :: "jsval list \<Rightarrow> jsval list \<Rightarrow> string list" where
  "seen_agents membersList existingRuntime = filter (\<lambda>a. a \<noteq> []) (map agent_id_of (membersList @ existingRuntime))"

record additions_result =
  ar_additions :: "RuntimeMemberDraft list"
  ar_warning :: "string option"
  ar_error :: "string option"

definition add_agent :: "string \<Rightarrow> RuntimeMemberDraft list \<times> string list \<Rightarrow> jsval \<Rightarrow> RuntimeMemberDraft list \<times> string list" where
  "add_agent role acc agent =
     (case acc of (additions, seen) \<Rightarrow>
       let aid = agent_id_of agent in
       if aid = [] \<or> aid \<in> set seen then (additions, seen)
       else if \<not> co_connected (isConnectedAgent agent) then (additions, seen)
       else (additions @ [draft agent role], seen @ [aid]))"

definition buildRuntimeAgentAdditions :: "jsval list \<Rightarrow> jsval list \<Rightarrow> jsval list \<Rightarrow> string \<Rightarrow> additions_result" where
  "buildRuntimeAgentAdditions runtimeAgentOptions existingRuntime membersList role =
     (if runtimeAgentOptions = []
      then \<lparr>ar_additions = [], ar_warning = None, ar_error = Some ''load agents before adding connected agents''\<rparr>
      else
        let additions = fst (foldl (add_agent role) ([], seen_agents membersList existingRuntime) runtimeAgentOptions) in
        if additions = []
        then \<lparr>ar_additions = [], ar_warning = None, ar_error = Some ''no connected agents to add (already in team/runtime)''\<rparr>
        else \<lparr>ar_additions = additions, ar_warning = None, ar_error = None\<rparr>)"

text \<open>The roles of the plan in order, the first spelling of each; and the roles already taken.\<close>

definition add_role :: "string list \<times> string list \<Rightarrow> string \<Rightarrow> string list \<times> string list" where
  "add_role acc role =
     (case acc of (roleOrder, roleKeys) \<Rightarrow>
       let raw = normalizeRoleValue (JStr role); key = js_lower raw in
       if raw = [] then (roleOrder, roleKeys)
       else if key \<in> set roleKeys then (roleOrder, roleKeys)
       else (roleOrder @ [raw], roleKeys @ [key]))"

definition existing_roles :: "jsval list \<Rightarrow> jsval list \<Rightarrow> string list" where
  "existing_roles membersList existingRuntime =
     filter (\<lambda>r. r \<noteq> []) (map (\<lambda>m. js_lower (normalizeRoleValue (js_get m ''role''))) (membersList @ existingRuntime))"

fun allocate :: "string list \<Rightarrow> jsval list \<Rightarrow> RuntimeMemberDraft list" where
  "allocate [] agents = []"
| "allocate (role # roles) [] = []"
| "allocate (role # roles) (agent # agents) =
     (if agent_id_of agent = [] then allocate roles agents else draft agent role # allocate roles agents)"

definition buildRoleAllocatedRuntimeMembers :: "jsval list \<Rightarrow> jsval list \<Rightarrow> jsval list \<Rightarrow> string list \<Rightarrow> additions_result" where
  "buildRoleAllocatedRuntimeMembers runtimeAgentOptions existingRuntime membersList roles =
     (let fail = (\<lambda>e. \<lparr>ar_additions = [], ar_warning = None, ar_error = Some e\<rparr>) in
      if runtimeAgentOptions = [] then fail ''load agents before allocating by role''
      else
        let roleOrder = fst (foldl add_role ([], []) roles) in
        if roleOrder = [] then fail ''no role plan roles available''
        else
          let missingRoles = filter (\<lambda>role. js_lower role \<notin> set (existing_roles membersList existingRuntime)) roleOrder in
          if missingRoles = [] then fail ''all role plan roles are already assigned''
          else
            let seen = seen_agents membersList existingRuntime;
                availableAgents = filter (\<lambda>agent. agent_id_of agent \<noteq> [] \<and> agent_id_of agent \<notin> set seen \<and>
                                            co_connected (isConnectedAgent agent)) runtimeAgentOptions
            in if availableAgents = [] then fail ''no connected agents available for role allocation''
               else
                 let additions = allocate missingRoles availableAgents in
                 if additions = [] then fail ''no connected agents available for role allocation''
                 else \<lparr>ar_additions = additions,
                       ar_warning = (if length additions < length missingRoles
                         then Some (''allocated '' @ nat_str (length additions) @ ''/'' @ nat_str (length missingRoles)
                                    @ '' roles (insufficient connected agents)'') else None),
                       ar_error = None\<rparr>)"

text \<open>\<^verbatim>\<open>brokerObjectUtils.ts\<close>: the record view of a value, the JSON field that must be an object, and a list of texts.\<close>

definition asUnknownRecord :: "jsval \<Rightarrow> jsval jsobj option" where
  "asUnknownRecord value = (case value of JObj ps \<Rightarrow> Some ps | _ \<Rightarrow> None)"

datatype json_error = Syntax_error | Not_an_object string

definition parseRecordField :: "string \<Rightarrow> string \<Rightarrow> json_error + jsval jsobj" where
  "parseRecordField raw fieldName =
     (case json_parse raw of
        None \<Rightarrow> Inl Syntax_error
      | Some parsed \<Rightarrow>
          (case asUnknownRecord parsed of
             None \<Rightarrow> Inl (Not_an_object (fieldName @ '' must be a JSON object''))
           | Some ps \<Rightarrow> Inr ps))"

definition asStringList :: "jsval \<Rightarrow> string list" where
  "asStringList value =
     (case value of JArr xs \<Rightarrow> filter (\<lambda>s. s \<noteq> []) (map (\<lambda>v. js_trim (js_String v)) xs) | _ \<Rightarrow> [])"

section \<open>Adding all connected agents\<close>

definition addable :: "string list \<Rightarrow> jsval \<Rightarrow> bool" where
  "addable seen agent \<longleftrightarrow> agent_id_of agent \<noteq> [] \<and> agent_id_of agent \<notin> set seen \<and> co_connected (isConnectedAgent agent)"

lemma draft_simps [simp]: "rm_agent_id (draft a r) = agent_id_of a" "rm_role (draft a r) = r"
  by (simp_all add: draft_def Let_def)

lemma add_agent_eq:
  "add_agent role (adds, seen) a = (if addable seen a then (adds @ [draft a role], seen @ [agent_id_of a]) else (adds, seen))"
  by (auto simp: add_agent_def addable_def Let_def)

lemma add_agents:
  assumes "foldl (add_agent role) (adds, seen) agents = (adds', seen')" "set (map rm_agent_id adds) \<subseteq> set seen" "distinct (map rm_agent_id adds)"
  shows "\<exists>new. adds' = adds @ new \<and> distinct (map rm_agent_id (adds @ new)) \<and>
    set (map rm_agent_id new) = agent_id_of ` {a \<in> set agents. addable seen a} \<and>
    (\<forall>m\<in>set new. \<exists>a\<in>set agents. addable seen a \<and> m = draft a role)"
  using assms
proof (induction agents arbitrary: adds seen)
  case Nil
  then show ?case by auto
next
  case (Cons a agents)
  show ?case
  proof (cases "addable seen a")
    case False
    then have "foldl (add_agent role) (adds, seen) agents = (adds', seen')"
      using Cons.prems(1) by (simp add: add_agent_eq)
    from Cons.IH [OF this Cons.prems(2,3)] obtain new where "adds' = adds @ new" "distinct (map rm_agent_id (adds @ new))"
      "set (map rm_agent_id new) = agent_id_of ` {b \<in> set agents. addable seen b}"
      "\<forall>m\<in>set new. \<exists>b\<in>set agents. addable seen b \<and> m = draft b role" by blast
    moreover have "{b \<in> set (a # agents). addable seen b} = {b \<in> set agents. addable seen b}" using False by auto
    ultimately show ?thesis by (intro exI [of _ new]) simp
  next
    case True
    let ?m = "draft a role" and ?seen = "seen @ [agent_id_of a]"
    have f: "foldl (add_agent role) (adds @ [?m], ?seen) agents = (adds', seen')"
      using True Cons.prems(1) by (simp add: add_agent_eq)
    have s: "set (map rm_agent_id (adds @ [?m])) \<subseteq> set ?seen" using Cons.prems(2) by auto
    have d: "distinct (map rm_agent_id (adds @ [?m]))" using Cons.prems(2,3) True by (auto simp: addable_def)
    from Cons.IH [OF f s d] obtain new where new: "adds' = (adds @ [?m]) @ new" "distinct (map rm_agent_id ((adds @ [?m]) @ new))"
      "set (map rm_agent_id new) = agent_id_of ` {a \<in> set agents. addable ?seen a}"
      "\<forall>m\<in>set new. \<exists>a\<in>set agents. addable ?seen a \<and> m = draft a role" by blast
    have "insert (agent_id_of a) (agent_id_of ` {b \<in> set agents. addable ?seen b}) = agent_id_of ` {b \<in> set (a # agents). addable seen b}"
      using True by (auto simp: addable_def image_iff)
    with new(3) have ids: "set (map rm_agent_id (?m # new)) = agent_id_of ` {b \<in> set (a # agents). addable seen b}" by simp
    have weak: "addable ?seen b \<Longrightarrow> addable seen b" for b by (simp add: addable_def)
    show ?thesis
    proof (intro exI [of _ "?m # new"] conjI)
      show "\<forall>m\<in>set (?m # new). \<exists>b\<in>set (a # agents). addable seen b \<and> m = draft b role"
        using new(4) True weak by fastforce
      show "distinct (map rm_agent_id (adds @ ?m # new))" using new(2) by simp
    qed (use new(1) ids in simp_all)
  qed
qed

text \<open>
  Adding all connected agents to a team run adds exactly the connected agents that are neither
  team members nor in the run yet, each once and with the role asked for; there is an error
  message exactly when nothing is added.
\<close>

lemma additions_exact:
  fixes options existing members :: "jsval list"
  defines "seen \<equiv> seen_agents members existing"
  shows "(let r = buildRuntimeAgentAdditions options existing members role in
      distinct (map rm_agent_id (ar_additions r)) \<and>
      set (map rm_agent_id (ar_additions r)) = agent_id_of ` {a \<in> set options. addable seen a} \<and>
      list_all (\<lambda>m. rm_role m = role \<and> list_ex (\<lambda>a. addable seen a \<and> m = draft a role) options) (ar_additions r) \<and>
      (ar_error r = None \<longleftrightarrow> ar_additions r \<noteq> []))"
proof -
  let ?fold = "foldl (add_agent role) ([], seen) options"
  obtain adds' seen' where f: "?fold = (adds', seen')" by (cases ?fold)
  from add_agents [OF f] obtain new where new: "adds' = new" "distinct (map rm_agent_id new)"
    "set (map rm_agent_id new) = agent_id_of ` {a \<in> set options. addable seen a}"
    "\<forall>m\<in>set new. \<exists>a\<in>set options. addable seen a \<and> m = draft a role" by auto
  have a: "ar_additions (buildRuntimeAgentAdditions options existing members role) = new"
    using f new(1) by (cases "options = []") (auto simp: buildRuntimeAgentAdditions_def seen_def Let_def)
  have "ar_error (buildRuntimeAgentAdditions options existing members role) = None \<longleftrightarrow> new \<noteq> []"
    using f new(1) by (cases "options = []") (auto simp: buildRuntimeAgentAdditions_def seen_def Let_def)
  with a new(2-) show ?thesis by (auto simp: Let_def list_all_iff list_ex_iff)
qed

section \<open>One agent per missing role\<close>

lemma add_roles:
  assumes "foldl add_role (order, keys) roles = (order', keys')" "keys = map js_lower order" "distinct keys" "[] \<notin> set order"
  shows "keys' = map js_lower order' \<and> distinct keys' \<and> [] \<notin> set order' \<and>
    set keys' = set keys \<union> {js_lower (js_trim r) | r. r \<in> set roles \<and> js_trim r \<noteq> []}"
  using assms
proof (induction roles arbitrary: order keys)
  case (Cons r roles)
  let ?raw = "js_trim r"
  have e: "add_role (order, keys) r = (if ?raw = [] \<or> js_lower ?raw \<in> set keys then (order, keys) else (order @ [?raw], keys @ [js_lower ?raw]))"
    by (auto simp: add_role_def normalizeRoleValue_def Let_def)
  show ?case
  proof (cases "?raw = [] \<or> js_lower ?raw \<in> set keys")
    case True
    with Cons.prems(1) e have "foldl add_role (order, keys) roles = (order', keys')" by auto
    from Cons.IH [OF this Cons.prems(2-)] True show ?thesis by auto
  next
    case False
    with Cons.prems(1) e have f: "foldl add_role (order @ [?raw], keys @ [js_lower ?raw]) roles = (order', keys')" by auto
    have "{js_lower (js_trim x) | x. x \<in> set (r # roles) \<and> js_trim x \<noteq> []}
        = insert (js_lower ?raw) {js_lower (js_trim x) | x. x \<in> set roles \<and> js_trim x \<noteq> []}" using False by auto
    moreover have "keys @ [js_lower ?raw] = map js_lower (order @ [?raw])" "distinct (keys @ [js_lower ?raw])" "[] \<notin> set (order @ [?raw])"
      using Cons.prems(2-) False by auto
    note Cons.IH [OF f this]
    ultimately show ?thesis by auto
  qed
qed auto

lemma allocate_zip:
  "(\<And>a. a \<in> set agents \<Longrightarrow> agent_id_of a \<noteq> []) \<Longrightarrow> allocate roles agents = map (\<lambda>(r, a). draft a r) (zip roles agents)"
  by (induction roles agents rule: allocate.induct) auto

definition planned_roles :: "string list \<Rightarrow> string list" where
  "planned_roles roles = fst (foldl add_role ([], []) roles)"



end
