(* ===== verification/Run_Diff.thy ===== *)
theory Run_Diff
  imports Json_Utils
begin

text \<open>
  \<^verbatim>\<open>src/ui/src/components/runDiff/runDiffUtils.ts\<close>: the comparison of two runs. \<open>collectJsonDiffs\<close> walks two
  JSON values in parallel and records where they differ, within bounds on depth, array length
  and number of entries. \<^verbatim>\<open>a === b\<close> on objects is identity, and the two values come from
  separate parses, so only primitive values are ever identical.
\<close>

section \<open>Values\<close>

definition finiteOrNull :: "jsval \<Rightarrow> jsval" where
  "finiteOrNull value = (case value of JNum n \<Rightarrow> if is_finite n then JNum n else JNull | _ \<Rightarrow> JNull)"

definition asStringOrEmpty :: "jsval \<Rightarrow> string" where
  "asStringOrEmpty value = (case value of JStr s \<Rightarrow> s | _ \<Rightarrow> [])"

definition asId :: "jsval \<Rightarrow> jsval" where
  "asId value = (if is_JStr value \<or> is_JNum value then value else JNull)"

text \<open>\<^verbatim>\<open>JSON.stringify\<close> gives \<^verbatim>\<open>undefined\<close> only for \<^verbatim>\<open>undefined\<close>; plain values never make it throw.\<close>

definition stringifyJson :: "jsval \<Rightarrow> string option" where
  "stringifyJson value = json_pretty value"

definition parseJsonLoose :: "jsval \<Rightarrow> jsval" where
  "parseJsonLoose value = (case value of JStr s \<Rightarrow> js_coalesce (safeJsonParse s) value | _ \<Rightarrow> value)"

definition cut_text :: "nat \<Rightarrow> string \<Rightarrow> string" where
  "cut_text n s = (if length s > n then take n s @ [ellipsis] else s)"

definition formatDiffValue :: "jsval \<Rightarrow> string" where
  "formatDiffValue value =
     (case value of
        JNull \<Rightarrow> ''null''
      | JUndef \<Rightarrow> ''undefined''
      | JStr s \<Rightarrow> cut_text 120 s
      | JNum n \<Rightarrow> num_str n
      | JBool b \<Rightarrow> if b then ''true'' else ''false''
      | _ \<Rightarrow> cut_text 160 (opt_or (json_compact value) []))"

section \<open>Differences\<close>

record JsonDiffEntry =
  de_path :: string
  de_a :: jsval
  de_b :: jsval

definition MAX_DIFFS :: nat where
  "MAX_DIFFS = 200"

definition entry :: "string \<Rightarrow> jsval \<Rightarrow> jsval \<Rightarrow> JsonDiffEntry" where
  "entry path a b = \<lparr>de_path = path, de_a = a, de_b = b\<rparr>"

abbreviation js_length :: "jsval list \<Rightarrow> jsval" where
  "js_length xs \<equiv> JNum (Fin (of_nat (length xs)))"

text \<open>
  The two loops: each step extends the entries, and the loop stops as soon as there are
  \<open>maxDiffs\<close> of them; the Boolean tells that it stopped, which is the code's early \<^verbatim>\<open>return\<close>.
\<close>

fun diff_loop :: "nat \<Rightarrow> ('k \<Rightarrow> JsonDiffEntry list \<Rightarrow> JsonDiffEntry list) \<Rightarrow> 'k list \<Rightarrow> JsonDiffEntry list \<Rightarrow> JsonDiffEntry list \<times> bool" where
  "diff_loop maxDiffs step [] out = (out, False)"
| "diff_loop maxDiffs step (k # ks) out =
     (let out' = step k out in if length out' \<ge> maxDiffs then (out', True) else diff_loop maxDiffs step ks out')"

definition union_keys :: "jsval \<Rightarrow> jsval \<Rightarrow> string list" where
  "union_keys a b = js_sort code_unit_le (remdups (js_keys (spread a) @ js_keys (spread b)))"

text \<open>The first argument is the number of levels left, \<^verbatim>\<open>maxDepth - depth\<close>.\<close>

fun collectJsonDiffs :: "nat \<Rightarrow> nat \<Rightarrow> nat \<Rightarrow> string \<Rightarrow> jsval \<Rightarrow> jsval \<Rightarrow> JsonDiffEntry list \<Rightarrow> JsonDiffEntry list" where
  "collectJsonDiffs 0 maxItems maxDiffs path a b out =
     (if length out \<ge> maxDiffs then out
      else if strict_eq a b then out
      else out @ [entry path a b])"
| "collectJsonDiffs (Suc left) maxItems maxDiffs path a b out =
     (if length out \<ge> maxDiffs then out
      else if strict_eq a b then out
      else case (a, b) of
        (JArr xs, JArr ys) \<Rightarrow>
          (let out1 = (if length xs \<noteq> length ys
                 then out @ [entry (if path \<noteq> [] then path @ ''.length'' else ''length'') (js_length xs) (js_length ys)] else out);
               limit = min (min (length xs) (length ys)) maxItems;
               (out2, stopped) = diff_loop maxDiffs
                 (\<lambda>i. collectJsonDiffs left maxItems maxDiffs (path @ ''['' @ nat_str i @ '']'') (xs ! i) (ys ! i)) [0..<limit] out1
           in if stopped then out2
              else if length xs > maxItems \<or> length ys > maxItems
              then out2 @ [entry (if path \<noteq> [] then path @ ''[truncated]'' else ''[truncated]'') (js_length xs) (js_length ys)]
              else out2)
      | _ \<Rightarrow>
          if truthy a \<and> truthy b \<and> typeof_object a \<and> typeof_object b
          then fst (diff_loop maxDiffs
             (\<lambda>key. collectJsonDiffs left maxItems maxDiffs (if path \<noteq> [] then path @ ''.'' @ key else key) (js_get a key) (js_get b key))
             (union_keys a b) out)
          else out @ [entry path a b])"

definition diffJson :: "jsval \<Rightarrow> jsval \<Rightarrow> nat \<Rightarrow> JsonDiffEntry list" where
  "diffJson a b maxDiffs = collectJsonDiffs 12 50 maxDiffs [] a b []"

definition diffJsonWithPath :: "jsval \<Rightarrow> jsval \<Rightarrow> string \<Rightarrow> nat \<Rightarrow> JsonDiffEntry list" where
  "diffJsonWithPath a b path maxDiffs = collectJsonDiffs 12 50 maxDiffs path a b []"

section \<open>Usage\<close>

definition extractUsage :: "jsval \<Rightarrow> jsval jsobj option" where
  "extractUsage resp =
     (let rec = safeObject resp; usage = safeObject (obj_get rec ''usage'');
          pick = (\<lambda>k. js_coalesce (obj_get usage k) (obj_get rec k));
          totalCost = js_coalesce (js_coalesce (js_coalesce (obj_get rec ''total_cost'') (obj_get rec ''cost'')) (obj_get usage ''total_cost''))
                        (obj_get usage ''cost'');
          num = (\<lambda>v. given (is_JNum v) v);
          out = obj_of_opts [(''total_tokens'', num (pick ''total_tokens'')), (''prompt_tokens'', num (pick ''prompt_tokens'')),
                  (''completion_tokens'', num (pick ''completion_tokens'')), (''total_cost'', num totalCost)]
      in given (length (js_keys out) > 0) out)"

definition extractUsageFromRunRow :: "jsval \<Rightarrow> jsval jsobj option" where
  "extractUsageFromRunRow run =
     (let rec = safeObject run in
      extractUsage (parseJsonLoose (js_coalesce (obj_get rec ''response_json'') (obj_get rec ''response''))))"

text \<open>\<^verbatim>\<open>toFixed(4)\<close>: the nearest multiple of a ten-thousandth, the larger one in a tie; very large numbers as they are.\<close>

definition pad4 :: "string \<Rightarrow> string" where
  "pad4 s = replicate (4 - length s) (CHR ''0'') @ s"

definition fixed4 :: "rat \<Rightarrow> string" where
  "fixed4 r =
     (let n = \<lfloor>\<bar>r\<bar> * 10000 + 1 / 2\<rfloor> in
      (if r < 0 then ''-'' else []) @ int_str (n div 10000) @ ''.'' @ pad4 (int_str (n mod 10000)))"

definition toFixed4 :: "jsnum \<Rightarrow> string" where
  "toFixed4 n = (case n of Fin r \<Rightarrow> if \<bar>r\<bar> \<ge> 10 ^ 21 then num_str n else fixed4 r | _ \<Rightarrow> num_str n)"

definition formatUsage :: "jsval jsobj option \<Rightarrow> string" where
  "formatUsage usage =
     (case usage of
        None \<Rightarrow> []
      | Some u \<Rightarrow>
          js_join dot_sep (List.map_filter
            (\<lambda>(k, label, fmt). case obj_get u k of JNum n \<Rightarrow> Some (label @ '' '' @ fmt n) | _ \<Rightarrow> None)
            [(''total_tokens'', ''tokens'', num_str), (''prompt_tokens'', ''prompt'', num_str),
             (''completion_tokens'', ''completion'', num_str), (''total_cost'', ''cost'', toFixed4)]))"

definition delta_text :: "rat \<Rightarrow> string" where
  "delta_text delta =
     (let magnitude = \<bar>delta\<bar> in
      (if delta > 0 then ''+'' else if delta < 0 then ''-'' else [])
      @ (if magnitude = of_int \<lfloor>magnitude\<rfloor> then num_str (Fin magnitude) else toFixed4 (Fin magnitude)))"

text \<open>Usage numbers are finite; the difference of two of them is exact here.\<close>

definition formatUsageDelta :: "jsval jsobj option \<Rightarrow> jsval jsobj option \<Rightarrow> string" where
  "formatUsageDelta a b =
     (case (a, b) of
        (Some ua, Some ub) \<Rightarrow>
          js_join dot_sep (List.map_filter
            (\<lambda>key. case (obj_get ua key, obj_get ub key) of
                     (JNum (Fin av), JNum (Fin bv)) \<Rightarrow> Some (key @ '' '' @ delta_text (bv - av)) | _ \<Rightarrow> None)
            (js_sort code_unit_le (remdups (js_keys ua @ js_keys ub))))
      | _ \<Rightarrow> [])"

section \<open>Events and artifacts\<close>

record NormalizedEvent =
  ne_id :: jsval
  ne_ts_unix_ms :: jsval
  ne_type :: string
  ne_data :: jsval

definition normalizeEvent :: "jsval \<Rightarrow> NormalizedEvent" where
  "normalizeEvent row =
     (let rec = safeObject row in
      \<lparr>ne_id = asId (js_coalesce (obj_get rec ''event_id'') (obj_get rec ''id'')),
       ne_ts_unix_ms = finiteOrNull (js_coalesce (obj_get rec ''ts_unix_ms'') (obj_get rec ''ts'')),
       ne_type = asStringOrEmpty (obj_get rec ''type''),
       ne_data = parseJsonLoose (js_coalesce (obj_get rec ''data_json'') (obj_get rec ''data''))\<rparr>)"

definition count_type :: "(string \<times> nat) list \<Rightarrow> string \<Rightarrow> (string \<times> nat) list" where
  "count_type counts t = (let key = str_or t ''unknown'' in AList.update key (opt_or (map_of counts key) 0 + 1) counts)"

definition countByType :: "string list \<Rightarrow> (string \<times> nat) list" where
  "countByType types = foldl count_type [] types"

record NormalizedArtifact =
  na_id :: jsval
  na_path :: string
  na_kind :: string
  na_mime :: string
  na_title :: string
  na_tool_call_id :: string
  na_autoplay :: jsval
  na_repeat :: jsval
  na_artifact_json :: jsval

definition normalizeArtifact :: "jsval \<Rightarrow> NormalizedArtifact" where
  "normalizeArtifact row =
     (let rec = safeObject row;
          artifactJson = parseJsonLoose (js_coalesce (js_coalesce (obj_get rec ''artifact_json'') (obj_get rec ''artifact'')) row);
          pick = (\<lambda>k. js_coalesce (obj_get rec k) (obj_get (safeObject artifactJson) k))
      in \<lparr>na_id = asId (obj_get rec ''id''), na_path = asStringOrEmpty (pick ''path''), na_kind = asStringOrEmpty (pick ''kind''),
          na_mime = asStringOrEmpty (pick ''mime''), na_title = asStringOrEmpty (pick ''title''),
          na_tool_call_id = asStringOrEmpty (pick ''tool_call_id''), na_autoplay = pick ''autoplay'', na_repeat = pick ''repeat'',
          na_artifact_json = artifactJson\<rparr>)"

definition artifactFingerprint :: "NormalizedArtifact \<Rightarrow> string option" where
  "artifactFingerprint x = stringifyJson (JObj
     [(''path'', JStr (na_path x)), (''kind'', JStr (na_kind x)), (''mime'', JStr (na_mime x)), (''title'', JStr (na_title x)),
      (''tool_call_id'', JStr (na_tool_call_id x)), (''autoplay'', na_autoplay x), (''repeat'', na_repeat x), (''artifact_json'', na_artifact_json x)])"

definition formatArtifactSummary :: "NormalizedArtifact option \<Rightarrow> string" where
  "formatArtifactSummary artifact =
     (case artifact of
        None \<Rightarrow> []
      | Some x \<Rightarrow> js_join dot_sep ([str_or (na_path x) ''(no path)''] @ (if na_kind x \<noteq> [] then [na_kind x] else [])
          @ (if na_mime x \<noteq> [] then [na_mime x] else [])
          @ (if na_title x \<noteq> [] then [[CHR 0x22] @ na_title x @ [CHR 0x22]] else [])))"

section \<open>The number of entries is bounded\<close>

text \<open>The two array steps of the function by name.\<close>

definition length_entry :: "string \<Rightarrow> jsval list \<Rightarrow> jsval list \<Rightarrow> JsonDiffEntry list \<Rightarrow> JsonDiffEntry list" where
  "length_entry path xs ys out = (if length xs \<noteq> length ys
     then out @ [entry (if path \<noteq> [] then path @ ''.length'' else ''length'') (js_length xs) (js_length ys)] else out)"

definition array_loop :: "nat \<Rightarrow> nat \<Rightarrow> nat \<Rightarrow> string \<Rightarrow> jsval list \<Rightarrow> jsval list \<Rightarrow> JsonDiffEntry list \<Rightarrow> JsonDiffEntry list \<times> bool" where
  "array_loop d mi md path xs ys out =
     diff_loop md (\<lambda>i. collectJsonDiffs d mi md (path @ ''['' @ nat_str i @ '']'') (xs ! i) (ys ! i))
       [0..<min (min (length xs) (length ys)) mi] (length_entry path xs ys out)"

definition object_loop :: "nat \<Rightarrow> nat \<Rightarrow> nat \<Rightarrow> string \<Rightarrow> jsval \<Rightarrow> jsval \<Rightarrow> JsonDiffEntry list \<Rightarrow> JsonDiffEntry list \<times> bool" where
  "object_loop d mi md path a b out =
     diff_loop md (\<lambda>key. collectJsonDiffs d mi md (if path \<noteq> [] then path @ ''.'' @ key else key) (js_get a key) (js_get b key))
       (union_keys a b) out"

definition container :: "jsval \<Rightarrow> bool" where
  "container v = (is_JArr v \<or> is_JObj v)"

lemma collect_array:
  "collectJsonDiffs (Suc d) mi md path (JArr xs) (JArr ys) out =
     (let l = array_loop d mi md path xs ys out in
      if length out \<ge> md then out
      else if snd l then fst l
      else if length xs > mi \<or> length ys > mi
      then fst l @ [entry (if path \<noteq> [] then path @ ''[truncated]'' else ''[truncated]'') (js_length xs) (js_length ys)]
      else fst l)"
  by (simp add: array_loop_def length_entry_def Let_def case_prod_beta)

lemma collect_other:
  "\<not> (is_JArr a \<and> is_JArr b) \<Longrightarrow> collectJsonDiffs (Suc d) mi md path a b out =
     (if length out \<ge> md \<or> strict_eq a b then out
      else if container a \<and> container b then fst (object_loop d mi md path a b out)
      else out @ [entry path a b])"
  by (cases a; cases b) (simp_all add: object_loop_def typeof_object_def container_def)

declare collectJsonDiffs.simps(2) [simp del]

lemma loop_extends:
  assumes "\<And>k out. \<exists>new. step k out = out @ new"
  shows "\<exists>new. fst (diff_loop md step ks out) = out @ new"
proof (induction ks arbitrary: out)
  case (Cons k ks)
  obtain new where "step k out = out @ new" using assms by blast
  with Cons [of "out @ new"] show ?case by (auto simp: Let_def)
qed simp

lemma collect_extends: "\<exists>new. collectJsonDiffs d mi md path a b out = out @ new"
proof (induction d arbitrary: path a b out)
  case (Suc d)
  show ?case
  proof (cases "is_JArr a \<and> is_JArr b")
    case True
    then obtain xs ys where ab: "a = JArr xs" "b = JArr ys" by (auto simp: is_JArr_def)
    have "\<exists>new. length_entry path xs ys out = out @ new" by (simp add: length_entry_def)
    moreover have "\<exists>new. fst (array_loop d mi md path xs ys out) = length_entry path xs ys out @ new"
      unfolding array_loop_def by (rule loop_extends) (rule Suc.IH)
    ultimately show ?thesis by (auto simp: ab collect_array Let_def)
  next
    case False
    have "\<exists>new. fst (object_loop d mi md path a b out) = out @ new"
      unfolding object_loop_def by (rule loop_extends) (rule Suc.IH)
    with False show ?thesis by (simp add: collect_other)
  qed
qed simp

lemma loop_bound:
  assumes "\<And>k out. length (step k out) \<le> max (length out) (Suc md)"
  shows "length (fst (diff_loop md step ks out)) \<le> max (length out) (Suc md)"
    and "\<not> snd (diff_loop md step ks out) \<Longrightarrow> ks \<noteq> [] \<Longrightarrow> length (fst (diff_loop md step ks out)) < md"
proof -
  show "length (fst (diff_loop md step ks out)) \<le> max (length out) (Suc md)"
  proof (induction ks arbitrary: out)
    case (Cons k ks)
    show ?case using Cons [of "step k out"] assms [of k out] by (auto simp: Let_def)
  qed simp
  show "\<not> snd (diff_loop md step ks out) \<Longrightarrow> ks \<noteq> [] \<Longrightarrow> length (fst (diff_loop md step ks out)) < md"
  proof (induction ks arbitrary: out)
    case (Cons k ks)
    then have c: "length (step k out) < md" "\<not> snd (diff_loop md step ks (step k out))"
      by (auto simp: Let_def split: if_splits)
    with Cons.IH [OF c(2)] show ?case by (cases "ks = []") (simp_all add: Let_def)
  qed simp
qed

lemma collect_bound: "length (collectJsonDiffs d mi md path a b out) \<le> max (length out) (Suc md)"
proof (induction d arbitrary: path a b out)
  case (Suc d)
  show ?case
  proof (cases "is_JArr a \<and> is_JArr b")
    case True
    then obtain xs ys where ab: "a = JArr xs" "b = JArr ys" by (auto simp: is_JArr_def)
    let ?l = "array_loop d mi md path xs ys out"
    show ?thesis
    proof (cases "length out < md")
      case True
      then have o1: "length (length_entry path xs ys out) \<le> md" by (simp add: length_entry_def)
      have "length (fst ?l) \<le> max (length (length_entry path xs ys out)) (Suc md)"
        unfolding array_loop_def by (rule loop_bound(1)) (rule Suc.IH)
      with o1 have "length (fst ?l) \<le> Suc md" by simp
      moreover have "length (fst ?l) \<le> md" if "\<not> snd ?l"
      proof (cases "[0..<min (min (length xs) (length ys)) mi] = []")
        case True
        then show ?thesis using o1 by (simp add: array_loop_def del: upt_eq_Nil_conv)
      next
        case False
        have "length (fst ?l) < md"
          unfolding array_loop_def by (rule loop_bound(2)) (rule Suc.IH, use that False in \<open>simp_all add: array_loop_def\<close>)
        then show ?thesis by simp
      qed
      ultimately show ?thesis using True by (auto simp: ab collect_array Let_def)
    qed (simp add: ab collect_array)
  next
    case False
    have "length (fst (object_loop d mi md path a b out)) \<le> max (length out) (Suc md)"
      unfolding object_loop_def by (rule loop_bound(1)) (rule Suc.IH)
    with False show ?thesis by (auto simp: collect_other)
  qed
qed simp

text \<open>
  A comparison reports at most one difference more than the limit it is given, and the extra one is
  possible: the comparison of an empty with a long array writes its length and its
  truncation without checking the limit in between.
\<close>

lemma diffJson_bound:
  "length (diffJson a b n) \<le> n + 1 \<and> length (diffJsonWithPath a b path n) \<le> n + 1 \<and>
   length (diffJson (JArr []) (JArr (replicate 51 JNull)) 1) = 2"
proof -
  have "length (diffJson (JArr []) (JArr (replicate 51 JNull)) 1) = 2"
    by (simp add: diffJson_def numeral_eq_Suc collect_array array_loop_def length_entry_def Let_def)
  then show ?thesis
    using collect_bound [of 12 50 n "[]" a b "[]"] collect_bound [of 12 50 n path a b "[]"]
    by (simp add: diffJson_def diffJsonWithPath_def)
qed

section \<open>No entry means no difference\<close>

text \<open>
  The values the client shows as equal: identical primitive values; arrays of the same length
  with equal elements; two objects (or an object and an array) whose properties are equal, a missing
  property being \<^verbatim>\<open>undefined\<close>.
\<close>

inductive same_json :: "jsval \<Rightarrow> jsval \<Rightarrow> bool" where
  same_prim: "strict_eq a b \<Longrightarrow> same_json a b"
| same_arr: "length xs = length ys \<Longrightarrow> (\<And>i. i < length xs \<Longrightarrow> same_json (xs ! i) (ys ! i)) \<Longrightarrow> same_json (JArr xs) (JArr ys)"
| same_obj: "container a \<Longrightarrow> container b \<Longrightarrow> \<not> (is_JArr a \<and> is_JArr b) \<Longrightarrow>
    (\<And>k. k \<in> set (union_keys a b) \<Longrightarrow> same_json (js_get a k) (js_get b k)) \<Longrightarrow> same_json a b"

inductive_simps same_json_arr: "same_json (JArr xs) (JArr ys)"

lemma strict_eq_container: "container a \<or> container b \<Longrightarrow> \<not> strict_eq a b"
  by (cases a; cases b) (auto simp: container_def)

lemma same_json_arrays: "same_json (JArr xs) (JArr ys) \<longleftrightarrow> length xs = length ys \<and> (\<forall>i<length xs. same_json (xs ! i) (ys ! i))"
  by (auto simp: same_json_arr)

lemma same_json_other:
  assumes "\<not> (is_JArr a \<and> is_JArr b)"
  shows "same_json a b \<longleftrightarrow> strict_eq a b \<or> (container a \<and> container b \<and> (\<forall>k\<in>set (union_keys a b). same_json (js_get a k) (js_get b k)))"
  using assms by (subst same_json.simps) (auto simp: is_JArr_def)

text \<open>Values within the bounds of the comparison: nested at most \<open>d\<close> levels, arrays of at most \<open>n\<close> elements.\<close>

fun fits :: "nat \<Rightarrow> nat \<Rightarrow> jsval \<Rightarrow> bool" where
  "fits 0 n v = (\<not> container v)"
| "fits (Suc d) n v =
     (case v of
        JArr xs \<Rightarrow> length xs \<le> n \<and> list_all (fits d n) xs
      | JObj ps \<Rightarrow> list_all (\<lambda>p. fits d n (snd p)) ps
      | _ \<Rightarrow> True)"

lemma fits_prim: "\<not> container v \<Longrightarrow> fits d n v"
  by (cases d) (auto simp: container_def split: jsval.split)

lemma fits_get: "fits (Suc d) n v \<Longrightarrow> fits d n (js_get v k)"
proof (cases v)
  case (JObj ps)
  assume "fits (Suc d) n v"
  with JObj show ?thesis
    by (cases "map_of ps k") (auto simp: obj_get.simps fits_prim container_def list_all_iff dest!: map_of_SomeD)
qed (auto simp: fits_prim container_def list_all_iff split: option.split)

lemma loop_same:
  assumes ext: "\<And>k out. \<exists>new. step k out = out @ new" and len: "length out < md"
  shows "fst (diff_loop md step ks out) = out \<longleftrightarrow> (\<forall>k\<in>set ks. step k out = out)"
    and "fst (diff_loop md step ks out) = out \<Longrightarrow> \<not> snd (diff_loop md step ks out)"
proof -
  have "(fst (diff_loop md step ks out) = out \<longleftrightarrow> (\<forall>k\<in>set ks. step k out = out)) \<and>
      (fst (diff_loop md step ks out) = out \<longrightarrow> \<not> snd (diff_loop md step ks out))"
  proof (induction ks)
    case (Cons k ks)
    obtain new where new: "step k out = out @ new" using ext by blast
    show ?case
    proof (cases "new = []")
      case True
      with new Cons len show ?thesis by (simp add: Let_def)
    next
      case False
      obtain new' where "fst (diff_loop md step ks (out @ new)) = (out @ new) @ new'" using loop_extends [of step, OF ext] by blast
      with False new show ?thesis by (simp add: Let_def)
    qed
  qed simp
  then show "fst (diff_loop md step ks out) = out \<longleftrightarrow> (\<forall>k\<in>set ks. step k out = out)"
    and "fst (diff_loop md step ks out) = out \<Longrightarrow> \<not> snd (diff_loop md step ks out)" by simp_all
qed

lemma collect_same:
  assumes "fits d n a" "fits d n b" "length out < md"
  shows "collectJsonDiffs d n md path a b out = out \<longleftrightarrow> same_json a b"
  using assms
proof (induction d arbitrary: path a b)
  case 0
  then have "same_json a b \<longleftrightarrow> strict_eq a b" by (subst same_json_other) (auto simp: container_def)
  with 0 show ?case by simp
next
  case (Suc d)
  show ?case
  proof (cases "is_JArr a \<and> is_JArr b")
    case True
    then obtain xs ys where ab: "a = JArr xs" "b = JArr ys" by (auto simp: is_JArr_def)
    let ?l = "array_loop d n md path xs ys out"
    have len: "length xs \<le> n" "length ys \<le> n" using Suc.prems ab by simp_all
    have c: "collectJsonDiffs (Suc d) n md path a b out = fst ?l" using Suc.prems(3) len by (simp add: ab collect_array Let_def)
    show ?thesis
    proof (cases "length xs = length ys")
      case True
      then have "length_entry path xs ys out = out" "min (min (length xs) (length ys)) n = length xs"
        using len by (simp_all add: length_entry_def)
      then have "fst ?l = out \<longleftrightarrow> (\<forall>i\<in>set [0..<length xs]. collectJsonDiffs d n md (path @ ''['' @ nat_str i @ '']'') (xs ! i) (ys ! i) out = out)"
        unfolding array_loop_def using Suc.prems(3) by (simp only:) (rule loop_same(1), rule collect_extends)
      also have "\<dots> \<longleftrightarrow> (\<forall>i<length xs. same_json (xs ! i) (ys ! i))"
        using True Suc.prems ab by (auto simp: Suc.IH list_all_length)
      finally show ?thesis using True c by (simp add: ab same_json_arrays)
    next
      case False
      obtain new where "fst ?l = length_entry path xs ys out @ new"
        using loop_extends [where step = "\<lambda>i. collectJsonDiffs d n md (path @ ''['' @ nat_str i @ '']'') (xs ! i) (ys ! i)", OF collect_extends]
        unfolding array_loop_def by blast
      then have "fst ?l \<noteq> out" using False by (simp add: length_entry_def)
      with False c show ?thesis by (simp add: ab same_json_arrays)
    qed
  next
    case False
    have "fst (object_loop d n md path a b out) = out \<longleftrightarrow>
        (\<forall>k\<in>set (union_keys a b). collectJsonDiffs d n md (if path \<noteq> [] then path @ ''.'' @ k else k) (js_get a k) (js_get b k) out = out)"
      unfolding object_loop_def using Suc.prems(3) by (rule loop_same(1) [OF collect_extends])
    then have "fst (object_loop d n md path a b out) = out \<longleftrightarrow> (\<forall>k\<in>set (union_keys a b). same_json (js_get a k) (js_get b k))"
      using Suc.IH [OF fits_get [OF Suc.prems(1)] fits_get [OF Suc.prems(2)] Suc.prems(3)] by simp
    with False Suc.prems(3) show ?thesis by (auto simp: collect_other same_json_other)
  qed
qed



end
