(* ===== verification/Json_Roundtrip.thy ===== *)
theory Json_Roundtrip
  imports Js_Json
begin

text \<open>
  \<^verbatim>\<open>JSON.parse(JSON.stringify(v))\<close>: the compact text of a value is read back as the value, with undefined members
  left out, undefined elements and numbers that are not finite replaced by \<^verbatim>\<open>null\<close>, and the members in
  the order in which they were listed. It is what the client's local storage relies on. Numbers
  are natural numbers here (times, counters, cursors).
\<close>

fun json_ok :: "jsval \<Rightarrow> bool" where
  "json_ok (JNum n) = (case n of Fin r \<Rightarrow> r = of_nat (nat \<lfloor>r\<rfloor>) \<and> r < 10 ^ 18 | _ \<Rightarrow> True)"
| "json_ok (JArr xs) = list_all json_ok xs"
| "json_ok (JObj ps) = (wf_obj ps \<and> list_all (\<lambda>p. json_ok (snd p)) ps)"
| "json_ok _ = True"

fun json_clean :: "jsval \<Rightarrow> jsval" where
  "json_clean JUndef = JNull"
| "json_clean (JNum n) = (if is_finite n then JNum n else JNull)"
| "json_clean (JArr xs) = JArr (map json_clean xs)"
| "json_clean (JObj ps) = JObj (map (\<lambda>p. (fst p, json_clean (snd p))) (filter (\<lambda>p. snd p \<noteq> JUndef) (js_entries ps)))"
| "json_clean v = v"

section \<open>Strings\<close>

lemma json_hex4_Cons:
  "json_hex4 (a # b # c # d # r) = (case radix_val 16 [a, b, c, d] of None \<Rightarrow> None | Some n \<Rightarrow> if n < 256 then Some (char_of n) else None)"
  by (simp add: json_hex4_def)

lemma hex_control:
  assumes "(of_char c :: int) < 32"
  shows "json_hex4 (CHR ''0'' # CHR ''0'' # hex_digit (of_char c div 16) # hex_digit (of_char c mod 16) # r) = Some c"
proof -
  have "list_all (\<lambda>n. radix_val 16 [CHR ''0'', CHR ''0'', hex_digit (int n div 16), hex_digit (int n mod 16)] = Some (int n)) [0..<32]"
    by code_simp
  moreover have c: "(of_char c :: int) = int (of_char c)" by (simp add: of_nat_of_char)
  moreover have "(of_char c :: nat) < 32" using assms unfolding c by linarith
  ultimately have "radix_val 16 [CHR ''0'', CHR ''0'', hex_digit (of_char c div 16), hex_digit (of_char c mod 16)] = Some (of_char c)"
    unfolding c list_all_iff by (auto simp del: of_nat_of_char)
  with assms show ?thesis by (simp add: json_hex4_Cons)
qed

lemma json_string_escape: "json_string (json_escape c @ t) = map_option (map_prod ((#) c) id) (json_string t)"
proof (cases "(of_char c :: int) < 32 \<and> c \<notin> {CHR 0x08, CHR 0x0C, CHR 0x0A, CHR 0x0D, CHR 0x09}")
  case True
  then have "json_escape c = [CHR 0x5C, CHR ''u'', CHR ''0'', CHR ''0'', hex_digit (of_char c div 16), hex_digit (of_char c mod 16)]"
    by (auto simp: json_escape_def)
  with True show ?thesis by (simp add: hex_control)
next
  case False
  then show ?thesis by (auto simp: json_escape_def json_unescape_def)
qed

lemma json_string_quote: "json_string (concat (map json_escape s) @ CHR 0x22 # r) = Some (s, r)"
  by (induction s) (simp_all add: json_string_escape)

section \<open>Numbers\<close>

lemma int_digits_hd: "0 < n \<Longrightarrow> hd (int_digits n) \<noteq> CHR ''0''"
proof (induction n rule: int_digits.induct)
  case (1 n)
  show ?case
  proof (cases "n < 10")
    case True
    then have "digit_val (hd (int_digits n)) = n" using 1(2) by (subst int_digits.simps) (simp add: char_of_digit)
    with 1(2) show ?thesis by (auto simp: digit_val_def)
  next
    case False
    then have "int_digits (n div 10) \<noteq> []" using int_digits_digits [of "n div 10"] by simp
    then have "hd (int_digits n) = hd (int_digits (n div 10))" using False by (subst int_digits.simps) simp
    with 1(1) [OF False] False show ?thesis by simp
  qed
qed

lemma nat_str_canonical: "nat_str n = ''0'' \<or> hd (nat_str n) \<noteq> CHR ''0''"
proof (cases "n = 0")
  case True
  then show ?thesis by (simp add: nat_str_def int_digits.simps)
qed (simp add: nat_str_def int_digits_hd)

lemma digits_num_char: "js_digit c \<Longrightarrow> json_num_char c"
  by (simp add: json_num_char_def)

lemma json_num_ok_nat: "json_num_ok (nat_str n)"
proof -
  have d: "nat_str n \<noteq> []" "list_all js_digit (nat_str n)" using nat_str_digits by blast+
  have tw: "takeWhile js_digit (nat_str n) = nat_str n" "dropWhile js_digit (nat_str n) = []" using d(2) by (simp_all add: list_all_iff)
  have "\<not> js_starts_with (nat_str n) ''-''" by (rule digits_no_prefix [OF d(2)]) (simp add: js_digit_def)
  then show ?thesis
    using d(1) nat_str_canonical [of n] by (simp add: json_num_ok_def Let_def tw unsigned_decimal_def js_starts_with_def)
qed

lemma json_number_nat:
  assumes "n < 10 ^ 18" "r = [] \<or> \<not> json_num_char (hd r)"
  shows "json_number (nat_str n @ r) = Some (JNum (Fin (of_nat n)), r)"
proof -
  have a: "\<forall>c\<in>set (nat_str n). json_num_char c"
    using nat_str_digits [of n] digits_num_char by (auto simp: list_all_iff)
  have "takeWhile json_num_char (nat_str n @ r) = nat_str n" "dropWhile json_num_char (nat_str n @ r) = r"
    using a assms(2) by (cases r; simp add: takeWhile_append dropWhile_append)+
  moreover have "js_Number_str (nat_str n) = Fin (of_nat n)"
  proof -
    have "(of_nat n :: rat) < of_nat (10 ^ 18)" using assms(1) by (simp only: of_nat_less_iff)
    also have "of_nat (10 ^ 18) < double_limit" using double_limit_large by simp
    finally show ?thesis by (simp add: js_Number_str_nat_str num_of_rat_nat)
  qed
  ultimately show ?thesis by (simp add: json_number_def json_num_ok_nat)
qed

section \<open>Values\<close>

text \<open>What can follow a value in a compact text.\<close>

definition delimited :: "string \<Rightarrow> bool" where
  "delimited r = (r = [] \<or> hd r \<in> {CHR '','', CHR '']'', CHR ''}''})"

text \<open>With enough fuel the text of a value in front of a delimiter is read as the cleaned value.\<close>

definition reads :: "string \<Rightarrow> jsval \<Rightarrow> bool" where
  "reads t v = (\<forall>r. delimited r \<longrightarrow> (\<exists>N. \<forall>n\<ge>N. json_value n (t @ r) = Some (v, r)))"

lemma json_ws_id: "s = [] \<or> hd s \<notin> {CHR '' '', CHR 0x09, CHR 0x0A, CHR 0x0D} \<Longrightarrow> json_ws s = s"
  by (cases s) (auto simp: json_ws_def)

lemma readsI:
  assumes "\<And>n r. delimited r \<Longrightarrow> json_value (Suc n) (t @ r) = Some (v, r)"
  shows "reads t v"
proof -
  have "json_value n (t @ r) = Some (v, r)" if "delimited r" "1 \<le> n" for n r
    using assms [OF that(1), of "n - 1"] that(2) by simp
  then show ?thesis unfolding reads_def by blast
qed

lemma reads_string: "reads (json_quote s) (JStr s)"
  by (rule readsI) (simp add: json_value.simps json_quote_def json_ws_id json_string_quote)

lemma reads_literal: "reads ''null'' JNull" "reads ''true'' (JBool True)" "reads ''false'' (JBool False)"
  by (rule readsI; simp add: json_value.simps json_ws_id json_literal_def js_starts_with_def)+

lemma reads_nat: "n < 10 ^ 18 \<Longrightarrow> reads (nat_str n) (JNum (Fin (of_nat n)))"
proof (rule readsI)
  fix k r assume n: "n < 10 ^ 18" and r: "delimited r"
  obtain c t where ct: "nat_str n = c # t" and c: "js_digit c" using nat_str_digits [of n] by (cases "nat_str n") auto
  have "json_ws (nat_str n @ r) = c # t @ r" using c by (subst json_ws_id) (auto simp: ct js_digit_def)
  moreover have "c \<notin> {CHR 0x22, CHR ''['', CHR ''{'', CHR ''t'', CHR ''f'', CHR ''n''}" using c by (auto simp: js_digit_def)
  moreover have "json_number (c # t @ r) = Some (JNum (Fin (of_nat n)), r)"
    using json_number_nat [OF n, of r] r by (auto simp: ct delimited_def json_num_char_def js_digit_def)
  ultimately show "json_value (Suc k) (nat_str n @ r) = Some (JNum (Fin (of_nat n)), r)" by (simp add: json_value.simps)
qed

lemma readsD: "reads t v \<Longrightarrow> delimited r \<Longrightarrow> \<exists>N. \<forall>n\<ge>N. json_value n (t @ r) = Some (v, r)"
  by (simp add: reads_def)

lemma delimited_simps [simp]: "delimited []" "delimited (CHR '','' # r)" "delimited (CHR '']'' # r)" "delimited (CHR ''}'' # r)"
  by (simp_all add: delimited_def)

text \<open>The text of a value starts with a character that ends no list.\<close>

definition opens :: "string \<Rightarrow> bool" where
  "opens t = (t \<noteq> [] \<and> hd t \<notin> {CHR '' '', CHR 0x09, CHR 0x0A, CHR 0x0D, CHR '']'', CHR ''}''})"

definition reads_elems :: "string \<Rightarrow> jsval list \<Rightarrow> bool" where
  "reads_elems t vs = (\<forall>r. \<exists>N. \<forall>n\<ge>N. json_elems n (t @ CHR '']'' # r) = Some (vs, r))"

definition reads_members :: "string \<Rightarrow> jsval jsobj \<Rightarrow> bool" where
  "reads_members t qs = (\<forall>ps r. fst ` set ps \<inter> fst ` set qs = {} \<longrightarrow>
     (\<exists>N. \<forall>n\<ge>N. json_members n ps (t @ CHR ''}'' # r) = Some (ps @ qs, r)))"

lemma reads_elems_join:
  assumes "ts \<noteq> []" "list_all2 reads ts vs"
  shows "reads_elems (js_join '','' ts) vs"
  using assms(2,1)
proof (induction rule: list_all2_induct)
  case (Cons t ts v vs)
  show ?case unfolding reads_elems_def
  proof
    fix r
    show "\<exists>N. \<forall>n\<ge>N. json_elems n (js_join '','' (t # ts) @ CHR '']'' # r) = Some (v # vs, r)"
    proof (cases "ts = []")
      case True
      then have "vs = []" using Cons.hyps(2) by simp
      obtain N where "\<forall>n\<ge>N. json_value n (t @ CHR '']'' # r) = Some (v, CHR '']'' # r)"
        using readsD [OF Cons.hyps(1) delimited_simps(3)] by blast
      then have "json_elems n (t @ CHR '']'' # r) = Some ([v], r)" if "Suc N \<le> n" for n
        using that by (cases n) (simp_all add: json_elems.simps json_ws_id)
      with True \<open>vs = []\<close> show ?thesis by auto
    next
      case False
      let ?rest = "js_join '','' ts @ CHR '']'' # r"
      obtain N where N: "\<forall>n\<ge>N. json_value n (t @ CHR '','' # ?rest) = Some (v, CHR '','' # ?rest)"
        using readsD [OF Cons.hyps(1) delimited_simps(2)] by blast
      obtain M where M: "\<forall>n\<ge>M. json_elems n ?rest = Some (vs, r)" using Cons.IH [OF False] unfolding reads_elems_def by blast
      have "json_elems n (t @ CHR '','' # ?rest) = Some (v # vs, r)" if "Suc (max N M) \<le> n" for n
        using that N M by (cases n) (simp_all add: json_elems.simps json_ws_id)
      with False show ?thesis by (auto simp: js_join_Cons)
    qed
  qed
qed simp

lemma reads_member:
  assumes "reads t v" "delimited (d # r)"
  shows "\<exists>N. \<forall>n\<ge>N. json_members (Suc n) ps (json_quote k @ '':'' @ t @ d # r) =
      (if d = CHR ''}'' then Some (obj_put ps k v, r) else if d = CHR '','' then json_members n (obj_put ps k v) r else None)"
proof -
  obtain N where "\<forall>n\<ge>N. json_value n (t @ d # r) = Some (v, d # r)" using assms unfolding reads_def by blast
  moreover have "json_ws (d # r) = d # r" using assms(2) by (intro json_ws_id) (auto simp: delimited_def)
  ultimately show ?thesis
    by (intro exI [of _ N]) (simp add: json_members.simps json_quote_def json_ws_id json_string_quote)
qed

lemma reads_members_join:
  assumes "ts \<noteq> []" "list_all2 (\<lambda>t q. \<exists>u. t = json_quote (fst q) @ '':'' @ u \<and> reads u (snd q)) ts qs" "wf_obj qs"
  shows "reads_members (js_join '','' ts) qs"
  using assms(2,1,3)
proof (induction rule: list_all2_induct)
  case (Cons t ts q qs)
  obtain u where u: "t = json_quote (fst q) @ '':'' @ u" "reads u (snd q)" using Cons.hyps(1) by blast
  show ?case unfolding reads_members_def
  proof (intro allI impI)
    fix ps :: "jsval jsobj" and r assume d: "fst ` set ps \<inter> fst ` set (q # qs) = {}"
    then have put: "obj_put ps (fst q) (snd q) = ps @ [q]" by (subst update_notin) auto
    show "\<exists>N. \<forall>n\<ge>N. json_members n ps (js_join '','' (t # ts) @ CHR ''}'' # r) = Some (ps @ q # qs, r)"
    proof (cases "ts = []")
      case True
      then have "qs = []" using Cons.hyps(2) by simp
      obtain N where N: "\<forall>n\<ge>N. json_members (Suc n) ps (t @ CHR ''}'' # r) = Some (ps @ [q], r)"
        using reads_member [OF u(2), of "CHR ''}''" r ps "fst q"] by (auto simp: u(1) put)
      have "json_members n ps (t @ CHR ''}'' # r) = Some (ps @ [q], r)" if "Suc N \<le> n" for n
        using that N by (cases n) simp_all
      with True \<open>qs = []\<close> show ?thesis by auto
    next
      case False
      let ?rest = "js_join '','' ts @ CHR ''}'' # r"
      obtain N where N: "\<forall>n\<ge>N. json_members (Suc n) ps (t @ CHR '','' # ?rest) = json_members n (ps @ [q]) ?rest"
        using reads_member [OF u(2), of "CHR '',''" ?rest ps "fst q"] by (auto simp: u(1) put)
      have "fst ` set (ps @ [q]) \<inter> fst ` set qs = {}" using d Cons.prems(2) by auto
      then obtain M where M: "\<forall>n\<ge>M. json_members n (ps @ [q]) ?rest = Some ((ps @ [q]) @ qs, r)"
        using Cons.IH [OF False] Cons.prems(2) unfolding reads_members_def by (metis distinct.simps(2) list.simps(9))
      have "json_members n ps (t @ CHR '','' # ?rest) = Some (ps @ q # qs, r)" if "Suc (max N M) \<le> n" for n
        using that N M by (cases n) simp_all
      with False show ?thesis by (auto simp: js_join_Cons)
    qed
  qed
qed simp

lemma opens_join: "opens t \<Longrightarrow> opens (js_join d (t # ts))"
  by (cases ts) (auto simp: opens_def)

lemma opens_ws: "opens t \<Longrightarrow> \<exists>c u. t = c # u \<and> json_ws (t @ r) = c # u @ r \<and> c \<noteq> CHR '']'' \<and> c \<noteq> CHR ''}''"
  by (cases t) (auto simp: opens_def json_ws_id)

lemma opens_quote: "opens (json_quote s @ t)"
  by (simp add: opens_def json_quote_def)

lemma reads_array:
  assumes "list_all2 reads ts vs" "list_all opens ts"
  shows "reads (json_bracket CHR ''['' CHR '']'' [] ind ts) (JArr vs)"
proof (cases "ts = []")
  case True
  with assms(1) show ?thesis
    by (auto intro!: readsI simp: json_bracket_def json_value.simps json_ws_id)
next
  case False
  let ?t = "js_join '','' ts"
  have o: "opens ?t" using False assms(2) by (cases ts) (auto intro: opens_join)
  show ?thesis unfolding reads_def
  proof (intro allI impI)
    fix r
    obtain N where N: "\<forall>n\<ge>N. json_elems n (?t @ CHR '']'' # r) = Some (vs, r)"
      using reads_elems_join [OF False assms(1)] unfolding reads_elems_def by blast
    obtain c u where "json_ws (?t @ CHR '']'' # r) = c # u" "c \<noteq> CHR '']''"
      using opens_ws [OF o] by metis
    then have "json_value n (CHR ''['' # ?t @ CHR '']'' # r) = Some (JArr vs, r)" if "Suc N \<le> n" for n
      using that N by (cases n) (simp_all add: json_value.simps json_ws_id)
    then show "\<exists>N. \<forall>n\<ge>N. json_value n (json_bracket CHR ''['' CHR '']'' [] ind ts @ r) = Some (JArr vs, r)"
      using False by (auto simp: json_bracket_def)
  qed
qed

lemma reads_object:
  assumes "list_all2 (\<lambda>t q. \<exists>u. t = json_quote (fst q) @ '':'' @ u \<and> reads u (snd q)) ts qs" "wf_obj qs"
  shows "reads (json_bracket CHR ''{'' CHR ''}'' [] ind ts) (JObj qs)"
proof (cases "ts = []")
  case True
  with assms(1) show ?thesis
    by (auto intro!: readsI simp: json_bracket_def json_value.simps json_ws_id)
next
  case False
  let ?t = "js_join '','' ts"
  have "list_all opens ts" using assms(1) by (auto simp: list_all_length list_all2_conv_all_nth) (metis opens_quote)
  then have o: "opens ?t" using False by (cases ts) (auto intro: opens_join)
  show ?thesis unfolding reads_def
  proof (intro allI impI)
    fix r
    obtain N where N: "\<forall>n\<ge>N. json_members n [] (?t @ CHR ''}'' # r) = Some (qs, r)"
      using reads_members_join [OF False assms] unfolding reads_members_def by (metis append_Nil image_empty inf_bot_left list.set(1))
    obtain c u where "json_ws (?t @ CHR ''}'' # r) = c # u" "c \<noteq> CHR ''}''"
      using opens_ws [OF o] by metis
    then have "json_value n (CHR ''{'' # ?t @ CHR ''}'' # r) = Some (JObj qs, r)" if "Suc N \<le> n" for n
      using that N by (cases n) (simp_all add: json_value.simps json_ws_id)
    then show "\<exists>N. \<forall>n\<ge>N. json_value n (json_bracket CHR ''{'' CHR ''}'' [] ind ts @ r) = Some (JObj qs, r)"
      using False by (auto simp: json_bracket_def)
  qed
qed

text \<open>The text of an element, where an undefined one is written \<^verbatim>\<open>null\<close>.\<close>

abbreviation elem_text :: "jsval \<Rightarrow> string" where
  "elem_text v \<equiv> case json_compact v of None \<Rightarrow> ''null'' | Some t \<Rightarrow> t"

lemma opens_text: "opens (elem_text v)"
proof (cases v)
  case (JNum n)
  have "opens (num_str (Fin r))" for r
  proof -
    have d: "opens (int_digits i @ t)" if "0 \<le> i" for i t
      using int_digits_digits [OF that] by (cases "int_digits i") (auto simp: opens_def js_digit_def)
    then show ?thesis using d [of _ "[]"] by (auto simp: num_str_def pos_str_def Let_def opens_def)
  qed
  with JNum show ?thesis by (cases n) (auto simp: opens_def)
qed (auto simp: opens_def json_quote_def json_bracket_def)

lemma json_reads: "json_ok v \<Longrightarrow> reads (elem_text v) (json_clean v)"
proof (induction v)
  case (JNum n)
  show ?case
  proof (cases n)
    case (Fin r)
    with JNum have "r = of_nat (nat \<lfloor>r\<rfloor>)" "r < 10 ^ 18" by simp_all
    then obtain k where k: "r = of_nat k" "k < 10 ^ 18"
      by (metis of_nat_less_iff of_nat_numeral of_nat_power)
    with Fin reads_nat [of k] show ?thesis by (simp add: num_str_nat)
  qed (simp_all add: reads_literal)
next
  case (JArr xs)
  then have "list_all2 reads (map elem_text xs) (map json_clean xs)" by (auto simp: list_all2_conv_all_nth list_all_length)
  moreover have "list_all opens (map elem_text xs)" by (simp add: list_all_iff opens_text)
  ultimately show ?case using reads_array by simp
next
  case (JObj ps)
  let ?ps = "filter (\<lambda>p. snd p \<noteq> JUndef) (js_entries ps)"
  let ?m = "\<lambda>p. json_quote (fst p) @ '':'' @ elem_text (snd p)"
  have e: "concat (map (\<lambda>(k, v). case json_compact v of None \<Rightarrow> [] | Some t \<Rightarrow> [json_quote k @ '':'' @ [] @ t]) qs) = map ?m (filter (\<lambda>p. snd p \<noteq> JUndef) qs)" for qs
    by (induction qs) (auto simp: json_stringify_None split: option.split)
  have "reads (elem_text (snd p)) (json_clean (snd p))" if "p \<in> set ps" for p
  proof -
    have "json_ok (snd p)" using JObj.prems that by (simp add: list_all_iff)
    then show ?thesis using JObj.IH [of p "snd p"] that by (cases p) simp
  qed
  then have "list_all2 (\<lambda>t q. \<exists>u. t = json_quote (fst q) @ '':'' @ u \<and> reads u (snd q)) (map ?m ?ps) (map (\<lambda>p. (fst p, json_clean (snd p))) ?ps)"
    by (auto simp: list_all2_map1 list_all2_map2 intro!: list.rel_refl_strong)
  moreover have "wf_obj (map (\<lambda>p. (fst p, json_clean (snd p))) ?ps)"
    using JObj.prems by (simp add: comp_def distinct_map_filter)
  ultimately have "reads (json_bracket CHR ''{'' CHR ''}'' [] [] (map ?m ?ps)) (json_clean (JObj ps))"
    using reads_object by simp
  moreover have "json_compact (JObj ps) = Some (json_bracket CHR ''{'' CHR ''}'' [] [] (map ?m ?ps))" by (simp add: e)
  ultimately show ?case by simp
qed (auto simp: reads_literal reads_string)

text \<open>Reading the compact text of a value gives the cleaned value, with the fuel of \<open>json_parse\<close>.\<close>

theorem json_roundtrip:
  assumes "json_ok v" "json_compact v = Some t"
  shows "json_parse t = Some (json_clean v)"
proof -
  obtain N where N: "\<forall>n\<ge>N. json_value n (t @ []) = Some (json_clean v, [])"
    using readsD [OF json_reads [OF assms(1)] delimited_simps(1)] assms(2) by auto
  have "json_value (2 * length t + 2) t = json_value (2 * length t + 2 + N) t" by (rule json_value_fuel [symmetric]) simp
  also have "\<dots> = Some (json_clean v, [])" using N by simp
  finally show ?thesis by (simp add: json_parse_def json_ws_def)
qed

end
