(* ===== verification/Session_Stream.thy ===== *)
theory Session_Stream
  imports Sse Live_Log Json_Utils Json_Roundtrip
begin

text \<open>
  \<^verbatim>\<open>src/ui/src/hooks/useSessionEventStreaming.ts\<close>: the stream of a session's events. The last 200 events and the identifier of the
  newest one are kept in local storage; a connection that ends or fails is opened again with that
  identifier as \<^verbatim>\<open>Last-Event-ID\<close>, and events that arrive again are recognised by their identifier. The loop is a state
  machine: one action for each answer, event, end, failure and wake-up. The clock is an argument.
\<close>

section \<open>The persisted buffer\<close>

definition SESSION_STREAM_MAX_EVENTS :: nat where
  "SESSION_STREAM_MAX_EVENTS = 200"

definition SESSION_STREAM_SCHEMA_VERSION :: nat where
  "SESSION_STREAM_SCHEMA_VERSION = 1"

record PersistedSessionStreamEvent =
  pe_id :: "string option"
  pe_event :: string
  pe_data :: string
  pe_receivedAtMs :: rat

record PersistedSessionStreamState =
  ss_version :: nat
  ss_lastEventId :: string
  ss_lastEventAtMs :: "rat option"
  ss_updatedMs :: "rat option"
  ss_events :: "PersistedSessionStreamEvent list"

definition EMPTY_PERSISTED_STATE :: PersistedSessionStreamState where
  "EMPTY_PERSISTED_STATE =
     \<lparr>ss_version = SESSION_STREAM_SCHEMA_VERSION, ss_lastEventId = [], ss_lastEventAtMs = None, ss_updatedMs = None, ss_events = []\<rparr>"

definition finite_of :: "jsval \<Rightarrow> rat option" where
  "finite_of v = (case v of JNum (Fin r) \<Rightarrow> Some r | _ \<Rightarrow> None)"

definition trimmed_or :: "jsval \<Rightarrow> string option" where
  "trimmed_or v = (case v of JStr s \<Rightarrow> if js_trim s \<noteq> [] then Some (js_trim s) else None | _ \<Rightarrow> None)"

definition read_stream_event :: "rat \<Rightarrow> jsval \<Rightarrow> PersistedSessionStreamEvent" where
  "read_stream_event now entry =
     (let record = safeObject entry
      in \<lparr>pe_id = trimmed_or (obj_get record ''id''),
          pe_event = opt_or (trimmed_or (obj_get record ''event'')) ''message'',
          pe_data = opt_or (as_str (obj_get record ''data'')) [],
          pe_receivedAtMs = (case finite_of (obj_get record ''receivedAtMs'') of Some r \<Rightarrow> if r > 0 then r else now | None \<Rightarrow> now)\<rparr>)"

definition readPersistedSessionStream :: "rat \<Rightarrow> string \<Rightarrow> string option \<Rightarrow> PersistedSessionStreamState" where
  "readPersistedSessionStream now key stored =
     (if key = [] \<or> opt_or stored [] = [] then EMPTY_PERSISTED_STATE
      else
        let parsed = safeObject (safeJsonParse (opt_or stored []));
            rawEvents = (case obj_get parsed ''events'' of JArr xs \<Rightarrow> xs | _ \<Rightarrow> []);
            events = map (read_stream_event now) (filter (\<lambda>e. truthy e \<and> typeof_object e) rawEvents)
        in \<lparr>ss_version = SESSION_STREAM_SCHEMA_VERSION,
            ss_lastEventId = (case obj_get parsed ''lastEventId'' of JStr s \<Rightarrow> js_trim s | _ \<Rightarrow> []),
            ss_lastEventAtMs = finite_of (obj_get parsed ''lastEventAtMs''),
            ss_updatedMs = finite_of (obj_get parsed ''updatedMs''),
            ss_events = newest SESSION_STREAM_MAX_EVENTS events\<rparr>)"

definition num_or_null :: "rat option \<Rightarrow> jsval" where
  "num_or_null x = (case x of Some r \<Rightarrow> JNum (Fin r) | None \<Rightarrow> JNull)"

definition stream_event_value :: "PersistedSessionStreamEvent \<Rightarrow> jsval" where
  "stream_event_value e =
     JObj [(''id'', (case pe_id e of Some i \<Rightarrow> JStr i | None \<Rightarrow> JUndef)), (''event'', JStr (pe_event e)), (''data'', JStr (pe_data e)),
           (''receivedAtMs'', JNum (Fin (pe_receivedAtMs e)))]"

definition stream_state_value :: "PersistedSessionStreamState \<Rightarrow> jsval" where
  "stream_state_value st =
     JObj [(''version'', JNum (Fin (of_nat (ss_version st)))), (''lastEventId'', JStr (ss_lastEventId st)),
           (''lastEventAtMs'', num_or_null (ss_lastEventAtMs st)), (''updatedMs'', num_or_null (ss_updatedMs st)),
           (''events'', JArr (map stream_event_value (ss_events st)))]"

text \<open>The new content of the storage item; \<open>full\<close> says whether \<^verbatim>\<open>setItem\<close> throws.\<close>

definition writePersistedSessionStream :: "bool \<Rightarrow> string \<Rightarrow> PersistedSessionStreamState \<Rightarrow> string option \<Rightarrow> string option" where
  "writePersistedSessionStream full key st stored =
     (if key = [] \<or> full then stored else json_compact (stream_state_value st))"

section \<open>Events\<close>

definition parseEventData :: "string \<Rightarrow> jsval" where
  "parseEventData raw = (if raw = [] then JObj [] else js_coalesce (safeJsonParse raw) (JStr raw))"

definition str_or_undef :: "jsval \<Rightarrow> jsval" where
  "str_or_undef v = (if is_JStr v then v else JUndef)"

definition materialize_event :: "PersistedSessionStreamEvent \<Rightarrow> jsval" where
  "materialize_event e =
     (let parsed = parseEventData (pe_data e); record = safeObject parsed
      in case obj_get record ''type'' of
           JStr t \<Rightarrow>
             if map_of record ''data'' \<noteq> None
             then JObj [(''type'', JStr t), (''trace_id'', str_or_undef (obj_get record ''trace_id'')), (''data'', obj_get record ''data'')]
             else JObj [(''type'', JStr t), (''trace_id'', str_or_undef (obj_get record ''trace_id'')),
                        (''data'', JObj (obj_del_all record [''type'', ''trace_id'']))]
         | _ \<Rightarrow> JObj [(''type'', JStr (str_or (pe_event e) ''message'')), (''data'', parsed)])"

definition materializeAgentEvents :: "PersistedSessionStreamState \<Rightarrow> jsval list" where
  "materializeAgentEvents st = map materialize_event (ss_events st)"

definition stream_entry :: "rat \<Rightarrow> SseEvent \<Rightarrow> PersistedSessionStreamEvent" where
  "stream_entry now event =
     (let nextId = js_trim (opt_or (ev_id event) [])
      in \<lparr>pe_id = (if nextId \<noteq> [] then Some nextId else None), pe_event = str_or (ev_event event) ''message'',
          pe_data = ev_data event, pe_receivedAtMs = now\<rparr>)"

definition appendSessionStreamEvent :: "rat \<Rightarrow> PersistedSessionStreamState \<Rightarrow> SseEvent \<Rightarrow> PersistedSessionStreamState option" where
  "appendSessionStreamEvent now st event =
     (let nextId = js_trim (opt_or (ev_id event) []) in
      if nextId \<noteq> [] \<and> list_ex (\<lambda>e. pe_id e = Some nextId) (ss_events st) then None
      else Some \<lparr>ss_version = SESSION_STREAM_SCHEMA_VERSION, ss_lastEventId = str_or nextId (ss_lastEventId st),
                 ss_lastEventAtMs = Some now, ss_updatedMs = Some now,
                 ss_events = newest SESSION_STREAM_MAX_EVENTS (ss_events st @ [stream_entry now event])\<rparr>)"

section \<open>The connection loop\<close>

definition stream_persist_key :: "string \<Rightarrow> string \<Rightarrow> string" where
  "stream_persist_key sessionScopeKey sessionIdTrimmed =
     (if sessionIdTrimmed \<noteq> [] then ''agentui.sessionEventStream:'' @ sessionScopeKey @ ''::'' @ sessionIdTrimmed else [])"

definition streaming_enabled :: "string \<Rightarrow> string option \<Rightarrow> string \<Rightarrow> string option \<Rightarrow> bool" where
  "streaming_enabled connectionMode activeJobId sessionIdTrimmed streamUrl =
     (connectionMode = ''broker'' \<and> opt_or activeJobId [] = [] \<and> sessionIdTrimmed \<noteq> [] \<and> opt_or streamUrl [] \<noteq> [])"

datatype SessionStreamStatus = Disabled | Idle | Connecting | Live | Reconnecting | Failed

record session_view =
  sv_status :: SessionStreamStatus
  sv_lastEventId :: string
  sv_lastEventAtMs :: "rat option"
  sv_updatedMs :: "rat option"
  sv_bufferedCount :: nat
  sv_error :: "string option"
  sv_persisted :: PersistedSessionStreamState
  sv_stored :: "string option"
  sv_liveEvents :: "jsval list"

text \<open>The first effect: what is stored for the session is shown.\<close>

definition show_persisted :: "PersistedSessionStreamState \<Rightarrow> session_view \<Rightarrow> session_view" where
  "show_persisted st v =
     v\<lparr>sv_persisted := st, sv_lastEventId := ss_lastEventId st, sv_lastEventAtMs := ss_lastEventAtMs st,
       sv_updatedMs := ss_updatedMs st, sv_bufferedCount := length (ss_events st)\<rparr>"

definition rehydrate :: "rat \<Rightarrow> bool \<Rightarrow> bool \<Rightarrow> string \<Rightarrow> session_view \<Rightarrow> session_view" where
  "rehydrate now streaming jobActive persistKey v =
     (if persistKey = [] then v
      else
        let persisted = readPersistedSessionStream now persistKey (sv_stored v); v' = show_persisted persisted v
        in if streaming then v'\<lparr>sv_liveEvents := materializeAgentEvents persisted\<rparr>
           else if \<not> jobActive then v'\<lparr>sv_liveEvents := []\<rparr> else v')"

text \<open>The second effect: at the head of the loop, connecting with a cursor, reading the body, pausing, or over.\<close>

datatype loop_phase = LoopHead | LoopFetch string | LoopBody | LoopSleep nat | LoopOver

record session_loop =
  sl_cancelled :: bool
  sl_attempt :: nat
  sl_phase :: loop_phase

definition stream_off :: "bool \<Rightarrow> session_view \<Rightarrow> session_view" where
  "stream_off hasSession v = v\<lparr>sv_status := (if hasSession then Idle else Disabled), sv_error := None\<rparr>"

definition start_loop :: session_loop where
  "start_loop = \<lparr>sl_cancelled = False, sl_attempt = 0, sl_phase = LoopHead\<rparr>"

definition delayMs :: "nat \<Rightarrow> nat" where
  "delayMs attempt = min 5000 (1000 * attempt)"

definition on_event :: "rat \<Rightarrow> bool \<Rightarrow> string \<Rightarrow> SseEvent \<Rightarrow> session_view \<Rightarrow> session_view" where
  "on_event now full persistKey event v =
     (case appendSessionStreamEvent now (sv_persisted v) event of
        None \<Rightarrow> v
      | Some nextState \<Rightarrow>
          (show_persisted nextState v)
            \<lparr>sv_stored := writePersistedSessionStream full persistKey nextState (sv_stored v),
             sv_liveEvents := materializeAgentEvents nextState\<rparr>)"

datatype session_action =
    Turn
  | Response "nat option"
  | Event rat bool SseEvent
  | BodyEnd
  | Broken string
  | Wake
  | Stop

fun loop_enabled :: "session_loop \<Rightarrow> session_action \<Rightarrow> bool" where
  "loop_enabled l Turn = (sl_phase l = LoopHead)"
| "loop_enabled l (Response s) = (case sl_phase l of LoopFetch _ \<Rightarrow> True | _ \<Rightarrow> False)"
| "loop_enabled l (Event now full e) = (sl_phase l = LoopBody)"
| "loop_enabled l BodyEnd = (sl_phase l = LoopBody)"
| "loop_enabled l (Broken e) = (case sl_phase l of LoopFetch _ \<Rightarrow> True | LoopBody \<Rightarrow> True | _ \<Rightarrow> False)"
| "loop_enabled l Wake = (case sl_phase l of LoopSleep _ \<Rightarrow> True | _ \<Rightarrow> False)"
| "loop_enabled l Stop = (\<not> sl_cancelled l)"

text \<open>A pause follows the attempt; \<open>failed_attempt\<close> is the \<^verbatim>\<open>catch\<close> clause, where the controller of a cancelled loop is aborted too.\<close>

definition pause :: "session_loop \<Rightarrow> session_loop" where
  "pause l = l\<lparr>sl_attempt := sl_attempt l + 1, sl_phase := LoopSleep (delayMs (sl_attempt l + 1))\<rparr>"

definition failed_attempt :: "string \<Rightarrow> session_view \<times> session_loop \<Rightarrow> session_view \<times> session_loop" where
  "failed_attempt err s =
     (case s of (v, l) \<Rightarrow>
        if sl_cancelled l then (v, l\<lparr>sl_phase := LoopOver\<rparr>) else (v\<lparr>sv_error := Some err, sv_status := Failed\<rparr>, pause l))"

fun loop_step :: "string \<Rightarrow> session_action \<Rightarrow> session_view \<times> session_loop \<Rightarrow> session_view \<times> session_loop" where
  "loop_step key Turn (v, l) =
     (if sl_cancelled l then (v, l\<lparr>sl_phase := LoopOver\<rparr>)
      else (v\<lparr>sv_status := (if sl_attempt l > 0 then Reconnecting else Connecting)\<rparr>,
            l\<lparr>sl_phase := LoopFetch (ss_lastEventId (sv_persisted v))\<rparr>))"
| "loop_step key (Response None) (v, l) = (v\<lparr>sv_error := None, sv_status := Live\<rparr>, l\<lparr>sl_phase := LoopBody\<rparr>)"
| "loop_step key (Response (Some status)) (v, l) =
     failed_attempt (''Error: session stream failed: HTTP '' @ nat_str status) (v, l)"
| "loop_step key (Event now full e) (v, l) = (if sl_cancelled l then (v, l) else (on_event now full key e v, l))"
| "loop_step key BodyEnd (v, l) =
     (if sl_cancelled l then (v, l\<lparr>sl_phase := LoopOver\<rparr>) else (v\<lparr>sv_status := Reconnecting\<rparr>, pause l))"
| "loop_step key (Broken err) (v, l) = failed_attempt err (v, l)"
| "loop_step key Wake (v, l) = (v, l\<lparr>sl_phase := LoopHead\<rparr>)"
| "loop_step key Stop (v, l) = (v, l\<lparr>sl_cancelled := True\<rparr>)"

section \<open>What is written is read back\<close>

definition clock_ok :: "rat \<Rightarrow> bool" where
  "clock_ok r = (0 < r \<and> r = of_nat (nat \<lfloor>r\<rfloor>) \<and> r < 10 ^ 18)"

definition entry_ok :: "PersistedSessionStreamEvent \<Rightarrow> bool" where
  "entry_ok e = ((\<forall>i. pe_id e = Some i \<longrightarrow> i \<noteq> [] \<and> trimmed i) \<and> pe_event e \<noteq> [] \<and> trimmed (pe_event e) \<and> clock_ok (pe_receivedAtMs e))"

definition time_ok :: "rat option \<Rightarrow> bool" where
  "time_ok x = (\<forall>r. x = Some r \<longrightarrow> clock_ok r)"

definition persist_ok :: "PersistedSessionStreamState \<Rightarrow> bool" where
  "persist_ok st =
     (ss_version st = SESSION_STREAM_SCHEMA_VERSION \<and> trimmed (ss_lastEventId st) \<and> time_ok (ss_lastEventAtMs st) \<and> time_ok (ss_updatedMs st) \<and>
      list_all entry_ok (ss_events st) \<and> length (ss_events st) \<le> SESSION_STREAM_MAX_EVENTS)"

lemma array_index_letter: "\<not> js_digit c \<Longrightarrow> array_index (c # s) = None"
  by (simp add: array_index_def)

lemma json_ok_clock: "clock_ok r \<Longrightarrow> json_ok (JNum (Fin r))"
  by (simp add: clock_ok_def)

lemma json_ok_entry: "entry_ok e \<Longrightarrow> json_ok (stream_event_value e)"
  using json_ok_clock [of "pe_receivedAtMs e"]
  by (simp add: entry_ok_def stream_event_value_def del: json_ok.simps(1) split: option.split)

lemma json_ok_time: "time_ok x \<Longrightarrow> json_ok (num_or_null x)"
  using json_ok_clock by (auto simp: num_or_null_def time_ok_def simp del: json_ok.simps(1) split: option.split)

lemma json_ok_state:
  assumes "persist_ok st"
  shows "json_ok (stream_state_value st)"
proof -
  have "json_ok (JNum (Fin (of_nat (ss_version st))))" using assms by (simp add: persist_ok_def SESSION_STREAM_SCHEMA_VERSION_def)
  moreover have "list_all json_ok (map stream_event_value (ss_events st))"
    using assms json_ok_entry by (auto simp: persist_ok_def list_all_iff)
  ultimately show ?thesis
    using assms json_ok_time by (simp add: stream_state_value_def persist_ok_def del: json_ok.simps(1))
qed

lemma clean_entry:
  "json_clean (stream_event_value e) =
     JObj ((case pe_id e of Some i \<Rightarrow> [(''id'', JStr i)] | None \<Rightarrow> []) @ [(''event'', JStr (pe_event e)), (''data'', JStr (pe_data e)),
           (''receivedAtMs'', JNum (Fin (pe_receivedAtMs e)))])"
proof -
  have "js_entries [(''id'', a), (''event'', b), (''data'', c), (''receivedAtMs'', d)] = [(''id'', a), (''event'', b), (''data'', c), (''receivedAtMs'', d)]"
    for a b c d :: jsval by (rule js_entries_plain) (auto simp: array_index_letter js_digit_def)
  then show ?thesis by (simp add: stream_event_value_def split: option.split)
qed

lemma read_clean_entry: "entry_ok e \<Longrightarrow> read_stream_event now (json_clean (stream_event_value e)) = e"
  by (cases "pe_id e")
    (auto simp: clean_entry read_stream_event_def safeObject_def isUnknownRecord_def trimmed_or_def finite_of_def entry_ok_def clock_ok_def js_trim_id)

lemma clean_time: "json_clean (num_or_null x) = num_or_null x" "finite_of (num_or_null x) = x"
  by (simp_all add: num_or_null_def finite_of_def split: option.split)

lemma clean_state:
  "json_clean (stream_state_value st) =
     JObj [(''version'', JNum (Fin (of_nat (ss_version st)))), (''lastEventId'', JStr (ss_lastEventId st)),
           (''lastEventAtMs'', num_or_null (ss_lastEventAtMs st)), (''updatedMs'', num_or_null (ss_updatedMs st)),
           (''events'', JArr (map (\<lambda>e. json_clean (stream_event_value e)) (ss_events st)))]"
proof -
  have "js_entries [(''version'', a), (''lastEventId'', b), (''lastEventAtMs'', c), (''updatedMs'', d), (''events'', e)] =
      [(''version'', a), (''lastEventId'', b), (''lastEventAtMs'', c), (''updatedMs'', d), (''events'', e)]"
    for a b c d e :: jsval by (rule js_entries_plain) (auto simp: array_index_letter js_digit_def)
  moreover have "num_or_null x \<noteq> JUndef" for x by (simp add: num_or_null_def split: option.split)
  ultimately show ?thesis by (simp add: stream_state_value_def clean_time comp_def)
qed

lemma read_written:
  assumes "persist_ok st" "key \<noteq> []" "stored = json_compact (stream_state_value st)"
  shows "readPersistedSessionStream now key stored = st"
proof -
  obtain t where t: "json_compact (stream_state_value st) = Some t" by (simp add: stream_state_value_def)
  then have p: "json_parse t = Some (json_clean (stream_state_value st))" by (rule json_roundtrip [OF json_ok_state [OF assms(1)]])
  then have s: "safeJsonParse t = json_clean (stream_state_value st)" by (simp add: safeJsonParse_def str_or_def)
  have "t \<noteq> []" using p by (auto simp: json_parse_def json_value.simps json_ws_def numeral_eq_Suc)
  moreover have "map (read_stream_event now) (filter (\<lambda>e. truthy e \<and> typeof_object e) (map (\<lambda>e. json_clean (stream_event_value e)) es)) = es"
    if "list_all entry_ok es" for es
    using that by (induction es) (auto simp: read_clean_entry, auto simp: clean_entry typeof_object_def)
  ultimately show ?thesis
    using assms by (simp add: readPersistedSessionStream_def t s safeObject_def isUnknownRecord_def clean_state clean_time persist_ok_def js_trim_id Let_def)
qed

section \<open>The buffer is a bounded log\<close>

definition as_event :: "PersistedSessionStreamEvent \<Rightarrow> SseEvent" where
  "as_event e = \<lparr>ev_event = pe_event e, ev_data = pe_data e, ev_id = pe_id e\<rparr>"

definition push_entries :: "PersistedSessionStreamState \<Rightarrow> PersistedSessionStreamEvent list \<Rightarrow> PersistedSessionStreamState" where
  "push_entries st es = foldl (\<lambda>st e. opt_or (appendSessionStreamEvent (pe_receivedAtMs e) st (as_event e)) st) st es"

definition fresh_entries :: "PersistedSessionStreamState \<Rightarrow> PersistedSessionStreamEvent list \<Rightarrow> bool" where
  "fresh_entries st es =
     (list_all entry_ok es \<and> distinct (map pe_id es) \<and> None \<notin> set (map pe_id es) \<and> set (map pe_id es) \<inter> set (map pe_id (ss_events st)) = {})"

lemma append_entry:
  assumes "fresh_entries st (e # es)"
  shows "\<exists>st'. appendSessionStreamEvent (pe_receivedAtMs e) st (as_event e) = Some st' \<and>
      ss_events st' = newest SESSION_STREAM_MAX_EVENTS (ss_events st @ [e]) \<and> fresh_entries st' es"
proof -
  obtain i where i: "pe_id e = Some i" "i \<noteq> []" "trimmed i" using assms by (cases "pe_id e") (auto simp: fresh_entries_def entry_ok_def)
  then have "stream_entry (pe_receivedAtMs e) (as_event e) = e"
    using assms by (auto simp: stream_entry_def as_event_def fresh_entries_def entry_ok_def js_trim_id str_or_def)
  moreover have "\<not> list_ex (\<lambda>x. pe_id x = Some i) (ss_events st)" using assms i(1) by (fastforce simp: fresh_entries_def list_ex_iff image_iff)
  ultimately have a: "\<exists>st'. appendSessionStreamEvent (pe_receivedAtMs e) st (as_event e) = Some st' \<and>
      ss_events st' = newest SESSION_STREAM_MAX_EVENTS (ss_events st @ [e])"
    using i by (simp add: appendSessionStreamEvent_def) (simp add: as_event_def js_trim_id)
  have "fresh_entries st' es" if "ss_events st' = newest SESSION_STREAM_MAX_EVENTS (ss_events st @ [e])" for st'
  proof -
    have "set (map pe_id (ss_events st')) \<subseteq> insert (pe_id e) (set (map pe_id (ss_events st)))"
      using that set_newest [of SESSION_STREAM_MAX_EVENTS "ss_events st @ [e]"] by auto
    moreover have "pe_id e \<notin> set (map pe_id es)" "set (map pe_id es) \<inter> set (map pe_id (ss_events st)) = {}"
      using assms by (simp_all add: fresh_entries_def)
    ultimately have "set (map pe_id es) \<inter> set (map pe_id (ss_events st')) = {}" by blast
    with assms show ?thesis by (simp add: fresh_entries_def)
  qed
  with a show ?thesis by blast
qed

lemma push_entries_log:
  "length (ss_events st) \<le> SESSION_STREAM_MAX_EVENTS \<Longrightarrow> fresh_entries st es \<Longrightarrow>
   ss_events (push_entries st es) = newest SESSION_STREAM_MAX_EVENTS (ss_events st @ es)"
proof (induction es arbitrary: st)
  case (Cons e es)
  obtain st' where "appendSessionStreamEvent (pe_receivedAtMs e) st (as_event e) = Some st'"
      "ss_events st' = newest SESSION_STREAM_MAX_EVENTS (ss_events st @ [e])" "fresh_entries st' es"
    using append_entry [OF Cons.prems(2)] by blast
  with Cons.IH [of st'] show ?case by (simp add: push_entries_def)
qed (simp add: push_entries_def)

interpretation session_log: bounded_log SESSION_STREAM_MAX_EVENTS ss_events push_entries fresh_entries
  by unfold_locales (rule push_entries_log)

section \<open>Exactly-once delivery across reconnections and reloads\<close>

text \<open>
  The session's events \<open>evs\<close> have distinct identifiers. A connection opened without a cursor starts anywhere; one opened with
  the identifier of an event resumes behind it (\<^verbatim>\<open>docs/BROKER.md\<close>: \<^verbatim>\<open>Last-Event-ID\<close> is preserved for replay and resume), or sends
  up to 200 events before that point again, none from before the first connection. The server's side is
  the index it sends next and the index of the first event of the first connection that delivered one.
\<close>

definition sid :: "SseEvent \<Rightarrow> string" where
  "sid e = js_trim (opt_or (ev_id e) [])"

definition stream_log :: "SseEvent list \<Rightarrow> bool" where
  "stream_log evs =
     (distinct (map sid evs) \<and> list_all (\<lambda>e. sid e \<noteq> [] \<and> trimmed (ev_event e)) evs)"

definition resume :: "SseEvent list \<Rightarrow> string \<Rightarrow> nat \<Rightarrow> nat \<Rightarrow> nat \<Rightarrow> bool" where
  "resume evs cursor f j f' =
     (if cursor = [] then f' = j \<and> j \<le> length evs
      else f' = f \<and> (\<exists>m<length evs. cursor = sid (evs ! m) \<and> max f (Suc m - SESSION_STREAM_MAX_EVENTS) \<le> j \<and> j \<le> Suc m))"

definition silent :: "session_action \<Rightarrow> bool" where
  "silent a = (case a of Event _ _ _ \<Rightarrow> False | Response None \<Rightarrow> False | _ \<Rightarrow> True)"

inductive session_runs :: "SseEvent list \<Rightarrow> string \<Rightarrow> session_view \<times> session_loop \<Rightarrow> nat \<times> nat \<Rightarrow> bool"
  for evs key where
  fresh: "sv_persisted v = EMPTY_PERSISTED_STATE \<Longrightarrow> sv_stored v = None \<Longrightarrow> session_runs evs key (v, start_loop) (0, 0)"
| reload: "session_runs evs key (v, l) d \<Longrightarrow> session_runs evs key (rehydrate now True False key v, start_loop) d"
| silent_step: "session_runs evs key (v, l) d \<Longrightarrow> loop_enabled l a \<Longrightarrow> silent a \<Longrightarrow> session_runs evs key (loop_step key a (v, l)) d"
| connected: "session_runs evs key (v, l) (i, f) \<Longrightarrow> sl_phase l = LoopFetch cursor \<Longrightarrow> resume evs cursor f j f' \<Longrightarrow>
    session_runs evs key (loop_step key (Response None) (v, l)) (j, f')"
| delivered: "session_runs evs key (v, l) (i, f) \<Longrightarrow> sl_phase l = LoopBody \<Longrightarrow> \<not> sl_cancelled l \<Longrightarrow> i < length evs \<Longrightarrow> clock_ok now \<Longrightarrow>
    session_runs evs key (loop_step key (Event now full (evs ! i)) (v, l)) (Suc i, f)"
| ignored: "session_runs evs key (v, l) d \<Longrightarrow> sl_cancelled l \<Longrightarrow> session_runs evs key (loop_step key (Event now full e) (v, l)) d"

definition entry_core :: "PersistedSessionStreamEvent \<Rightarrow> string \<times> string \<times> string" where
  "entry_core e = (opt_or (pe_id e) [], pe_event e, pe_data e)"

definition event_core :: "SseEvent \<Rightarrow> string \<times> string \<times> string" where
  "event_core e = (sid e, str_or (ev_event e) ''message'', ev_data e)"

definition buffers :: "SseEvent list \<Rightarrow> nat \<Rightarrow> nat \<Rightarrow> PersistedSessionStreamState \<Rightarrow> bool" where
  "buffers evs f c st =
     (f \<le> c \<and> c \<le> length evs \<and> persist_ok st \<and>
      map entry_core (ss_events st) = map event_core (newest SESSION_STREAM_MAX_EVENTS (drop f (take c evs))) \<and>
      ss_lastEventId st = (if f = c then [] else sid (evs ! (c - 1))))"

lemma buffers_empty: "f \<le> length evs \<Longrightarrow> buffers evs f f EMPTY_PERSISTED_STATE"
  by (simp add: buffers_def EMPTY_PERSISTED_STATE_def persist_ok_def time_ok_def trimmed_def)

lemma newest_map: "newest n (map f xs) = map f (newest n xs)"
  by (simp add: newest_def drop_map)

lemma str_or_message: "trimmed s \<Longrightarrow> str_or s ''message'' \<noteq> [] \<and> trimmed (str_or s ''message'')"
  by (auto simp: str_or_def trimmed_def is_ws_def)

lemma trimmed_sid: "trimmed (sid e)"
  by (simp add: sid_def trimmed_js_trim)

lemma stream_entry_ok: "stream_log evs \<Longrightarrow> e \<in> set evs \<Longrightarrow> clock_ok now \<Longrightarrow>
    entry_ok (stream_entry now e) \<and> entry_core (stream_entry now e) = event_core e \<and> pe_id (stream_entry now e) = Some (sid e)"
  using str_or_message [of "ev_event e"] trimmed_sid [of e]
  by (auto simp: stream_log_def list_all_iff stream_entry_def entry_ok_def entry_core_def event_core_def sid_def Let_def)

lemma set_segment: "c \<le> length xs \<Longrightarrow> set (drop k (take c xs)) = {xs ! j |j. k \<le> j \<and> j < c}"
proof (intro set_eqI iffI)
  fix x assume c: "c \<le> length xs" and "x \<in> {xs ! j |j. k \<le> j \<and> j < c}"
  then obtain j where "x = xs ! j" "k \<le> j" "j < c" by blast
  with c have "drop k (take c xs) ! (j - k) = x" "j - k < length (drop k (take c xs))" by simp_all
  then show "x \<in> set (drop k (take c xs))" using nth_mem by blast
next
  fix x assume c: "c \<le> length xs" and "x \<in> set (drop k (take c xs))"
  then obtain i where "i < c - k" "x = xs ! (k + i)" by (auto simp: in_set_conv_nth)
  then show "x \<in> {xs ! j |j. k \<le> j \<and> j < c}" by (intro CollectI exI [of _ "k + i"]) auto
qed

text \<open>An event is recognised exactly when it is in the buffer.\<close>

lemma buffers_known:
  assumes "buffers evs f c st" "stream_log evs" "i < length evs"
  shows "list_ex (\<lambda>e. pe_id e = Some (sid (evs ! i))) (ss_events st) \<longleftrightarrow> max f (c - SESSION_STREAM_MAX_EVENTS) \<le> i \<and> i < c"
proof -
  let ?k = "max f (c - SESSION_STREAM_MAX_EVENTS)"
  have n: "newest SESSION_STREAM_MAX_EVENTS (drop f (take c evs)) = drop ?k (take c evs)"
  proof -
    have "c - f - SESSION_STREAM_MAX_EVENTS + f = ?k" using assms(1) by (auto simp: buffers_def)
    then show ?thesis using assms(1) by (simp add: newest_def buffers_def)
  qed
  have ne: "sid (evs ! i) \<noteq> []" using assms(2,3) by (auto simp: stream_log_def list_all_length)
  have "list_ex (\<lambda>e. pe_id e = Some (sid (evs ! i))) (ss_events st) \<longleftrightarrow> sid (evs ! i) \<in> fst ` set (map entry_core (ss_events st))"
  proof -
    have "pe_id e = Some (sid (evs ! i)) \<longleftrightarrow> sid (evs ! i) = opt_or (pe_id e) []" for e
      using ne by (cases "pe_id e") auto
    then show ?thesis by (auto simp: list_ex_iff entry_core_def image_image)
  qed
  also have "\<dots> \<longleftrightarrow> sid (evs ! i) \<in> sid ` set (drop ?k (take c evs))"
    using assms(1) by (simp add: buffers_def n image_image event_core_def)
  also have "\<dots> \<longleftrightarrow> (\<exists>j. ?k \<le> j \<and> j < c \<and> sid (evs ! i) = sid (evs ! j))"
    using assms(1) by (auto simp: buffers_def set_segment image_iff)
  also have "\<dots> \<longleftrightarrow> ?k \<le> i \<and> i < c"
    using assms nth_eq_iff_index_eq [of "map sid evs"] by (auto simp: stream_log_def buffers_def)
  finally show ?thesis .
qed

lemma append_known:
  assumes "buffers evs f c st" "stream_log evs" "max f (c - SESSION_STREAM_MAX_EVENTS) \<le> i" "i < c"
  shows "appendSessionStreamEvent now st (evs ! i) = None"
proof -
  have i: "i < length evs" using assms(1,4) by (auto simp: buffers_def)
  then have "sid (evs ! i) \<noteq> []" using assms(2) by (simp add: stream_log_def list_all_length)
  then show ?thesis using buffers_known [OF assms(1,2) i] assms(3,4) by (simp add: appendSessionStreamEvent_def sid_def [symmetric])
qed

lemma append_new:
  assumes "buffers evs f c st" "stream_log evs" "c < length evs" "clock_ok now"
  shows "\<exists>st'. appendSessionStreamEvent now st (evs ! c) = Some st' \<and> buffers evs f (Suc c) st'"
proof -
  have e: "entry_ok (stream_entry now (evs ! c))" "entry_core (stream_entry now (evs ! c)) = event_core (evs ! c)"
    using stream_entry_ok [OF assms(2) _ assms(4)] assms(3) by auto
  have ne: "sid (evs ! c) \<noteq> []" using assms(2,3) by (simp add: stream_log_def list_all_length)
  let ?es = "newest SESSION_STREAM_MAX_EVENTS (ss_events st @ [stream_entry now (evs ! c)])"
  have "map entry_core ?es = newest SESSION_STREAM_MAX_EVENTS (map entry_core (ss_events st) @ [event_core (evs ! c)])"
    by (simp add: newest_map [symmetric] e(2))
  also have "\<dots> = newest SESSION_STREAM_MAX_EVENTS (map event_core (drop f (take c evs) @ [evs ! c]))"
    using assms(1) by (simp add: buffers_def newest_map [symmetric])
  also have "drop f (take c evs) @ [evs ! c] = drop f (take (Suc c) evs)"
    using assms(1,3) by (simp add: buffers_def take_Suc_conv_app_nth)
  finally have "map entry_core ?es = map event_core (newest SESSION_STREAM_MAX_EVENTS (drop f (take (Suc c) evs)))" by (simp only: newest_map)
  moreover have "list_all entry_ok ?es"
    using assms(1) e(1) set_newest [of SESSION_STREAM_MAX_EVENTS "ss_events st @ [stream_entry now (evs ! c)]"]
    by (auto simp: buffers_def persist_ok_def list_all_iff)
  ultimately show ?thesis
    using assms ne buffers_known [OF assms(1,2,3)] trimmed_sid [of "evs ! c"]
    by (auto simp: appendSessionStreamEvent_def sid_def [symmetric] buffers_def persist_ok_def time_ok_def str_or_def)
qed

text \<open>The invariant: the buffer, the stored copy (none, or that of an earlier point) and the position of the server.\<close>

definition stored_ok :: "SseEvent list \<Rightarrow> nat \<Rightarrow> nat \<Rightarrow> string option \<Rightarrow> bool" where
  "stored_ok evs f c stored =
     (stored = None \<or> f < c \<and> (\<exists>c' st. f < c' \<and> buffers evs f c' st \<and> stored = json_compact (stream_state_value st)))"

definition phase_ok :: "nat \<Rightarrow> nat \<Rightarrow> nat \<Rightarrow> session_view \<Rightarrow> session_loop \<Rightarrow> bool" where
  "phase_ok i f c v l =
     ((\<forall>cursor. sl_phase l = LoopFetch cursor \<longrightarrow> cursor = ss_lastEventId (sv_persisted v)) \<and>
      (sl_phase l = LoopBody \<longrightarrow> max f (c - SESSION_STREAM_MAX_EVENTS) \<le> i \<and> i \<le> c \<or> sl_cancelled l))"

definition session_inv :: "SseEvent list \<Rightarrow> session_view \<times> session_loop \<Rightarrow> nat \<times> nat \<Rightarrow> bool" where
  "session_inv evs s d = (case s of (v, l) \<Rightarrow> case d of (i, f) \<Rightarrow>
     \<exists>c. buffers evs f c (sv_persisted v) \<and> stored_ok evs f c (sv_stored v) \<and> phase_ok i f c v l)"

lemma sessionI:
  "buffers evs f c (sv_persisted v) \<Longrightarrow> stored_ok evs f c (sv_stored v) \<Longrightarrow> phase_ok i f c v l \<Longrightarrow> session_inv evs (v, l) (i, f)"
  by (auto simp: session_inv_def)

lemma rehydrate_inv:
  assumes "session_inv evs (v, l) d" "key \<noteq> []"
  shows "session_inv evs (rehydrate now True False key v, start_loop) d"
proof -
  obtain i f c where d: "d = (i, f)" and c: "buffers evs f c (sv_persisted v)" "stored_ok evs f c (sv_stored v)"
    using assms(1) by (cases d) (auto simp: session_inv_def)
  have fl: "f \<le> length evs" using c(1) by (auto simp: buffers_def)
  have "\<exists>c'. buffers evs f c' (readPersistedSessionStream now key (sv_stored v)) \<and> stored_ok evs f c' (sv_stored v)"
  proof (cases "sv_stored v")
    case None
    then show ?thesis using buffers_empty [OF fl] by (auto simp: readPersistedSessionStream_def stored_ok_def)
  next
    case (Some t)
    then obtain c' st where s: "f < c'" "buffers evs f c' st" "sv_stored v = json_compact (stream_state_value st)"
      using c(2) by (auto simp: stored_ok_def)
    then have "readPersistedSessionStream now key (sv_stored v) = st"
      using assms(2) by (intro read_written) (auto simp: buffers_def)
    with s show ?thesis by (auto simp: stored_ok_def)
  qed
  then show ?thesis
    using assms(2) by (auto simp: session_inv_def d rehydrate_def show_persisted_def phase_ok_def start_loop_def Let_def)
qed

lemma silent_inv:
  assumes "session_inv evs (v, l) d" "silent a"
  shows "session_inv evs (loop_step key a (v, l)) d"
proof -
  have f: "session_inv evs (failed_attempt e (v, l)) d" for e
    using assms(1) by (auto simp: session_inv_def failed_attempt_def pause_def phase_ok_def case_prod_beta)
  show ?thesis
  proof (cases a)
    case (Response s)
    with assms(2) obtain n where "s = Some n" by (cases s) (auto simp: silent_def)
    with Response f show ?thesis by simp
  qed (use assms f in \<open>auto simp: session_inv_def phase_ok_def silent_def pause_def case_prod_beta\<close>)
qed

lemma connected_inv:
  assumes "session_inv evs (v, l) (i, f)" "sl_phase l = LoopFetch cursor" "resume evs cursor f j f'" "stream_log evs"
  shows "session_inv evs (loop_step key (Response None) (v, l)) (j, f')"
proof -
  obtain c where c: "buffers evs f c (sv_persisted v)" "stored_ok evs f c (sv_stored v)" "cursor = ss_lastEventId (sv_persisted v)"
    using assms(1,2) by (auto simp: session_inv_def phase_ok_def)
  show ?thesis
  proof (cases "f = c")
    case True
    then have "cursor = []" "sv_stored v = None" using c by (auto simp: buffers_def stored_ok_def)
    with assms(3) have j: "f' = j" "j \<le> length evs" by (simp_all add: resume_def)
    then have "buffers evs j j (sv_persisted v)" using c(1) True by (simp add: buffers_def)
    with j \<open>sv_stored v = None\<close> show ?thesis by (auto simp: session_inv_def stored_ok_def phase_ok_def)
  next
    case False
    then have k: "f < c" "cursor = sid (evs ! (c - 1))" "c \<le> length evs" using c by (auto simp: buffers_def)
    moreover have "sid (evs ! (c - 1)) \<noteq> []" using assms(4) k by (auto simp: stream_log_def list_all_length)
    ultimately obtain m where m: "f' = f" "m < length evs" "sid (evs ! (c - 1)) = sid (evs ! m)"
        "max f (Suc m - SESSION_STREAM_MAX_EVENTS) \<le> j" "j \<le> Suc m"
      using assms(3) by (auto simp: resume_def)
    have "m = c - 1" using m(2,3) k assms(4) nth_eq_iff_index_eq [of "map sid evs" "c - 1" m] by (simp add: stream_log_def)
    with m k have "max f (c - SESSION_STREAM_MAX_EVENTS) \<le> j" "j \<le> c" by simp_all
    with c m(1) show ?thesis by (auto simp: session_inv_def phase_ok_def)
  qed
qed

lemma delivered_inv:
  assumes "session_inv evs (v, l) (i, f)" "sl_phase l = LoopBody" "\<not> sl_cancelled l" "i < length evs" "clock_ok now" "stream_log evs"
  shows "session_inv evs (loop_step key (Event now full (evs ! i)) (v, l)) (Suc i, f)"
proof -
  obtain c where c: "buffers evs f c (sv_persisted v)" "stored_ok evs f c (sv_stored v)" "max f (c - SESSION_STREAM_MAX_EVENTS) \<le> i" "i \<le> c"
    using assms(1-3) by (auto simp: session_inv_def phase_ok_def)
  show ?thesis
  proof (cases "i = c")
    case False
    then have "appendSessionStreamEvent now (sv_persisted v) (evs ! i) = None" using c assms(6) by (intro append_known) auto
    with c False assms(2,3) show ?thesis by (auto simp: session_inv_def on_event_def phase_ok_def)
  next
    case True
    then obtain st where st: "appendSessionStreamEvent now (sv_persisted v) (evs ! i) = Some st" "buffers evs f (Suc c) st"
      using append_new [OF c(1) assms(6) _ assms(5)] assms(4) by auto
    have "f < Suc c" using c(1) by (auto simp: buffers_def)
    then have "stored_ok evs f (Suc c) (writePersistedSessionStream full key st (sv_stored v))"
      using st(2) c(2) by (auto simp: writePersistedSessionStream_def stored_ok_def)
    moreover have "loop_step key (Event now full (evs ! i)) (v, l) = (on_event now full key (evs ! i) v, l)" using assms(3) by simp
    ultimately show ?thesis
      using st True assms(2) \<open>f < Suc c\<close> by (auto intro!: sessionI [of _ _ "Suc c"] simp: on_event_def show_persisted_def phase_ok_def)
  qed
qed

text \<open>
  C3. Whatever the connections, failures, replays, page reloads and failed writes to the storage, the buffer of a session holds exactly the
  newest 200 of the session's events from the first one delivered up to some point, each once and in order,
  and the cursor is the identifier of the last of them; so a connection resumes where
  the buffer ends, also after a reload.
\<close>

theorem session_stream_exactly_once:
  assumes "session_runs evs key (v, l) (i, f)" "stream_log evs" "key \<noteq> []"
  shows "\<exists>c. f \<le> c \<and> c \<le> length evs \<and>
      map entry_core (ss_events (sv_persisted v)) = map event_core (newest SESSION_STREAM_MAX_EVENTS (drop f (take c evs))) \<and>
      ss_lastEventId (sv_persisted v) = (if f = c then [] else sid (evs ! (c - 1)))"
proof -
  have "session_inv evs s d" if "session_runs evs key s d" for s d
    using that
  proof induction
    case (fresh v)
    then show ?case
      using buffers_empty [of 0 evs] by (auto simp: session_inv_def stored_ok_def phase_ok_def start_loop_def)
  next
    case (reload v l d now)
    then show ?case using assms(3) by (intro rehydrate_inv)
  next
    case (silent_step v l d a)
    then show ?case by (intro silent_inv)
  next
    case (connected v l i f cursor j f')
    then show ?case using assms(2) by (intro connected_inv)
  next
    case (delivered v l i f now full)
    then show ?case using assms(2) by (intro delivered_inv)
  next
    case (ignored v l d now full e)
    then show ?case by simp
  qed
  with assms(1) show ?thesis by (fastforce simp: session_inv_def buffers_def)
qed

text \<open>A session with one event.\<close>

definition demo_event :: SseEvent where
  "demo_event = \<lparr>ev_event = ''x'', ev_data = ''y'', ev_id = Some ''7''\<rparr>"

definition demo_session :: session_view where
  "demo_session = \<lparr>sv_status = Idle, sv_lastEventId = [], sv_lastEventAtMs = None, sv_updatedMs = None, sv_bufferedCount = 0, sv_error = None,
     sv_persisted = EMPTY_PERSISTED_STATE, sv_stored = None, sv_liveEvents = []\<rparr>"

lemma demo_event_log: "sid demo_event = ''7''" "stream_log [demo_event]"
proof -
  show s: "sid demo_event = ''7''" by (simp add: sid_def demo_event_def js_trim_eval)
  show "stream_log [demo_event]" by (simp add: stream_log_def s) (simp add: demo_event_def trimmed_def is_ws_def)
qed

lemma demo_session_run:
  "\<exists>v l. session_runs [demo_event] ''k'' (v, l) (1, 0) \<and> ss_events (sv_persisted v) \<noteq> []"
proof -
  let ?runs = "session_runs [demo_event] ''k''"
  have "?runs (demo_session, start_loop) (0, 0)" by (rule session_runs.fresh) (simp_all add: demo_session_def)
  then have "?runs (loop_step ''k'' Turn (demo_session, start_loop)) (0, 0)"
    by (rule session_runs.silent_step) (simp_all add: start_loop_def silent_def)
  then obtain v1 l1 where 1: "?runs (v1, l1) (0, 0)" "sl_phase l1 = LoopFetch []" "\<not> sl_cancelled l1" "sv_persisted v1 = EMPTY_PERSISTED_STATE"
    by (simp add: start_loop_def demo_session_def EMPTY_PERSISTED_STATE_def)
  have "?runs (loop_step ''k'' (Response None) (v1, l1)) (0, 0)"
    using 1(1,2) by (rule session_runs.connected) (simp add: resume_def)
  then have "?runs (v1\<lparr>sv_error := None, sv_status := Live\<rparr>, l1\<lparr>sl_phase := LoopBody\<rparr>) (0, 0)" by simp
  then have "?runs (loop_step ''k'' (Event 1 False ([demo_event] ! 0)) (v1\<lparr>sv_error := None, sv_status := Live\<rparr>, l1\<lparr>sl_phase := LoopBody\<rparr>)) (Suc 0, 0)"
    by (rule session_runs.delivered) (simp_all add: 1 clock_ok_def)
  moreover have "ss_events (sv_persisted (on_event 1 False ''k'' demo_event (v1\<lparr>sv_error := None, sv_status := Live\<rparr>))) \<noteq> []"
    using 1(4) by (simp add: on_event_def appendSessionStreamEvent_def EMPTY_PERSISTED_STATE_def show_persisted_def newest_def
        SESSION_STREAM_MAX_EVENTS_def Let_def)
  ultimately show ?thesis using 1(3) by simp blast
qed

theorem session_stream_exactly_once_witness:
  "\<exists>v :: session_view. ss_events (sv_persisted v) \<noteq> [] \<and> ss_lastEventId (sv_persisted v) = ''7''"
proof -
  obtain v l where r: "session_runs [demo_event] ''k'' (v, l) (1, 0)" "ss_events (sv_persisted v) \<noteq> []"
    using demo_session_run by blast
  then obtain c where c: "c \<le> 1" "map entry_core (ss_events (sv_persisted v)) = map event_core (newest SESSION_STREAM_MAX_EVENTS (drop 0 (take c [demo_event])))"
      "ss_lastEventId (sv_persisted v) = (if 0 = c then [] else sid ([demo_event] ! (c - 1)))"
    using session_stream_exactly_once [OF r(1) demo_event_log(2)] by auto
  have "c \<noteq> 0"
  proof
    assume "c = 0"
    then show False using c(2) r(2) by simp
  qed
  with c(1) have "c = 1" by simp
  then show ?thesis using r(2) c(3) demo_event_log(1) by auto
qed

end
