(* ===== verification/Job_Stream.thy ===== *)
theory Job_Stream
  imports Sse Live_Log Job_Store
begin

text \<open>
  \<^verbatim>\<open>src/ui/src/hooks/useJobStreaming.ts\<close>: the effect that follows the active job. It opens an
  event stream (an \<^verbatim>\<open>EventSource\<close>, or \<^verbatim>\<open>fetch\<close> with the reader of theory \<open>Sse\<close>), falls back to
  polling when the stream fails or ends early, and runs a watchdog beside both. The effect is a
  state machine: \<open>stream_state\<close> holds its local variables, \<open>job_view\<close> the React state and the
  references it writes, and one action stands for one callback, one answer or one turn of the
  polling loop. The schemas of \<^verbatim>\<open>api/schemas/run.ts\<close> are run by a library: \<open>se_eventSchema\<close> and
  \<open>se_runSchema\<close> stand for their \<^verbatim>\<open>safeParse\<close>.
\<close>

section \<open>State\<close>

record stream_env =
  se_connectionMode :: string
  se_daemonAuthToken :: "string option"
  se_effectiveSseBase :: string
  se_sessionId :: "string option"
  se_jobStoreKey :: string
  se_hasEventSource :: bool
  se_hasFetch :: bool
  se_eventSchema :: "jsval \<Rightarrow> jsval option"
  se_runSchema :: "jsval \<Rightarrow> jsval option"

record job_view =
  jv_activeJobId :: "string option"
  jv_jobStatus :: "string option"
  jv_jobError :: "string option"
  jv_jobNotice :: "string option"
  jv_jobUpdatedMs :: "jsnum option"
  jv_liveEvents :: "jsval list"
  jv_result :: "jsval option"
  jv_lastCompletedPrompt :: string
  jv_lastRunPrompt :: string
  jv_jobs :: run_watch_map
  jv_cursor :: jsnum
  jv_refetches :: nat

record JobResp =
  jr_ok :: bool
  jr_status :: "string option"
  jr_error :: "string option"
  jr_err :: "string option"
  jr_code :: "string option"
  jr_updated_unix_ms :: "jsnum option"
  jr_events :: "jsval list option"
  jr_events_cursor_next :: "jsnum option"
  jr_events_reset :: bool
  jr_result :: "jsval option"

text \<open>
  The polling loop is not started, about to send a request (at its start or after a pause), waiting for the
  answer to a request for the events from a cursor on, or over.
\<close>

datatype poll_phase = PollIdle | PollReady | is_waiting: PollWaiting (requested: jsnum) | PollOver

record stream_state =
  st_cancelled :: bool
  st_fallbackStarted :: bool
  st_fetchFinished :: bool
  st_es :: bool
  st_fetch :: bool
  st_poll :: poll_phase
  st_watchdogs :: nat

section \<open>Payloads\<close>

definition parseCursorBase :: "string \<Rightarrow> jsnum option" where
  "parseCursorBase raw = as_num (obj_get (safeObject (safeJsonParse raw)) ''cursor_base'')"

definition parseStreamAgentEvent :: "stream_env \<Rightarrow> string \<Rightarrow> jsval option" where
  "parseStreamAgentEvent env raw = se_eventSchema env (safeJsonParse raw)"

record JobDonePayload =
  jd_status :: string
  jd_error :: "string option"
  jd_result :: "jsval option"

definition failed_status :: "string \<Rightarrow> bool" where
  "failed_status s = (s = ''error'' \<or> s = ''interrupted'')"

definition parseJobDonePayload :: "stream_env \<Rightarrow> string \<Rightarrow> JobDonePayload" where
  "parseJobDonePayload env raw =
     (let data = safeObject (safeJsonParse raw);
          status = opt_or (as_str (obj_get data ''status'')) ''done''
      in \<lparr>jd_status = status,
          jd_error = (if failed_status status then as_str (obj_get data ''error'') else None),
          jd_result = se_runSchema env (obj_get data ''result'')\<rparr>)"

text \<open>\<^verbatim>\<open>String(evt.data || "{}")\<close> on a text.\<close>

definition data_text :: "string \<Rightarrow> string" where
  "data_text d = str_or d ''{}''"

section \<open>Completion\<close>

definition terminal_status :: "string option \<Rightarrow> bool" where
  "terminal_status s = (s \<in> Some ` {''done'', ''error'', ''cancelled'', ''interrupted''})"

definition not_found :: "JobResp \<Rightarrow> bool" where
  "not_found job =
     (js_includes (js_lower (opt_or (jr_code job) [])) ''not_found'' \<or>
      js_includes (js_lower (opt_or (opt_orelse (jr_error job) (jr_err job)) [])) ''not found'')"

text \<open>The end of every completion path: no active job, its entry dropped from the table, both refetches.\<close>

definition finish_job :: "stream_env \<Rightarrow> job_view \<Rightarrow> job_view" where
  "finish_job env v =
     (let v1 = v\<lparr>jv_activeJobId := None\<rparr>;
          sid = js_trim (opt_or (se_sessionId env) []);
          v2 = (if sid \<noteq> [] then v1\<lparr>jv_jobs := obj_del (jv_jobs v1) (se_jobStoreKey env)\<rparr> else v1)
      in v2\<lparr>jv_refetches := jv_refetches v2 + 2\<rparr>)"

definition show_result :: "jsval \<Rightarrow> job_view \<Rightarrow> job_view" where
  "show_result r v = v\<lparr>jv_result := Some r, jv_lastCompletedPrompt := jv_lastRunPrompt v\<rparr>"

definition job_error_text :: "JobResp \<Rightarrow> string option" where
  "job_error_text job = (case jr_status job of Some s \<Rightarrow> if failed_status s then jr_error job else None | None \<Rightarrow> None)"

section \<open>Polling\<close>

definition next_cursor :: "JobResp \<Rightarrow> jsnum \<Rightarrow> jsnum" where
  "next_cursor job cur =
     (case jr_events_cursor_next job of
        Some n \<Rightarrow> n
      | None \<Rightarrow> (case cur of Fin r \<Rightarrow> Fin (r + of_nat (length (opt_or (jr_events job) []))) | _ \<Rightarrow> cur))"

definition poll_events :: "JobResp \<Rightarrow> job_view \<Rightarrow> job_view" where
  "poll_events job v =
     (let ev = opt_or (jr_events job) [] in
      if ev = [] then v
      else v\<lparr>jv_liveEvents := (if jr_events_reset job then capLiveEvents ev else appendLiveEvents (jv_liveEvents v) ev),
             jv_cursor := next_cursor job (jv_cursor v)\<rparr>)"

definition poll_complete :: "stream_env \<Rightarrow> JobResp \<Rightarrow> job_view \<Rightarrow> job_view" where
  "poll_complete env job v =
     (let v1 = (case jr_result job of Some r \<Rightarrow> show_result r v | None \<Rightarrow> v\<lparr>jv_jobError := Some ''job completed but missing result''\<rparr>)
      in finish_job env (v1\<lparr>jv_jobNotice := None\<rparr>))"

text \<open>One turn of the loop after the answer; the flag says whether the loop goes on.\<close>

definition poll_answer :: "stream_env \<Rightarrow> JobResp \<Rightarrow> job_view \<Rightarrow> job_view \<times> bool" where
  "poll_answer env job v =
     (if \<not> jr_ok job then
        (if not_found job then (finish_job env (v\<lparr>jv_jobNotice := Some ''job not found (clearing)''\<rparr>), False)
         else (v\<lparr>jv_jobNotice := Some (''job fetch failed (retrying): ''
                   @ opt_or (opt_orelse (jr_error job) (opt_orelse (jr_err job) (jr_code job))) ''unknown'')\<rparr>, True))
      else
        let v1 = poll_events job (v\<lparr>jv_jobStatus := jr_status job, jv_jobError := job_error_text job,
                                   jv_jobNotice := None, jv_jobUpdatedMs := jr_updated_unix_ms job\<rparr>)
        in if terminal_status (jr_status job) then (poll_complete env job v1, False) else (v1, True))"

section \<open>Watchdog\<close>

definition watchdog_answer :: "stream_env \<Rightarrow> JobResp \<Rightarrow> job_view \<Rightarrow> job_view" where
  "watchdog_answer env job v =
     (if \<not> jr_ok job then
        (if not_found job then finish_job env (v\<lparr>jv_jobNotice := Some ''job not found (clearing)''\<rparr>) else v)
      else if terminal_status (jr_status job) then
        finish_job env
          (case jr_result job of
             Some r \<Rightarrow> (show_result r v)\<lparr>jv_jobStatus := jr_status job, jv_jobError := job_error_text job, jv_jobNotice := None\<rparr>
           | None \<Rightarrow> v\<lparr>jv_jobError := Some ''job completed but missing result'', jv_jobNotice := None\<rparr>)
      else v)"

section \<open>Streams\<close>

definition stream_reset :: "string \<Rightarrow> job_view \<Rightarrow> job_view" where
  "stream_reset data v =
     (let v1 = (case parseCursorBase (data_text data) of Some c \<Rightarrow> v\<lparr>jv_cursor := c\<rparr> | None \<Rightarrow> v)
      in v1\<lparr>jv_liveEvents := []\<rparr>)"

definition move_cursor :: "string \<Rightarrow> job_view \<Rightarrow> job_view" where
  "move_cursor eid v =
     (if eid = [] then v else case js_Number_str eid of Fin n \<Rightarrow> v\<lparr>jv_cursor := Fin (n + 1)\<rparr> | _ \<Rightarrow> v)"

definition stream_agent_event :: "stream_env \<Rightarrow> string \<Rightarrow> job_view \<Rightarrow> job_view" where
  "stream_agent_event env data v =
     (case parseStreamAgentEvent env (data_text data) of
        Some ev \<Rightarrow> v\<lparr>jv_liveEvents := appendLiveEvents (jv_liveEvents v) [ev]\<rparr>
      | None \<Rightarrow> v)"

definition stream_job_done :: "stream_env \<Rightarrow> string \<Rightarrow> job_view \<Rightarrow> job_view" where
  "stream_job_done env data v =
     (let d = parseJobDonePayload env (data_text data);
          v1 = v\<lparr>jv_jobStatus := Some (jd_status d), jv_jobError := jd_error d, jv_jobNotice := None\<rparr>
      in finish_job env (case jd_result d of Some r \<Rightarrow> show_result r v1 | None \<Rightarrow> v1))"

text \<open>The callback of \<^verbatim>\<open>readSseStream\<close>, for an effect that is not cancelled; the flag is the new \<^verbatim>\<open>fetchFinished\<close>.\<close>

definition fetch_event :: "stream_env \<Rightarrow> SseEvent \<Rightarrow> job_view \<Rightarrow> bool \<Rightarrow> job_view \<times> bool" where
  "fetch_event env evt v finished =
     (let v1 = move_cursor (opt_or (ev_id evt) []) v in
      if ev_event evt = ''reset'' then (stream_reset (ev_data evt) v1, finished)
      else if ev_event evt = ''agent_event'' then (stream_agent_event env (ev_data evt) v1, finished)
      else if ev_event evt = ''job_done'' then (stream_job_done env (ev_data evt) v1, True)
      else (v1, finished))"

section \<open>The effect\<close>

definition http_base :: "string \<Rightarrow> bool" where
  "http_base b = (js_starts_with b ''http://'' \<or> js_starts_with b ''https://'')"

definition canUseEventSource :: "stream_env \<Rightarrow> bool" where
  "canUseEventSource env =
     (se_hasEventSource env \<and> se_connectionMode env = ''direct'' \<and>
      js_trim (opt_or (se_daemonAuthToken env) []) = [] \<and> http_base (se_effectiveSseBase env))"

definition canUseFetchSse :: "stream_env \<Rightarrow> bool" where
  "canUseFetchSse env = (se_hasFetch env \<and> http_base (se_effectiveSseBase env))"

definition fallbackToPolling :: "stream_state \<Rightarrow> stream_state" where
  "fallbackToPolling st = (if st_fallbackStarted st then st else st\<lparr>st_fallbackStarted := True, st_poll := PollReady\<rparr>)"

definition stream_view :: "job_view \<Rightarrow> job_view" where
  "stream_view v = v\<lparr>jv_jobStatus := Some ''running'', jv_jobUpdatedMs := None\<rparr>"

text \<open>The effect's body for an active job; \<open>es_throws\<close> says whether \<^verbatim>\<open>new EventSource(url)\<close> throws.\<close>

definition start_stream :: "stream_env \<Rightarrow> bool \<Rightarrow> job_view \<Rightarrow> job_view \<times> stream_state" where
  "start_stream env es_throws v =
     (let st = \<lparr>st_cancelled = False, st_fallbackStarted = False, st_fetchFinished = False, st_es = False, st_fetch = False,
                st_poll = PollIdle, st_watchdogs = 0\<rparr>
      in if canUseEventSource env
         then (if es_throws then (v, fallbackToPolling st) else (stream_view v, st\<lparr>st_es := True\<rparr>))
         else if canUseFetchSse env then (stream_view v, st\<lparr>st_fetch := True\<rparr>)
         else (v, fallbackToPolling st))"

datatype stream_action =
    EsReset string
  | EsAgentEvent string string
  | EsJobDone string
  | EsError
  | FetchEvent SseEvent
  | FetchEnd
  | FetchFailed string
  | PollSend
  | PollFailed string
  | PollAnswer JobResp
  | WatchdogSend
  | WatchdogFailed
  | WatchdogAnswer JobResp
  | Cleanup

text \<open>When an action can happen: its stream is open, its request is under way, the interval is not cleared.\<close>

fun enabled :: "stream_state \<Rightarrow> stream_action \<Rightarrow> bool" where
  "enabled st (EsReset d) = st_es st"
| "enabled st (EsAgentEvent d i) = st_es st"
| "enabled st (EsJobDone d) = st_es st"
| "enabled st EsError = st_es st"
| "enabled st (FetchEvent e) = st_fetch st"
| "enabled st FetchEnd = st_fetch st"
| "enabled st (FetchFailed e) = st_fetch st"
| "enabled st PollSend = (st_poll st = PollReady)"
| "enabled st (PollFailed e) = is_waiting (st_poll st)"
| "enabled st (PollAnswer j) = is_waiting (st_poll st)"
| "enabled st WatchdogSend = (\<not> st_cancelled st)"
| "enabled st WatchdogFailed = (0 < st_watchdogs st)"
| "enabled st (WatchdogAnswer j) = (0 < st_watchdogs st)"
| "enabled st Cleanup = (\<not> st_cancelled st)"

text \<open>What each callback does, with the tests of \<^verbatim>\<open>cancelled\<close> where the code has them.\<close>

fun handle :: "stream_env \<Rightarrow> stream_action \<Rightarrow> job_view \<times> stream_state \<Rightarrow> job_view \<times> stream_state" where
  "handle env (EsReset d) (v, st) = (if st_cancelled st then (v, st) else (stream_reset d v, st))"
| "handle env (EsAgentEvent d i) (v, st) =
     (if st_cancelled st then (v, st) else (stream_agent_event env d (move_cursor i v), st))"
| "handle env (EsJobDone d) (v, st) = (if st_cancelled st then (v, st) else (stream_job_done env d v, st\<lparr>st_es := False\<rparr>))"
| "handle env EsError (v, st) =
     (if st_cancelled st then (v, st)
      else (v\<lparr>jv_jobNotice := Some ''job stream dropped (retrying via polling)''\<rparr>, fallbackToPolling (st\<lparr>st_es := False\<rparr>)))"
| "handle env (FetchEvent e) (v, st) =
     (if st_cancelled st then (v, st)
      else let (v', fin) = fetch_event env e v (st_fetchFinished st) in (v', st\<lparr>st_fetchFinished := fin\<rparr>))"
| "handle env FetchEnd (v, st) =
     (let st' = st\<lparr>st_fetch := False\<rparr> in if \<not> st_cancelled st \<and> \<not> st_fetchFinished st then (v, fallbackToPolling st') else (v, st'))"
| "handle env (FetchFailed e) (v, st) =
     (let st' = st\<lparr>st_fetch := False\<rparr> in
      if st_cancelled st \<or> st_fetchFinished st then (v, st')
      else (v\<lparr>jv_jobNotice := Some (''job stream dropped (retrying via polling): '' @ e)\<rparr>, fallbackToPolling st'))"
| "handle env PollSend (v, st) =
     (if st_cancelled st then (v, st\<lparr>st_poll := PollOver\<rparr>) else (v, st\<lparr>st_poll := PollWaiting (jv_cursor v)\<rparr>))"
| "handle env (PollFailed e) (v, st) =
     (v\<lparr>jv_jobNotice := Some (''job fetch failed (retrying): '' @ e)\<rparr>, st\<lparr>st_poll := PollReady\<rparr>)"
| "handle env (PollAnswer job) (v, st) =
     (if st_cancelled st then (v, st\<lparr>st_poll := PollOver\<rparr>)
      else let (v', more) = poll_answer env job v in (v', st\<lparr>st_poll := (if more then PollReady else PollOver)\<rparr>))"
| "handle env WatchdogSend (v, st) = (v, st\<lparr>st_watchdogs := st_watchdogs st + 1\<rparr>)"
| "handle env WatchdogFailed (v, st) = (v, st\<lparr>st_watchdogs := st_watchdogs st - 1\<rparr>)"
| "handle env (WatchdogAnswer job) (v, st) = (watchdog_answer env job v, st\<lparr>st_watchdogs := st_watchdogs st - 1\<rparr>)"
| "handle env Cleanup (v, st) = (v, st\<lparr>st_cancelled := True, st_es := False\<rparr>)"

section \<open>Exactly-once delivery\<close>

text \<open>
  The daemon keeps the events of a job in a log that only grows (\<^verbatim>\<open>docs/AGENTD.md\<close>, asynchronous runs): \<open>evs\<close> is
  what it will ever hold, \<open>wire i\<close> the text of event \<open>i\<close>. A stream opened at a cursor sends the events from
  there on, each with its index as identifier; when the events at its cursor were discarded it
  first announces the new base. A request for the events from \<open>c\<close> on is answered with at most 256 of
  the events retained at that moment, from \<open>b\<close> up to \<open>e\<close>. The daemon's side is the position of the open
  stream and the index of the first event after the last reset.
\<close>

definition log_answer :: "jsval list \<Rightarrow> nat \<Rightarrow> nat \<Rightarrow> nat \<Rightarrow> JobResp \<Rightarrow> bool" where
  "log_answer evs b e c job =
     (let cur = min (max c b) e; n = min 256 (e - cur) in
      jr_events job = Some (take n (drop cur evs)) \<and> jr_events_cursor_next job = Some (Fin (of_nat (cur + n))) \<and>
      jr_events_reset job = (c < b))"

definition quiet :: "stream_action \<Rightarrow> bool" where
  "quiet a =
     (case a of
        EsAgentEvent _ _ \<Rightarrow> False
      | EsReset _ \<Rightarrow> False
      | FetchEvent e \<Rightarrow> ev_event e \<notin> {''reset'', ''agent_event''} \<and> ev_id e = None
      | PollAnswer job \<Rightarrow> \<not> jr_ok job \<or> opt_or (jr_events job) [] = []
      | _ \<Rightarrow> True)"

inductive daemon :: "jsval list \<Rightarrow> (nat \<Rightarrow> string) \<Rightarrow> poll_phase \<Rightarrow> stream_action \<Rightarrow> nat \<times> nat \<Rightarrow> nat \<times> nat \<Rightarrow> bool"
  for evs wire where
  es_event: "i < length evs \<Longrightarrow> daemon evs wire p (EsAgentEvent (wire i) (nat_str i)) (i, f) (Suc i, f)"
| fetch_event: "i < length evs \<Longrightarrow>
    daemon evs wire p (FetchEvent \<lparr>ev_event = ''agent_event'', ev_data = wire i, ev_id = Some (nat_str i)\<rparr>) (i, f) (Suc i, f)"
| es_reset: "i < b \<Longrightarrow> b \<le> length evs \<Longrightarrow> parseCursorBase (data_text d) = Some (Fin (of_nat b)) \<Longrightarrow>
    daemon evs wire p (EsReset d) (i, f) (b, b)"
| fetch_reset: "i < b \<Longrightarrow> b \<le> length evs \<Longrightarrow> parseCursorBase (data_text d) = Some (Fin (of_nat b)) \<Longrightarrow>
    daemon evs wire p (FetchEvent \<lparr>ev_event = ''reset'', ev_data = d, ev_id = None\<rparr>) (i, f) (b, b)"
| poll: "b \<le> e \<Longrightarrow> e \<le> length evs \<Longrightarrow> jr_ok job \<Longrightarrow> log_answer evs b e c job \<Longrightarrow>
    daemon evs wire (PollWaiting (Fin (of_nat c))) (PollAnswer job) (i, f) (i, if c < b \<and> b < e then b else f)"
| other: "quiet a \<Longrightarrow> daemon evs wire p a d d"

text \<open>The runs of the effect against the daemon, from an empty live log at a cursor.\<close>

inductive runs :: "stream_env \<Rightarrow> jsval list \<Rightarrow> (nat \<Rightarrow> string) \<Rightarrow> job_view \<Rightarrow> nat \<Rightarrow> job_view \<times> stream_state \<Rightarrow> nat \<times> nat \<Rightarrow> bool"
  for env evs wire v0 c0 where
  start: "runs env evs wire v0 c0 (start_stream env throws v0) (c0, c0)"
| act: "runs env evs wire v0 c0 (v, st) d \<Longrightarrow> enabled st a \<Longrightarrow> \<not> st_cancelled st \<Longrightarrow>
    daemon evs wire (st_poll st) a d d' \<Longrightarrow> runs env evs wire v0 c0 (handle env a (v, st)) d'"
| late: "runs env evs wire v0 c0 (v, st) d \<Longrightarrow> enabled st a \<Longrightarrow> st_cancelled st \<Longrightarrow>
    runs env evs wire v0 c0 (handle env a (v, st)) d"

definition shows_log :: "jsval list \<Rightarrow> nat \<Rightarrow> nat \<Rightarrow> job_view \<Rightarrow> bool" where
  "shows_log evs f c v =
     (f \<le> c \<and> c \<le> length evs \<and> jv_cursor v = Fin (of_nat c) \<and> jv_liveEvents v = newest LIVE_EVENTS_MAX (drop f (take c evs)))"

definition one_source :: "stream_state \<Rightarrow> bool" where
  "one_source st =
     (\<not> (st_es st \<and> st_fetch st) \<and> (st_es st \<or> st_fetch st \<longrightarrow> \<not> st_fallbackStarted st) \<and>
      (st_fallbackStarted st \<longleftrightarrow> st_poll st \<noteq> PollIdle))"

lemma start_one_source: "one_source (snd (start_stream env throws v))"
  by (simp add: start_stream_def one_source_def fallbackToPolling_def Let_def)

lemma handle_one_source: "one_source st \<Longrightarrow> enabled st a \<Longrightarrow> one_source (snd (handle env a (v, st)))"
  by (cases a) (auto simp: one_source_def fallbackToPolling_def Let_def case_prod_beta)

text \<open>What leaves the log and the cursor alone.\<close>

lemma finish_log [simp]:
  "jv_liveEvents (finish_job env v) = jv_liveEvents v" "jv_cursor (finish_job env v) = jv_cursor v"
  by (simp_all add: finish_job_def Let_def)

lemma show_result_log [simp]:
  "jv_liveEvents (show_result r v) = jv_liveEvents v" "jv_cursor (show_result r v) = jv_cursor v"
  by (simp_all add: show_result_def)

lemma job_done_log [simp]:
  "jv_liveEvents (stream_job_done env d v) = jv_liveEvents v" "jv_cursor (stream_job_done env d v) = jv_cursor v"
  by (simp_all add: stream_job_done_def Let_def split: option.split)

lemma watchdog_log [simp]:
  "jv_liveEvents (watchdog_answer env j v) = jv_liveEvents v" "jv_cursor (watchdog_answer env j v) = jv_cursor v"
  by (simp_all add: watchdog_answer_def split: option.split)

lemma poll_complete_log [simp]:
  "jv_liveEvents (poll_complete env j v) = jv_liveEvents v" "jv_cursor (poll_complete env j v) = jv_cursor v"
  by (simp_all add: poll_complete_def Let_def split: option.split)

lemma poll_answer_log:
  "jv_liveEvents (fst (poll_answer env j v)) = jv_liveEvents (if jr_ok j then poll_events j v else v)"
  "jv_cursor (fst (poll_answer env j v)) = jv_cursor (if jr_ok j then poll_events j v else v)"
  by (simp_all add: poll_answer_def poll_events_def Let_def)

lemma quiet_log:
  "quiet a \<Longrightarrow> jv_liveEvents (fst (handle env a (v, st))) = jv_liveEvents v \<and> jv_cursor (fst (handle env a (v, st))) = jv_cursor v"
  by (cases a) (auto simp: quiet_def Let_def case_prod_beta poll_answer_log poll_events_def fetch_event_def move_cursor_def)

lemma late_log:
  "st_cancelled st \<Longrightarrow> jv_liveEvents (fst (handle env a (v, st))) = jv_liveEvents v \<and> jv_cursor (fst (handle env a (v, st))) = jv_cursor v"
  by (cases a) (auto simp: Let_def)

lemma shows_log_cong:
  "jv_liveEvents v' = jv_liveEvents v \<and> jv_cursor v' = jv_cursor v \<Longrightarrow> shows_log evs f c v' = shows_log evs f c v"
  by (simp add: shows_log_def)

text \<open>What moves them: an event, a reset, an answer to a request.\<close>

definition daemon_wire :: "stream_env \<Rightarrow> jsval list \<Rightarrow> (nat \<Rightarrow> string) \<Rightarrow> bool" where
  "daemon_wire env evs wire =
     (length evs < 2 ^ 53 \<and> (\<forall>i<length evs. parseStreamAgentEvent env (data_text (wire i)) = Some (evs ! i)))"

lemma nat_str_Number: "i < 2 ^ 53 \<Longrightarrow> js_Number_str (nat_str i) = Fin (of_nat i)"
proof -
  assume "i < 2 ^ 53"
  then have "(of_nat i :: rat) < of_nat (2 ^ 53)" by (simp only: of_nat_less_iff)
  also have "of_nat (2 ^ 53) < double_limit" using double_limit_large by simp
  finally show ?thesis by (simp add: js_Number_str_nat_str num_of_rat_nat)
qed

lemma shows_event:
  assumes "shows_log evs f i v" "i < length evs" "daemon_wire env evs wire"
  shows "shows_log evs f (Suc i) (stream_agent_event env (wire i) (move_cursor (nat_str i) v))"
proof -
  have "move_cursor (nat_str i) v = v\<lparr>jv_cursor := Fin (of_nat (Suc i))\<rparr>"
    using assms(2,3) nat_str_digits [of i] by (simp add: move_cursor_def daemon_wire_def nat_str_Number add.commute)
  then show ?thesis
    using assms by (simp add: shows_log_def stream_agent_event_def daemon_wire_def appendLiveEvents_def capLiveEvents_newest
        take_Suc_conv_app_nth)
qed

lemma shows_reset:
  "parseCursorBase (data_text d) = Some (Fin (of_nat b)) \<Longrightarrow> b \<le> length evs \<Longrightarrow> shows_log evs b b (stream_reset d v)"
  by (simp add: shows_log_def stream_reset_def)

lemma shows_poll:
  assumes "shows_log evs f c v" "b \<le> e" "e \<le> length evs" "log_answer evs b e c job"
  shows "\<exists>c'. shows_log evs (if c < b \<and> b < e then b else f) c' (poll_events job v)"
proof -
  define cur n where "cur = min (max c b) e" and "n = min 256 (e - cur)"
  have j: "jr_events job = Some (take n (drop cur evs))" "jr_events_cursor_next job = Some (Fin (of_nat (cur + n)))"
    "jr_events_reset job = (c < b)"
    using assms(4) by (simp_all add: log_answer_def Let_def cur_def n_def)
  have e: "take n (drop cur evs) = [] \<longleftrightarrow> n = 0" using assms(3) by (auto simp: n_def)
  show ?thesis
  proof (cases "n = 0")
    case True
    then have "poll_events job v = v" by (simp add: poll_events_def j)
    moreover have "\<not> (c < b \<and> b < e)" using True by (auto simp: n_def cur_def)
    ultimately show ?thesis using assms(1) by auto
  next
    case False
    then have p: "poll_events job v = v\<lparr>jv_liveEvents := (if c < b then capLiveEvents (take n (drop cur evs))
        else appendLiveEvents (jv_liveEvents v) (take n (drop cur evs))), jv_cursor := Fin (of_nat (cur + n))\<rparr>"
      using e by (simp add: poll_events_def j next_cursor_def)
    have n: "cur + n \<le> length evs" "cur = max c b" "c < b \<Longrightarrow> b < e" using False assms(2,3) by (auto simp: n_def cur_def)
    have "shows_log evs (if c < b then b else f) (cur + n) (poll_events job v)"
    proof (cases "c < b")
      case True
      then have "drop b (take (cur + n) evs) = take n (drop cur evs)" using n(2) by (simp add: drop_take)
      with True n show ?thesis by (simp add: p shows_log_def capLiveEvents_newest)
    next
      case False
      then have "cur = c" using n(2) by simp
      moreover have "drop f (take (c + n) evs) = drop f (take c evs) @ take n (drop c evs)"
        using assms(1) by (simp add: shows_log_def take_add)
      ultimately show ?thesis
        using False n(1) assms(1) \<open>n \<noteq> 0\<close> e by (simp add: p shows_log_def capLiveEvents_newest appendLiveEvents_def)
    qed
    with n(3) show ?thesis by (auto split: if_splits)
  qed
qed

text \<open>The invariant of a run: the open stream's position is the client's cursor, and so is a request's.\<close>

definition in_step :: "nat \<Rightarrow> nat \<Rightarrow> stream_state \<Rightarrow> bool" where
  "in_step i c st =
     (\<not> st_cancelled st \<longrightarrow> (st_es st \<or> st_fetch st \<longrightarrow> i = c) \<and> (is_waiting (st_poll st) \<longrightarrow> st_poll st = PollWaiting (Fin (of_nat c))))"

definition run_inv :: "jsval list \<Rightarrow> job_view \<times> stream_state \<Rightarrow> nat \<times> nat \<Rightarrow> bool" where
  "run_inv evs s d = (case s of (v, st) \<Rightarrow> case d of (i, f) \<Rightarrow>
     \<exists>c. shows_log evs f c v \<and> in_step i c st \<and> one_source st)"

lemma quiet_in_step:
  "in_step i c st \<Longrightarrow> jv_cursor v = Fin (of_nat c) \<Longrightarrow> one_source st \<Longrightarrow> enabled st a \<Longrightarrow> in_step i c (snd (handle env a (v, st)))"
  by (cases a) (auto simp: in_step_def one_source_def fallbackToPolling_def Let_def case_prod_beta)

lemma start_inv:
  assumes "jv_cursor v0 = Fin (of_nat c0)" "jv_liveEvents v0 = []" "c0 \<le> length evs"
  shows "run_inv evs (start_stream env throws v0) (c0, c0)"
proof -
  have "shows_log evs c0 c0 (fst (start_stream env throws v0))"
    using assms by (simp add: start_stream_def shows_log_def stream_view_def Let_def)
  moreover have "in_step c0 c0 (snd (start_stream env throws v0))"
    by (simp add: start_stream_def in_step_def fallbackToPolling_def Let_def)
  ultimately show ?thesis
    using start_one_source [of env throws v0] by (auto simp: run_inv_def case_prod_beta)
qed

lemma quiet_inv:
  assumes "run_inv evs (v, st) d" "enabled st a" "quiet a \<or> st_cancelled st"
  shows "run_inv evs (handle env a (v, st)) d"
proof -
  obtain i f c where d: "d = (i, f)" and c: "shows_log evs f c v" "in_step i c st" "one_source st"
    using assms(1) by (cases d) (auto simp: run_inv_def)
  have "shows_log evs f c (fst (handle env a (v, st)))"
    using shows_log_cong quiet_log late_log assms(3) c(1) by blast
  moreover have "in_step i c (snd (handle env a (v, st)))"
    using quiet_in_step [OF c(2) _ c(3) assms(2)] c(1) by (simp add: shows_log_def)
  ultimately show ?thesis
    using handle_one_source [OF c(3) assms(2), of env v] by (auto simp: run_inv_def d case_prod_beta)
qed

lemma daemon_inv:
  assumes "daemon evs wire (st_poll st) a d d'" "run_inv evs (v, st) d" "enabled st a" "\<not> st_cancelled st" "daemon_wire env evs wire"
  shows "run_inv evs (handle env a (v, st)) d'"
proof -
  obtain c where c: "shows_log evs (snd d) c v" "in_step (fst d) c st" "one_source st"
    using assms(2) by (auto simp: run_inv_def case_prod_beta)
  have o: "one_source (snd (handle env a (v, st)))" using c(3) assms(3) by (rule handle_one_source)
  from assms(1) show ?thesis
  proof cases
    case (es_event i f)
    then show ?thesis
      using c assms(3-5) shows_event [of evs f i v env wire] by (auto simp: run_inv_def in_step_def one_source_def)
  next
    case (fetch_event i f)
    then show ?thesis
      using c assms(3-5) shows_event [of evs f i v env wire] by (auto simp: run_inv_def in_step_def one_source_def fetch_event_def)
  next
    case (es_reset i b d f)
    then show ?thesis
      using c assms(3-5) shows_reset [of d b evs v] by (auto simp: run_inv_def in_step_def one_source_def)
  next
    case (fetch_reset i b d f)
    then show ?thesis
      using c assms(3-5) shows_reset [of d b evs v]
      by (auto simp: run_inv_def in_step_def one_source_def fetch_event_def move_cursor_def)
  next
    case (poll b e job k i f)
    then have "k = c" using c(2) assms(4) by (simp add: in_step_def)
    then obtain c' where "shows_log evs (if c < b \<and> b < e then b else f) c' (poll_events job v)"
      using shows_poll [of evs f c v b e job] poll c(1) by auto
    moreover have "\<not> st_es st \<and> \<not> st_fetch st" using c(3) poll by (auto simp: one_source_def)
    ultimately show ?thesis
      using poll o \<open>k = c\<close> assms(4) shows_log_cong [of "fst (poll_answer env job v)" "poll_events job v"]
      by (auto simp: run_inv_def in_step_def Let_def case_prod_beta poll_answer_log)
  next
    case other
    then show ?thesis using quiet_inv assms(2,3) by blast
  qed
qed

lemma runs_inv:
  assumes "runs env evs wire v0 c0 s d" "daemon_wire env evs wire" "jv_cursor v0 = Fin (of_nat c0)" "jv_liveEvents v0 = []" "c0 \<le> length evs"
  shows "run_inv evs s d"
  using assms(1)
proof induction
  case (act v st d a d')
  then show ?case using daemon_inv assms(2) by blast
qed (use start_inv [OF assms(3-5)] quiet_inv in auto)

text \<open>
  C2. However the stream, the fall-back to polling, resets and the watchdog interleave, the live log holds exactly the newest 2000
  of the job's events from the last reset (or the cursor the effect started at) up to the
  client's cursor, in order: no event is lost, repeated or reordered, and at any time
  at most one of the two streams and the polling loop is running.
\<close>

theorem live_log_exactly_once:
  assumes "runs env evs wire v0 c0 (v, st) (i, f)" "daemon_wire env evs wire"
    "jv_cursor v0 = Fin (of_nat c0)" "jv_liveEvents v0 = []" "c0 \<le> length evs"
  shows "\<exists>c. f \<le> c \<and> c \<le> length evs \<and> jv_cursor v = Fin (of_nat c) \<and>
      jv_liveEvents v = newest LIVE_EVENTS_MAX (drop f (take c evs)) \<and> one_source st"
  using runs_inv [OF assms] by (fastforce simp: run_inv_def shows_log_def)

text \<open>A run in which the stream drops after one event and polling fetches the other.\<close>

definition demo_env :: stream_env where
  "demo_env = \<lparr>se_connectionMode = ''broker'', se_daemonAuthToken = None, se_effectiveSseBase = ''http://h'', se_sessionId = Some ''s'',
     se_jobStoreKey = ''k'', se_hasEventSource = False, se_hasFetch = True, se_eventSchema = Some, se_runSchema = Some\<rparr>"

definition demo_view :: job_view where
  "demo_view = \<lparr>jv_activeJobId = Some ''job-1'', jv_jobStatus = None, jv_jobError = None, jv_jobNotice = None, jv_jobUpdatedMs = None,
     jv_liveEvents = [], jv_result = None, jv_lastCompletedPrompt = [], jv_lastRunPrompt = ''p'', jv_jobs = [(''k'', JObj [])],
     jv_cursor = Fin (of_nat 0), jv_refetches = 0\<rparr>"

definition demo_wire :: "nat \<Rightarrow> string" where
  "demo_wire i = (if i = 0 then ''true'' else ''false'')"

definition demo_answer :: JobResp where
  "demo_answer = \<lparr>jr_ok = True, jr_status = Some ''done'', jr_error = None, jr_err = None, jr_code = None, jr_updated_unix_ms = None,
     jr_events = Some [JBool False], jr_events_cursor_next = Some (Fin (of_nat 2)), jr_events_reset = False, jr_result = Some (JObj [])\<rparr>"

lemma demo_wire_ok: "daemon_wire demo_env [JBool True, JBool False] demo_wire"
proof -
  have "safeJsonParse ''true'' = JBool True" "safeJsonParse ''false'' = JBool False" by code_simp+
  then show ?thesis
    by (auto simp: daemon_wire_def parseStreamAgentEvent_def demo_env_def demo_wire_def data_text_def str_or_def less_Suc_eq)
qed

lemma demo_start:
  "start_stream demo_env False demo_view = (stream_view demo_view, \<lparr>st_cancelled = False, st_fallbackStarted = False,
     st_fetchFinished = False, st_es = False, st_fetch = True, st_poll = PollIdle, st_watchdogs = 0\<rparr>)"
proof -
  have "canUseFetchSse demo_env" "\<not> canUseEventSource demo_env"
    by (simp_all add: canUseFetchSse_def canUseEventSource_def demo_env_def http_base_def js_starts_with_def)
  then show ?thesis by (simp add: start_stream_def)
qed

lemma demo_run:
  "\<exists>v st i f. runs demo_env [JBool True, JBool False] demo_wire demo_view 0 (v, st) (i, f) \<and> jv_liveEvents v \<noteq> []"
proof -
  let ?runs = "runs demo_env [JBool True, JBool False] demo_wire demo_view 0"
  let ?ev = "FetchEvent \<lparr>ev_event = ''agent_event'', ev_data = demo_wire 0, ev_id = Some (nat_str 0)\<rparr>"
  let ?v1 = "stream_agent_event demo_env (demo_wire 0) (move_cursor (nat_str 0) (stream_view demo_view))"
  let ?st = "\<lambda>fb fe po. \<lparr>st_cancelled = False, st_fallbackStarted = fb, st_fetchFinished = False, st_es = False, st_fetch = fe, st_poll = po, st_watchdogs = 0\<rparr>"
  let ?v2 = "?v1\<lparr>jv_jobNotice := Some (''job stream dropped (retrying via polling): '' @ ''x'')\<rparr>"
  have c: "shows_log [JBool True, JBool False] 0 1 ?v1"
    using shows_event [of "[JBool True, JBool False]" 0 0 "stream_view demo_view" demo_env demo_wire] demo_wire_ok
    by (simp add: shows_log_def stream_view_def demo_view_def)
  have "?runs (stream_view demo_view, ?st False True PollIdle) (0, 0)"
    using runs.start [of demo_env _ demo_wire demo_view 0 False] by (simp only: demo_start)
  then have "?runs (handle demo_env ?ev (stream_view demo_view, ?st False True PollIdle)) (Suc 0, 0)"
    by (rule runs.act) (simp_all add: daemon.fetch_event)
  then have "?runs (?v1, ?st False True PollIdle) (1, 0)" by (simp add: fetch_event_def)
  then have "?runs (handle demo_env (FetchFailed ''x'') (?v1, ?st False True PollIdle)) (1, 0)"
    by (rule runs.act) (simp_all add: daemon.other quiet_def)
  then have "?runs (?v2, ?st True False PollReady) (1, 0)" by (simp add: fallbackToPolling_def)
  then have "?runs (handle demo_env PollSend (?v2, ?st True False PollReady)) (1, 0)"
    by (rule runs.act) (simp_all add: daemon.other quiet_def)
  then have "?runs (?v2, ?st True False (PollWaiting (Fin (of_nat 1)))) (1, 0)" using c by (simp add: shows_log_def)
  moreover have "daemon [JBool True, JBool False] demo_wire (PollWaiting (Fin (of_nat 1))) (PollAnswer demo_answer) (1, 0) (1, 0)"
    using daemon.poll [of 0 2 "[JBool True, JBool False]" demo_answer 1 demo_wire 1 0] by (simp add: demo_answer_def log_answer_def)
  ultimately have "?runs (handle demo_env (PollAnswer demo_answer) (?v2, ?st True False (PollWaiting (Fin (of_nat 1))))) (1, 0)"
    by (intro runs.act [where d = "(1, 0)"]) simp_all
  moreover have "snd (poll_answer demo_env demo_answer ?v2) = False" by (simp add: poll_answer_def demo_answer_def terminal_status_def)
  moreover have "jv_liveEvents (fst (poll_answer demo_env demo_answer ?v2)) \<noteq> []"
    by (simp add: poll_answer_log poll_events_def demo_answer_def appendLiveEvents_def capLiveEvents_newest newest_def
        LIVE_EVENTS_MAX_def Let_def)
  ultimately show ?thesis by (simp add: case_prod_beta Let_def) blast
qed

theorem live_log_exactly_once_witness:
  "\<exists>(v :: job_view) c. jv_liveEvents v \<noteq> [] \<and> c \<le> (2::nat) \<and> jv_cursor v = Fin (of_nat c) \<and>
     (\<exists>f. jv_liveEvents v = newest LIVE_EVENTS_MAX (drop f (take c [JBool True, JBool False])))"
proof -
  obtain v st i f where "runs demo_env [JBool True, JBool False] demo_wire demo_view 0 (v, st) (i, f)" "jv_liveEvents v \<noteq> []"
    using demo_run by blast
  moreover have "jv_cursor demo_view = Fin (of_nat 0)" "jv_liveEvents demo_view = []" by (simp_all add: demo_view_def)
  ultimately obtain c where "c \<le> length [JBool True, JBool False]" "jv_cursor v = Fin (of_nat c)"
      "jv_liveEvents v = newest LIVE_EVENTS_MAX (drop f (take c [JBool True, JBool False]))"
    using live_log_exactly_once [of demo_env "[JBool True, JBool False]" demo_wire demo_view 0 v st i f] demo_wire_ok by auto
  with \<open>jv_liveEvents v \<noteq> []\<close> show ?thesis by (intro exI [of _ v], intro exI [of _ c]) auto
qed

section \<open>The end of a job\<close>

definition ends_job :: "JobResp \<Rightarrow> bool" where
  "ends_job job = (if jr_ok job then terminal_status (jr_status job) else not_found job)"

definition ends :: "stream_action \<Rightarrow> bool" where
  "ends a =
     (case a of
        EsJobDone _ \<Rightarrow> True
      | FetchEvent e \<Rightarrow> ev_event e = ''job_done''
      | PollAnswer job \<Rightarrow> ends_job job
      | WatchdogAnswer job \<Rightarrow> ends_job job
      | _ \<Rightarrow> False)"

text \<open>What the code shows of a job to the rest of the client: whether it is active, its table entry, its result.\<close>

definition shared :: "job_view \<Rightarrow> string option \<times> run_watch_map \<times> nat \<times> jsval option" where
  "shared v = (jv_activeJobId v, jv_jobs v, jv_refetches v, jv_result v)"

lemma shared_simps [simp]:
  "shared (stream_reset d v) = shared v" "shared (move_cursor e v) = shared v" "shared (stream_agent_event env d v) = shared v"
  "shared (poll_events j v) = shared v"
  "shared (v\<lparr>jv_jobStatus := s\<rparr>) = shared v" "shared (v\<lparr>jv_jobError := e'\<rparr>) = shared v" "shared (v\<lparr>jv_jobNotice := n\<rparr>) = shared v"
  "shared (v\<lparr>jv_jobUpdatedMs := u\<rparr>) = shared v"
  by (simp_all add: shared_def stream_reset_def move_cursor_def stream_agent_event_def poll_events_def Let_def
      split: option.split jsnum.split)

text \<open>The part of a view that only the end of a job changes.\<close>

definition kept :: "job_view \<Rightarrow> string option \<times> run_watch_map \<times> nat" where
  "kept v = (jv_activeJobId v, jv_jobs v, jv_refetches v)"

definition dropped :: "stream_env \<Rightarrow> job_view \<Rightarrow> string option \<times> run_watch_map \<times> nat" where
  "dropped env v =
     (None, if js_trim (opt_or (se_sessionId env) []) \<noteq> [] then obj_del (jv_jobs v) (se_jobStoreKey env) else jv_jobs v, jv_refetches v + 2)"

lemma kept_shared: "shared v = shared v' \<Longrightarrow> kept v = kept v' \<and> jv_result v = jv_result v'"
  by (simp add: shared_def kept_def)

lemma kept_finish: "kept (finish_job env v) = dropped env v"
  by (simp add: kept_def dropped_def finish_job_def Let_def)

lemma dropped_cong: "kept v = kept v' \<Longrightarrow> dropped env v = dropped env v'"
  by (simp add: kept_def dropped_def)

lemma kept_simps [simp]:
  "kept (stream_job_done env d v) = dropped env v"
  "kept (watchdog_answer env j v) = (if ends_job j then dropped env v else kept v)"
  "kept (poll_complete env j v) = dropped env v"
  "kept (fst (poll_answer env j v)) = (if ends_job j then dropped env v else kept v)"
proof -
  have d: "dropped env (show_result r v) = dropped env v" for r and v :: job_view by (simp add: dropped_def show_result_def)
  have n: "dropped env (v\<lparr>jv_jobNotice := n\<rparr>) = dropped env v" "dropped env (v\<lparr>jv_jobError := e\<rparr>) = dropped env v"
    "dropped env (v\<lparr>jv_jobStatus := s\<rparr>) = dropped env v" for n e s and v :: job_view by (simp_all add: dropped_def)
  show "kept (stream_job_done env d v) = dropped env v" for d
    by (simp add: stream_job_done_def Let_def kept_finish d n split: option.split)
  show "kept (watchdog_answer env j v) = (if ends_job j then dropped env v else kept v)"
    by (simp add: watchdog_answer_def ends_job_def kept_finish d n split: option.split)
  show c: "kept (poll_complete env j v) = dropped env v" for v
    by (simp add: poll_complete_def Let_def kept_finish d n split: option.split)
  have p: "kept (poll_events j v) = kept v" for v by (simp add: kept_def poll_events_def Let_def)
  have k: "kept (v\<lparr>jv_jobStatus := a, jv_jobError := b, jv_jobNotice := x, jv_jobUpdatedMs := y\<rparr>) = kept v" for a b x y by (simp add: kept_def)
  show "kept (fst (poll_answer env j v)) = (if ends_job j then dropped env v else kept v)"
    using dropped_cong [OF trans [OF p k]]
    by (simp add: poll_answer_def ends_job_def Let_def kept_finish c p k n) (simp add: kept_def)
qed

lemma kept_other [simp]:
  "kept (stream_reset d v) = kept v" "kept (move_cursor e v) = kept v" "kept (stream_agent_event env d v) = kept v"
  "kept (v\<lparr>jv_jobNotice := n\<rparr>) = kept v"
  using kept_shared [OF shared_simps(1)] kept_shared [OF shared_simps(2)] kept_shared [OF shared_simps(3)] kept_shared [OF shared_simps(7)]
  by auto

lemma kept_handle:
  assumes "\<not> st_cancelled st"
  shows "kept (fst (handle env a (v, st))) = (if ends a then dropped env v else kept v)"
proof (cases a)
  case (FetchEvent e)
  have "dropped env (move_cursor i v) = dropped env v" for i using kept_other(2) by (rule dropped_cong)
  with assms FetchEvent show ?thesis by (simp add: ends_def fetch_event_def Let_def case_prod_beta)
qed (use assms in \<open>simp_all add: ends_def Let_def case_prod_beta\<close>)

lemma result_handle:
  assumes "\<not> st_cancelled st" "\<not> ends a"
  shows "jv_result (fst (handle env a (v, st))) = jv_result v"
proof -
  have r: "jv_result (poll_events j v) = jv_result v" "jv_result (move_cursor i v) = jv_result v" "jv_result (stream_reset d v) = jv_result v"
    "jv_result (stream_agent_event env d v) = jv_result v" for j i d and v :: job_view
    using kept_shared [OF shared_simps(1)] kept_shared [OF shared_simps(2)] kept_shared [OF shared_simps(3)] kept_shared [OF shared_simps(4)]
    by auto
  show ?thesis
    using assms by (cases a)
      (auto simp: ends_def ends_job_def Let_def case_prod_beta fetch_event_def poll_answer_def watchdog_answer_def r split: if_splits)
qed

lemma poll_over: "snd (poll_answer env job v) \<longleftrightarrow> \<not> ends_job job"
  by (simp add: poll_answer_def ends_job_def Let_def)

text \<open>
  C36. The client lets go of a job exactly when it learns of its end, on whichever path (the stream's last event, an answer to
  polling or to the watchdog that reports a final status or an unknown job): then no job is active, the job's entry
  leaves the session's table and the lists are fetched again. Every other event keeps the
  active job, the table and the result as they are, and polling goes on exactly until then.
\<close>

theorem job_ends_exactly:
  assumes "\<not> st_cancelled st"
  shows "let (v', st') = handle env a (v, st) in
    (if ends a
     then jv_activeJobId v' = None \<and> jv_refetches v' = jv_refetches v + 2 \<and>
       jv_jobs v' = (if js_trim (opt_or (se_sessionId env) []) \<noteq> [] then obj_del (jv_jobs v) (se_jobStoreKey env) else jv_jobs v)
     else jv_activeJobId v' = jv_activeJobId v \<and> jv_refetches v' = jv_refetches v \<and> jv_jobs v' = jv_jobs v \<and> jv_result v' = jv_result v) \<and>
    (\<forall>job. a = PollAnswer job \<longrightarrow> st_poll st' = (if ends a then PollOver else PollReady))"
proof -
  have "\<forall>job. a = PollAnswer job \<longrightarrow> st_poll (snd (handle env a (v, st))) = (if ends a then PollOver else PollReady)"
    using assms by (simp add: Let_def case_prod_beta poll_over ends_def)
  moreover have "if ends a then kept (fst (handle env a (v, st))) = dropped env v
      else kept (fst (handle env a (v, st))) = kept v \<and> jv_result (fst (handle env a (v, st))) = jv_result v"
    using kept_handle [OF assms] result_handle [OF assms] by simp
  ultimately show ?thesis by (simp add: kept_def dropped_def case_prod_beta Let_def split: if_splits)
qed

definition idle_stream :: stream_state where
  "idle_stream = \<lparr>st_cancelled = False, st_fallbackStarted = True, st_fetchFinished = False, st_es = False, st_fetch = False,
     st_poll = PollWaiting (Fin (of_nat 0)), st_watchdogs = 1\<rparr>"

theorem job_ends_exactly_witness:
  "jv_activeJobId demo_view = Some ''job-1'' \<and> (case handle demo_env (PollAnswer demo_answer) (demo_view, idle_stream) of (v', st') \<Rightarrow>
     jv_activeJobId v' = None \<and> jv_jobs v' = [] \<and> st_poll st' = PollOver)"
proof -
  have "ends (PollAnswer demo_answer)" by (simp add: ends_def ends_job_def demo_answer_def terminal_status_def)
  moreover have "js_trim ''s'' = ''s''" by code_simp
  moreover have "\<not> st_cancelled idle_stream" by (simp add: idle_stream_def)
  ultimately show ?thesis
    using job_ends_exactly [of idle_stream demo_env "PollAnswer demo_answer" demo_view]
    by (simp add: case_prod_beta Let_def demo_env_def demo_view_def)
qed

section \<open>After the effect was cleaned up\<close>

text \<open>
  C37. Once the effect has been cleaned up (the session or the active job changed), its callbacks change nothing of what the client shows
  but the notice text, with one exception: an answer to a watchdog request still under way is not
  checked against the cancellation, so when it reports the end of the old job it
  clears the active job, whichever job that is by then.
\<close>

theorem cleaned_up_effect:
  assumes "st_cancelled st"
  shows "if \<exists>job. a = WatchdogAnswer job \<and> ends_job job
    then jv_activeJobId (fst (handle env a (v, st))) = None
    else (fst (handle env a (v, st)))\<lparr>jv_jobNotice := n\<rparr> = v\<lparr>jv_jobNotice := n\<rparr>"
proof (cases "\<exists>job. a = WatchdogAnswer job \<and> ends_job job")
  case True
  then obtain job where "a = WatchdogAnswer job" "ends_job job" by blast
  then show ?thesis using kept_simps(2) [of env job v] by (simp add: kept_def dropped_def)
next
  case False
  then have "watchdog_answer env job v = v" if "a = WatchdogAnswer job" for job
    using that by (simp add: watchdog_answer_def ends_job_def split: if_splits)
  with False assms show ?thesis by (cases a) (auto simp: Let_def)
qed

text \<open>The user has moved on to a second job; the first one's watchdog answers late.\<close>

theorem cleaned_up_effect_witness:
  "jv_activeJobId (demo_view\<lparr>jv_activeJobId := Some ''job-2''\<rparr>) = Some ''job-2'' \<and>
   enabled (snd (handle demo_env Cleanup (demo_view, idle_stream))) (WatchdogAnswer demo_answer) \<and>
   jv_activeJobId (fst (handle demo_env (WatchdogAnswer demo_answer)
     (demo_view\<lparr>jv_activeJobId := Some ''job-2''\<rparr>, snd (handle demo_env Cleanup (demo_view, idle_stream))))) = None"
proof -
  have "ends_job demo_answer" by (simp add: ends_job_def demo_answer_def terminal_status_def)
  then show ?thesis
    using cleaned_up_effect [of "snd (handle demo_env Cleanup (demo_view, idle_stream))" "WatchdogAnswer demo_answer" demo_env
        "demo_view\<lparr>jv_activeJobId := Some ''job-2''\<rparr>" None]
    by (simp add: idle_stream_def)
qed

end
