(* ===== verification/Run_Watch.thy ===== *)
theory Run_Watch
  imports Job_Stream Json_Roundtrip
begin

text \<open>
  \<^verbatim>\<open>src/ui/src/hooks/useRunWatchState.ts\<close>: the table of watched jobs in the browser. Its JSON text is in local storage, a copy on the server;
  writes to the server are collected behind a timer. When no job is active the job
  recorded for the session is looked up and followed again from its saved cursor, and the cursor of the
  active job is saved every second. Requests are split into the action that sends them and
  the one that handles the answer; the clock is an argument.
\<close>

section \<open>The stored table\<close>

definition watch_entry :: "run_watch_map \<Rightarrow> string \<times> jsval \<Rightarrow> run_watch_map" where
  "watch_entry nxt kv =
     (let entryRecord = safeObject (snd kv) in
      if js_keys entryRecord = [] then nxt else obj_put nxt (fst kv) (JObj (spread (JObj entryRecord))))"

definition parseRunWatchByScope :: "jsval \<Rightarrow> run_watch_map" where
  "parseRunWatchByScope value = foldl watch_entry [] (js_entries (safeObject value))"

definition load_value :: "string \<Rightarrow> jsval" where
  "load_value raw = (case loadJson raw of Some ps \<Rightarrow> JObj ps | None \<Rightarrow> JNull)"

datatype watch_status = WIdle | WLoading | WReady | WError

record watch_state =
  ws_json :: string
  ws_status :: watch_status
  ws_timer :: "rat option"
  ws_pending :: "run_watch_map option"
  ws_lastSentAt :: rat
  ws_sent :: "(rat \<times> run_watch_map) list"

definition runWatchMode :: "bool \<Rightarrow> watch_status \<Rightarrow> string" where
  "runWatchMode canUse s =
     (if \<not> canUse then ''local''
      else case s of WError \<Rightarrow> ''local'' | WLoading \<Rightarrow> ''server:loading'' | _ \<Rightarrow> ''server'')"

text \<open>\<^verbatim>\<open>JSON.stringify\<close> of a table is always a text.\<close>

definition table_json :: "run_watch_map \<Rightarrow> string" where
  "table_json m = opt_or (json_compact (JObj m)) []"

definition parseJobsBySession :: "rat \<Rightarrow> watch_state \<Rightarrow> run_watch_map \<times> watch_state" where
  "parseJobsBySession now w =
     (let p = pruneJobsBySession now (parseRunWatchByScope (load_value (ws_json w))) JOB_STORE_MAX JOB_STORE_TTL_MS
      in (pr_next p, if pr_changed p then w\<lparr>ws_json := table_json (pr_next p)\<rparr> else w))"

section \<open>Writing to the server\<close>

definition RUN_WATCH_PERSIST_MIN_INTERVAL_MS :: rat where
  "RUN_WATCH_PERSIST_MIN_INTERVAL_MS = 5000"

definition scheduleRunWatchPersist :: "bool \<Rightarrow> rat \<Rightarrow> run_watch_map \<Rightarrow> watch_state \<Rightarrow> watch_state" where
  "scheduleRunWatchPersist canUse now nextMap w =
     (if \<not> canUse \<or> ws_status w = WError then w
      else
        let w1 = w\<lparr>ws_pending := Some nextMap\<rparr> in
        if ws_timer w \<noteq> None then w1
        else w1\<lparr>ws_timer := Some (now + max (RUN_WATCH_PERSIST_MIN_INTERVAL_MS - (now - ws_lastSentAt w)) 0)\<rparr>)"

text \<open>The timer's callback sends the pending table; the answer to the request comes later.\<close>

definition persist_timer :: "bool \<Rightarrow> rat \<Rightarrow> watch_state \<Rightarrow> watch_state" where
  "persist_timer canUse now w =
     (let w1 = w\<lparr>ws_pending := None, ws_timer := None\<rparr> in
      case ws_pending w of
        None \<Rightarrow> w1
      | Some m \<Rightarrow> if canUse then w1\<lparr>ws_sent := ws_sent w @ [(now, m)]\<rparr> else w1)"

definition push_answer :: "rat \<Rightarrow> bool \<Rightarrow> watch_state \<Rightarrow> watch_state" where
  "push_answer now ok w = (if ok then w\<lparr>ws_lastSentAt := now, ws_status := WReady\<rparr> else w\<lparr>ws_status := WError\<rparr>)"

definition writeJobsBySession :: "bool \<Rightarrow> rat \<Rightarrow> (run_watch_map \<Rightarrow> run_watch_map) \<Rightarrow> watch_state \<Rightarrow> watch_state" where
  "writeJobsBySession canUse now mutate w =
     (let nxt = mutate (parseRunWatchByScope (load_value (ws_json w)))
      in (scheduleRunWatchPersist canUse now nxt w)\<lparr>ws_json := table_json nxt\<rparr>)"

text \<open>\<^verbatim>\<open>loadServerRunWatch\<close>: the request, and its answer (\<open>None\<close>: refused or failed).\<close>

definition load_start :: "bool \<Rightarrow> watch_state \<Rightarrow> watch_state" where
  "load_start canUse w = (if canUse then w\<lparr>ws_status := WLoading\<rparr> else w)"

definition loadServerRunWatch :: "bool \<Rightarrow> rat \<Rightarrow> jsval option \<Rightarrow> watch_state \<Rightarrow> watch_state" where
  "loadServerRunWatch canUse now prefs w =
     (case prefs of
        None \<Rightarrow> w\<lparr>ws_status := WError\<rparr>
      | Some p \<Rightarrow>
          let remoteMap = pr_next (pruneJobsBySession now (extractRunWatchByScope p) JOB_STORE_MAX JOB_STORE_TTL_MS);
              (localMap, w1) = parseJobsBySession now w;
              merged = mergeRunWatchByScope localMap remoteMap;
              w2 = (if \<not> runWatchMapsEqual merged localMap then w1\<lparr>ws_json := table_json merged\<rparr> else w1);
              w3 = (if \<not> runWatchMapsEqual merged remoteMap then scheduleRunWatchPersist canUse now merged w2 else w2)
          in w3\<lparr>ws_status := WReady\<rparr>)"

text \<open>The effect that loads the table once per connection: the remembered key and whether to load.\<close>

definition load_effect :: "bool \<Rightarrow> string \<Rightarrow> string \<Rightarrow> string \<times> bool" where
  "load_effect canUse nextKey loadKey =
     (if \<not> canUse then ([], False) else if loadKey = nextKey then (loadKey, False) else (nextKey, True))"

definition clear_timer :: "watch_state \<Rightarrow> watch_state" where
  "clear_timer w = w\<lparr>ws_timer := None\<rparr>"

section \<open>Following the recorded job again\<close>

text \<open>What the restoring effect asks the daemon about: the job and the cursor to start at.\<close>

definition recorded_job :: "run_watch_map \<Rightarrow> string \<Rightarrow> string \<Rightarrow> (string \<times> nat) option" where
  "recorded_job jobs key sid =
     (let rec = js_or (obj_get jobs key) (obj_get jobs sid);
          jobId = opt_or (as_str (js_get rec ''job_id'')) [];
          cursor = (case js_get rec ''cursor'' of JNum (Fin r) \<Rightarrow> if r \<ge> 0 then nat \<lfloor>r\<rfloor> else 0 | _ \<Rightarrow> 0)
      in if jobId = [] then None else Some (jobId, cursor))"

definition adopt_key :: "string \<Rightarrow> string \<Rightarrow> run_watch_map \<Rightarrow> run_watch_map" where
  "adopt_key key sid prev =
     (if truthy (obj_get prev key) then prev else obj_del (obj_put prev key (obj_get prev sid)) sid)"

definition restore_start ::
  "bool \<Rightarrow> rat \<Rightarrow> string option \<Rightarrow> string \<Rightarrow> string \<Rightarrow> watch_state \<Rightarrow> watch_state \<times> (string \<times> nat) option" where
  "restore_start canUse now active sessionId key w =
     (let sid = js_trim sessionId in
      if opt_or active [] \<noteq> [] \<or> sid = [] then (w, None)
      else
        let (jobs, w1) = parseJobsBySession now w in
        case recorded_job jobs key sid of
          None \<Rightarrow> (w1, None)
        | Some job \<Rightarrow>
            (if \<not> truthy (obj_get jobs key) \<and> truthy (obj_get jobs sid) then writeJobsBySession canUse now (adopt_key key sid) w1 else w1,
             Some job))"

text \<open>The daemon's answer about the job, for an effect that is not cancelled.\<close>

definition restore_answer ::
  "bool \<Rightarrow> rat \<Rightarrow> string \<Rightarrow> string \<times> nat \<Rightarrow> JobResp \<Rightarrow> job_view \<times> watch_state \<Rightarrow> job_view \<times> watch_state" where
  "restore_answer canUse now key job resp s =
     (case s of (v, w) \<Rightarrow>
        if jr_ok resp \<and> jr_status resp \<in> {Some ''queued'', Some ''running''} then
          (v\<lparr>jv_cursor := Fin (of_nat (snd job)), jv_jobError := None, jv_jobStatus := jr_status resp,
             jv_jobUpdatedMs := jr_updated_unix_ms resp, jv_liveEvents := [], jv_activeJobId := Some (fst job)\<rparr>, w)
        else (v, writeJobsBySession canUse now (\<lambda>prev. obj_del prev key) w))"

section \<open>Saving the cursor\<close>

definition save_cursor :: "rat \<Rightarrow> string \<Rightarrow> string \<Rightarrow> jsnum \<Rightarrow> run_watch_map \<Rightarrow> run_watch_map" where
  "save_cursor now jobId key cursor prev =
     (let current = obj_get prev key in
      if \<not> truthy current \<or> \<not> strict_eq (js_get current ''job_id'') (JStr jobId) then prev
      else if strict_eq (js_get current ''cursor'') (JNum cursor) then prev
      else obj_put prev key (JObj (obj_put (obj_put (spread current) ''cursor'' (JNum cursor)) ''updated_unix_ms'' (JNum (Fin now)))))"

definition cursor_tick :: "bool \<Rightarrow> rat \<Rightarrow> string \<Rightarrow> string \<Rightarrow> job_view \<times> watch_state \<Rightarrow> job_view \<times> watch_state" where
  "cursor_tick canUse now sessionId key s =
     (case s of (v, w) \<Rightarrow>
        let jobId = opt_or (jv_activeJobId v) [] in
        if jobId = [] \<or> js_trim sessionId = [] then (v, w)
        else (v, writeJobsBySession canUse now (save_cursor now jobId key (jv_cursor v)) w))"

section \<open>What is stored is read back\<close>

lemma load_table:
  assumes "json_ok (JObj m)"
  shows "load_value (table_json m) = json_clean (JObj m)"
proof -
  obtain t where t: "json_compact (JObj m) = Some t" by simp
  then have "json_parse t = Some (json_clean (JObj m))" by (rule json_roundtrip [OF assms])
  then have "safeJsonParse t = json_clean (JObj m)" by (simp add: safeJsonParse_def str_or_def)
  moreover have "table_json m = t" using t by (simp add: table_json_def)
  ultimately show ?thesis by (simp add: load_value_def loadJson_def isUnknownRecord_def)
qed

definition read_entry :: "jsval \<Rightarrow> jsval" where
  "read_entry v = (case v of JObj (p # ps) \<Rightarrow> v | _ \<Rightarrow> JUndef)"

lemma watch_entry_map:
  "map_of (watch_entry nxt (k', v)) k = (if k = k' \<and> read_entry v \<noteq> JUndef then Some v else map_of nxt k)"
proof -
  have "js_keys ps = [] \<longleftrightarrow> ps = []" for ps :: "jsval jsobj" by (metis length_0_conv length_js_keys)
  then show ?thesis
    by (cases v) (auto simp: watch_entry_def safeObject_def isUnknownRecord_def read_entry_def update_conv' split: list.split)
qed

lemma wf_watch_entry: "wf_obj nxt \<Longrightarrow> wf_obj (watch_entry nxt e)"
  by (simp add: watch_entry_def Let_def distinct_update)

lemma wf_parse: "wf_obj (parseRunWatchByScope v)"
proof -
  have "wf_obj nxt \<Longrightarrow> wf_obj (foldl watch_entry nxt es)" for nxt es
    by (induction es arbitrary: nxt) (simp_all add: wf_watch_entry)
  then show ?thesis by (simp add: parseRunWatchByScope_def)
qed

lemma parse_map:
  assumes "wf_obj ps"
  shows "map_of (parseRunWatchByScope (JObj ps)) k =
    (case map_of ps k of None \<Rightarrow> None | Some v \<Rightarrow> if read_entry v \<noteq> JUndef then Some v else None)"
  unfolding parseRunWatchByScope_def safeObject_def using assms
  by (subst map_of_foldl_keyed) (auto simp: watch_entry_map isUnknownRecord_def split: option.split)

lemma map_of_clean:
  assumes "wf_obj m"
  shows "map_of (map (\<lambda>p. (fst p, json_clean (snd p))) (filter (\<lambda>p. snd p \<noteq> JUndef) (js_entries m))) k =
    (case map_of m k of None \<Rightarrow> None | Some v \<Rightarrow> if v \<noteq> JUndef then Some (json_clean v) else None)"
proof -
  have "map_of (map (\<lambda>p. (fst p, json_clean (snd p))) (filter (\<lambda>p. snd p \<noteq> JUndef) es)) k =
      (case map_of es k of None \<Rightarrow> None | Some v \<Rightarrow> if v \<noteq> JUndef then Some (json_clean v) else None)" if "wf_obj es" for es
    using that
  proof (induction es)
    case (Cons e es)
    then have "map_of es (fst e) = None" by (simp add: map_of_eq_None_iff)
    with Cons show ?case by (cases "k = fst e") (simp_all del: map_of_eq_Some_iff)
  qed simp
  from this [of "js_entries m"] show ?thesis using assms by simp
qed

text \<open>A table of non-empty records is read back with every entry cleaned.\<close>

lemma parse_stored:
  assumes "json_ok (JObj m)"
  shows "map_of (parseRunWatchByScope (load_value (table_json m))) k =
    (case map_of m k of None \<Rightarrow> None | Some v \<Rightarrow> if v \<noteq> JUndef \<and> read_entry (json_clean v) \<noteq> JUndef then Some (json_clean v) else None)"
proof -
  let ?ps = "map (\<lambda>p. (fst p, json_clean (snd p))) (filter (\<lambda>p. snd p \<noteq> JUndef) (js_entries m))"
  have wf: "wf_obj m" using assms by simp
  then have "wf_obj ?ps" by (simp add: comp_def distinct_map_filter)
  from parse_map [OF this, of k] show ?thesis
    using wf by (simp add: load_table [OF assms] map_of_clean split: option.split)
qed

lemma get_clean: "wf_obj qs \<Longrightarrow> js_get (json_clean (JObj qs)) k = (if obj_get qs k = JUndef then JUndef else json_clean (obj_get qs k))"
  by (simp add: obj_get.simps map_of_clean split: option.split)

lemma job_ts_clean:
  assumes "json_ok (JObj qs)" "\<And>n. obj_get qs ''updated_unix_ms'' = JNum n \<Longrightarrow> is_finite n"
  shows "job_ts (json_clean (JObj qs)) = job_ts (JObj qs)"
  using assms get_clean [of qs "''updated_unix_ms''"] get_clean [of qs "''started_unix_ms''"]
  by (cases "obj_get qs ''updated_unix_ms''"; cases "obj_get qs ''started_unix_ms''") (auto simp: job_ts_def split: jsnum.split)

text \<open>An entry that is still live stays in a table that is not full.\<close>

lemma prune_keeps:
  assumes "wf_obj jobs" "map_of jobs k = Some v" "live_job now JOB_STORE_TTL_MS v" "length jobs \<le> 64"
  shows "map_of (pr_next (pruneJobsBySession now jobs JOB_STORE_MAX JOB_STORE_TTL_MS)) k = Some v"
proof -
  have "length (live_jobs now JOB_STORE_TTL_MS jobs) \<le> 64" using assms(4) length_filter_le [of _ "js_entries jobs"] by (metis length_js_entries order_trans)
  then show ?thesis
    using assms by (simp add: pruneJobs_next [OF assms(1) refl] JOB_STORE_MAX_def map_of_live_jobs del: map_of_eq_Some_iff)
qed

lemma length_parse: "length (parseRunWatchByScope (JObj ps)) \<le> length ps"
proof -
  have u: "length (obj_put nxt k v) \<le> Suc (length nxt)" for nxt :: run_watch_map and k v by (induction nxt) auto
  have "length (foldl watch_entry nxt es) \<le> length nxt + length es" for nxt es
  proof (induction es arbitrary: nxt)
    case (Cons e es)
    have "length (watch_entry nxt e) \<le> Suc (length nxt)" using u by (simp add: watch_entry_def Let_def)
    with Cons [of "watch_entry nxt e"] show ?case by simp
  qed simp
  from this [of "[]" "js_entries ps"] show ?thesis by (simp add: parseRunWatchByScope_def safeObject_def isUnknownRecord_def)
qed

lemma length_stored: "json_ok (JObj m) \<Longrightarrow> length (parseRunWatchByScope (load_value (table_json m))) \<le> length m"
  using length_parse [of "map (\<lambda>p. (fst p, json_clean (snd p))) (filter (\<lambda>p. snd p \<noteq> JUndef) (js_entries m))"]
    length_filter_le [of "\<lambda>p. snd p \<noteq> JUndef" "js_entries m"]
  by (simp add: load_table)

text \<open>An entry that can be followed again: a record of the job with its cursor, not expired.\<close>

definition resumable :: "rat \<Rightarrow> string \<Rightarrow> nat \<Rightarrow> jsval jsobj \<Rightarrow> bool" where
  "resumable now j c qs =
     (obj_get qs ''job_id'' = JStr j \<and> obj_get qs ''cursor'' = JNum (Fin (of_nat c)) \<and> fresh_job now JOB_STORE_TTL_MS (JObj qs) \<and>
      (\<forall>n. obj_get qs ''updated_unix_ms'' = JNum n \<longrightarrow> is_finite n))"

lemma json_ok_put: "json_ok (JObj qs) \<Longrightarrow> json_ok v \<Longrightarrow> json_ok (JObj (obj_put qs k v))"
  by (auto simp: distinct_update intro: list_all_put)

lemma json_ok_member:
  assumes "json_ok (JObj m)" "map_of m k = Some v"
  shows "json_ok v"
proof -
  have "(k, v) \<in> set m" using assms(2) by (rule map_of_SomeD)
  with assms(1) show ?thesis by (auto simp: list_all_iff)
qed

lemma length_put_old: "map_of m k \<noteq> None \<Longrightarrow> length (obj_put m k v) = length m"
  by (induction m) (auto split: if_splits)

lemma save_cursor_resumable:
  assumes m: "json_ok (JObj m)" "map_of m key = Some (JObj qs)"
    and qs: "obj_get qs ''job_id'' = JStr j" "fresh_job now' JOB_STORE_TTL_MS (JObj qs)"
      "\<And>n. obj_get qs ''updated_unix_ms'' = JNum n \<Longrightarrow> is_finite n"
    and c: "json_ok (JNum (Fin (of_nat c)))" "json_ok (JNum (Fin now))" "now' - now \<le> JOB_STORE_TTL_MS"
  shows "\<exists>qs'. map_of (save_cursor now j key (Fin (of_nat c)) m) key = Some (JObj qs') \<and> json_ok (JObj qs') \<and> resumable now' j c qs' \<and>
      json_ok (JObj (save_cursor now j key (Fin (of_nat c)) m)) \<and> length (save_cursor now j key (Fin (of_nat c)) m) = length m"
proof (cases "obj_get qs ''cursor'' = JNum (Fin (of_nat c))")
  case True
  have "json_ok (JObj qs)" using m by (rule json_ok_member)
  with True m qs show ?thesis by (simp add: save_cursor_def obj_get.simps [of m] resumable_def)
next
  case False
  let ?qs = "obj_put (obj_put qs ''cursor'' (JNum (Fin (of_nat c)))) ''updated_unix_ms'' (JNum (Fin now))"
  have ok: "json_ok (JObj qs)" using m by (rule json_ok_member)
  have eq: "\<not> strict_eq (obj_get qs ''cursor'') (JNum (Fin (of_nat c)))" using False by (cases "obj_get qs ''cursor''") (auto simp: num_eq_def split: jsnum.splits)
  have s: "save_cursor now j key (Fin (of_nat c)) m = obj_put m key (JObj ?qs)"
    using m(2) qs(1) eq by (simp add: save_cursor_def obj_get.simps [of m])
  have ok': "json_ok (JObj ?qs)" using ok c(1,2) by (intro json_ok_put)
  have "resumable now' j c ?qs"
    using qs(1) c(3) by (simp add: resumable_def js_obj_simps fresh_job_def job_ts_def)
  moreover have "json_ok (JObj (obj_put m key (JObj ?qs)))" using m(1) ok' by (rule json_ok_put)
  ultimately show ?thesis
    using ok' m(2) by (simp add: s update_conv' length_put_old del: json_ok.simps)
qed

text \<open>The hypotheses on the stored table: an entry for the session's active job, not expired, in a table that is not full.\<close>

definition watching :: "watch_state \<Rightarrow> string \<Rightarrow> string \<Rightarrow> rat \<Rightarrow> bool" where
  "watching w key j now =
     (let m = parseRunWatchByScope (load_value (ws_json w)) in
      json_ok (JObj m) \<and> length m \<le> 64 \<and>
      (case map_of m key of
         Some (JObj qs) \<Rightarrow> obj_get qs ''job_id'' = JStr j \<and> fresh_job now JOB_STORE_TTL_MS (JObj qs) \<and>
           (case obj_get qs ''updated_unix_ms'' of JNum n \<Rightarrow> is_finite n | _ \<Rightarrow> True)
       | _ \<Rightarrow> False))"

lemma tick_table:
  assumes "jv_activeJobId v = Some j" "j \<noteq> []" "js_trim sid \<noteq> []"
  shows "ws_json (snd (cursor_tick canUse now sid key (v, w))) =
    table_json (save_cursor now j key (jv_cursor v) (parseRunWatchByScope (load_value (ws_json w))))"
  using assms by (simp add: cursor_tick_def writeJobsBySession_def scheduleRunWatchPersist_def Let_def)

lemma resumable_recorded:
  assumes "map_of jobs key = Some (json_clean (JObj qs))" "json_ok (JObj qs)" "resumable now j c qs" "j \<noteq> []"
  shows "recorded_job jobs key sid = Some (j, c)" "truthy (obj_get jobs key)"
proof -
  have "obj_get jobs key = json_clean (JObj qs)" using assms(1) by (simp add: obj_get.simps)
  moreover from this show "truthy (obj_get jobs key)" by simp
  moreover have "js_get (json_clean (JObj qs)) ''job_id'' = JStr j" "js_get (json_clean (JObj qs)) ''cursor'' = JNum (Fin (of_nat c))"
    using assms(2,3) get_clean [of qs] by (simp_all add: resumable_def)
  ultimately show "recorded_job jobs key sid = Some (j, c)"
    using assms(4) by (simp add: recorded_job_def js_or_def del: json_clean.simps js_get.simps)
qed

lemma stored_resumable:
  assumes "json_ok (JObj m)" "length m \<le> 64" "map_of m key = Some (JObj qs)" "json_ok (JObj qs)" "resumable now j c qs"
    and "ws_json w = table_json m"
  shows "map_of (fst (parseJobsBySession now w)) key = Some (json_clean (JObj qs))"
proof -
  let ?jobs = "parseRunWatchByScope (load_value (table_json m))"
  have ne: "read_entry (json_clean (JObj qs)) \<noteq> JUndef"
  proof -
    have "js_get (json_clean (JObj qs)) ''job_id'' = JStr j" using assms(4,5) get_clean [of qs] by (simp add: resumable_def)
    then show ?thesis by (cases "json_clean (JObj qs)") (auto simp: read_entry_def split: list.split)
  qed
  have "map_of ?jobs key = Some (json_clean (JObj qs))"
    using parse_stored [OF assms(1), of key] assms(3) ne by (simp del: json_clean.simps)
  moreover have "job_ts (json_clean (JObj qs)) = job_ts (JObj qs)"
    by (rule job_ts_clean [OF assms(4)]) (use assms(5) in \<open>simp add: resumable_def\<close>)
  then have "live_job now JOB_STORE_TTL_MS (json_clean (JObj qs))"
    using assms(5) by (simp add: live_job_def fresh_job_def resumable_def isUnknownRecord_def)
  moreover have "length ?jobs \<le> 64" using length_stored [OF assms(1)] assms(2) by simp
  ultimately show ?thesis
    using prune_keeps [OF wf_parse] by (simp add: parseJobsBySession_def assms(6) Let_def)
qed

lemma resume_after_tick:
  assumes w: "watching w key j now'"
    and v: "jv_activeJobId v = Some j" "j \<noteq> []" "jv_cursor v = Fin (of_nat c)" "c < 10 ^ 18"
    and t: "json_ok (JNum (Fin now))" "now' - now \<le> JOB_STORE_TTL_MS" and sid: "js_trim sid \<noteq> []"
  shows "snd (restore_start canUse' now' None sid key (snd (cursor_tick canUse now sid key (v, w)))) = Some (j, c)"
proof -
  let ?m = "parseRunWatchByScope (load_value (ws_json w))" and ?w = "snd (cursor_tick canUse now sid key (v, w))"
  obtain qs where m: "json_ok (JObj ?m)" "length ?m \<le> 64" "map_of ?m key = Some (JObj qs)" "obj_get qs ''job_id'' = JStr j"
      "fresh_job now' JOB_STORE_TTL_MS (JObj qs)" "\<And>n. obj_get qs ''updated_unix_ms'' = JNum n \<Longrightarrow> is_finite n"
    using w by (auto simp: watching_def Let_def simp del: json_ok.simps map_of_eq_Some_iff split: option.splits jsval.splits)
  have c: "json_ok (JNum (Fin (of_nat c)))" using v(4) by simp
  obtain qs' where q: "map_of (save_cursor now j key (Fin (of_nat c)) ?m) key = Some (JObj qs')" "json_ok (JObj qs')" "resumable now' j c qs'"
      "json_ok (JObj (save_cursor now j key (Fin (of_nat c)) ?m))" "length (save_cursor now j key (Fin (of_nat c)) ?m) = length ?m"
    using save_cursor_resumable [OF m(1,3,4,5,6) c t] by blast
  have "map_of (fst (parseJobsBySession now' ?w)) key = Some (json_clean (JObj qs'))"
    by (rule stored_resumable [OF q(4) _ q(1,2,3)]) (use q(5) m(2) v tick_table [OF v(1,2) sid] in simp_all)
  from resumable_recorded [OF this q(2,3) v(2)] show ?thesis
    using sid by (simp add: restore_start_def Let_def case_prod_beta)
qed

section \<open>Writes to the server\<close>

text \<open>
  The writer as a state machine: tables are scheduled, the timer fires at its time, answers arrive. The last
  table handed over is remembered beside the state.
\<close>

inductive persists :: "bool \<Rightarrow> watch_state \<Rightarrow> run_watch_map option \<Rightarrow> bool"
  for canUse where
  init: "ws_timer w = None \<Longrightarrow> ws_pending w = None \<Longrightarrow> ws_sent w = [] \<Longrightarrow> persists canUse w None"
| schedule: "persists canUse w g \<Longrightarrow> ws_status w \<noteq> WError \<Longrightarrow> persists canUse (scheduleRunWatchPersist canUse now m w) (Some m)"
| refused: "persists canUse w g \<Longrightarrow> ws_status w = WError \<Longrightarrow> persists canUse (scheduleRunWatchPersist canUse now m w) g"
| timer: "persists canUse w g \<Longrightarrow> ws_timer w = Some t \<Longrightarrow> t \<le> now \<Longrightarrow> persists canUse (persist_timer canUse now w) g"
| answer: "persists canUse w g \<Longrightarrow> persists canUse (push_answer now ok w) g"

definition newest_table :: "watch_state \<Rightarrow> run_watch_map option" where
  "newest_table w = opt_orelse (ws_pending w) (if ws_sent w = [] then None else Some (snd (last (ws_sent w))))"


definition demo_watch :: watch_state where
  "demo_watch = \<lparr>ws_json = [], ws_status = WReady, ws_timer = None, ws_pending = None, ws_lastSentAt = 0, ws_sent = []\<rparr>"

definition sent_twice :: watch_state where
  "sent_twice = persist_timer True 6001 (scheduleRunWatchPersist True 6001 [(''b'', JNull)]
     (persist_timer True 6000 (scheduleRunWatchPersist True 6000 [(''a'', JNull)] demo_watch)))"

text \<open>The pause is counted from the last answer: while a request is under way a second one is sent at once.\<close>

lemma sent_twice_times: "ws_sent sent_twice = [(6000, [(''a'', JNull)]), (6001, [(''b'', JNull)])]"
  by (simp add: sent_twice_def persist_timer_def scheduleRunWatchPersist_def demo_watch_def)


end
