(* ===== verification/Run_Execution.thy ===== *)
theory Run_Execution
  imports Job_Stream Workflow_Defaults
begin

text \<open>
  \<^verbatim>\<open>src/ui/src/hooks/useRunExecution.ts\<close>: starting runs. The request is built from the run settings; a prompt given while a run is being started or
  a job is active waits in a queue, and the effect takes the head of the queue when
  both are over. One action stands for a submission, the effect, the settling of the mutation and the end
  of a job. The settings are the object of \<open>Workflow_Defaults\<close>.
\<close>

section \<open>Tool call limits\<close>

datatype run_error =
    LimitsJson string
  | LimitExpected string
  | LimitTool string
  | LimitValue string

definition run_limit_item :: "jsval \<Rightarrow> tool_limit option" where
  "run_limit_item item =
     (let record = safeObject item;
          tool = js_trim (case obj_get record ''tool'' of JStr s \<Rightarrow> s | _ \<Rightarrow> opt_or (as_str (obj_get record ''name'')) []);
          max_calls = js_Number (js_coalesce (js_coalesce (obj_get record ''max_calls'') (js_coalesce (obj_get record ''maxCalls'')
            (js_coalesce (obj_get record ''max'') (obj_get record ''limit'')))) (JNum NaN))
      in if tool = [] then None
         else case max_calls of Fin r \<Rightarrow> if r < 0 then None else Some (tool, \<lfloor>r\<rfloor>) | _ \<Rightarrow> None)"

definition run_limit_part :: "tool_limit list \<Rightarrow> string \<Rightarrow> run_error + tool_limit list" where
  "run_limit_part out part =
     (case js_index_of part ''='' of
        None \<Rightarrow> Inl (LimitExpected part)
      | Some eq \<Rightarrow>
          if eq = 0 then Inl (LimitExpected part)
          else
            let tool = js_trim (take eq part); rawLimit = js_Number_str (js_trim (drop (eq + 1) part)) in
            if tool = [] then Inl (LimitTool part)
            else case rawLimit of
                   Fin r \<Rightarrow> if r < 0 then Inl (LimitValue part) else Inr (AList.update tool \<lfloor>r\<rfloor> out)
                 | _ \<Rightarrow> Inl (LimitValue part))"

fun run_limit_parts :: "tool_limit list \<Rightarrow> string list \<Rightarrow> run_error + tool_limit list" where
  "run_limit_parts out [] = Inr out"
| "run_limit_parts out (p # ps) = (case run_limit_part out p of Inl e \<Rightarrow> Inl e | Inr out' \<Rightarrow> run_limit_parts out' ps)"

definition run_tool_limits :: "jsval \<Rightarrow> run_error + tool_limit list option" where
  "run_tool_limits raw =
     (let value = js_trim (js_String (js_coalesce raw (JStr []))) in
      if value = [] then Inr None
      else if js_starts_with value ''['' \<or> js_starts_with value ''{'' then
        (case json_parse value of
           None \<Rightarrow> Inl (LimitsJson value)
         | Some json \<Rightarrow> Inr (Some (List.map_filter run_limit_item (case json of JArr xs \<Rightarrow> xs | _ \<Rightarrow> [json]))))
      else
        case run_limit_parts [] (filter (\<lambda>x. x \<noteq> []) (map js_trim (js_split_run list_sep value))) of
          Inl e \<Rightarrow> Inl e
        | Inr out \<Rightarrow> Inr (if out \<noteq> [] then Some out else None))"

section \<open>The request\<close>

text \<open>A trimmed text field that is a non-negative number when it is not empty; and one read with \<^verbatim>\<open>Number\<close> directly.\<close>

definition parseNonNegativeNumber :: "jsval \<Rightarrow> jsval option" where
  "parseNonNegativeNumber raw =
     (let trimmed = js_trim (js_String (js_coalesce raw (JStr []))) in
      if trimmed = [] then None
      else case js_Number_str trimmed of Fin n \<Rightarrow> if n \<ge> 0 then Some (JNum (Fin n)) else None | _ \<Rightarrow> None)"

definition direct_number :: "(rat \<Rightarrow> bool) \<Rightarrow> jsval \<Rightarrow> jsval option" where
  "direct_number P raw = (case js_Number raw of Fin n \<Rightarrow> if P n then Some (JNum (Fin n)) else None | _ \<Rightarrow> None)"

definition trimmed_text :: "jsval \<Rightarrow> jsval option" where
  "trimmed_text v = (case v of JStr s \<Rightarrow> given (js_trim s \<noteq> []) (JStr (js_trim s)) | _ \<Rightarrow> None)"

record run_vars =
  vr_prompt :: string
  vr_attachments :: "jsval list"

definition input_file :: "jsval \<Rightarrow> jsval" where
  "input_file a = JObj [(''path'', js_get a ''path''), (''name'', js_get a ''name''), (''mime'', js_get a ''mime''), (''kind'', js_get a ''kind'')]"

definition run_base_fields :: "jsval jsobj \<Rightarrow> jsval jsobj \<Rightarrow> string \<Rightarrow> run_vars \<Rightarrow> tool_limit list option \<Rightarrow> (string \<times> jsval option) list" where
  "run_base_fields run client sessionId vars limits =
     [(''prompt'', Some (JStr (vr_prompt vars))),
      (''session_id'', given (sessionId \<noteq> []) (JStr sessionId)),
      (''no_session'', Some (JBool False)),
      (''input_files'', given (vr_attachments vars \<noteq> []) (JArr (map input_file (vr_attachments vars)))),
      (''client'', Some (JObj (obj_put client ''kind'' (JStr ''webui'')))),
      (''tools'', Some (obj_get run ''tools'')),
      (''host_policy'', given (obj_get run ''tools'' = JStr ''host'') (obj_get run ''hostPolicy'')),
      (''automation_profile'', given (obj_get run ''automationProfileValue'' \<noteq> JUndef) (obj_get run ''automationProfileValue'')),
      (''yolo'', Some (obj_get run ''yolo'')),
      (''verbose'', Some (obj_get run ''verbose'')),
      (''model'', truthy_field run ''model''),
      (''summary_model'', trimmed_text (obj_get run ''summaryModel'')),
      (''summary_max_chars'', direct_number (\<lambda>n. n \<ge> 0) (obj_get run ''summaryMaxChars'')),
      (''base_url'', truthy_field run ''baseUrl''),
      (''api_key'', truthy_field run ''apiKey''),
      (''proxy'', trimmed_text (obj_get run ''proxyUrl'')),
      (''timeout_ms'', direct_number (\<lambda>n. n > 0) (obj_get run ''timeoutMs'')),
      (''stream_assistant'', Some (obj_get run ''streamAssistant'')),
      (''max_capture_bytes'', direct_number (\<lambda>n. n \<ge> 0) (obj_get run ''maxCaptureBytes'')),
      (''max_steps'', parseNonNegativeNumber (obj_get run ''maxSteps'')),
      (''max_repeated_tool_calls'', direct_number (\<lambda>n. n \<ge> 0) (obj_get run ''maxRepeatedToolCalls'')),
      (''max_tool_calls_total'', parseNonNegativeNumber (obj_get run ''maxToolCallsTotal'')),
      (''max_tool_calls_per_tool'', parseNonNegativeNumber (obj_get run ''maxToolCallsPerTool'')),
      (''tool_call_limits'', map_option limits_value limits),
      (''max_chars'', Some (opt_or (direct_number (\<lambda>_. True) (obj_get run ''maxChars'')) (JNum (Fin 20000)))),
      (''keep_last'', Some (opt_or (direct_number (\<lambda>_. True) (obj_get run ''keepLast'')) (JNum (Fin 16)))),
      (''trace'', Some (obj_get run ''trace''))]"

definition run_memory_fields :: "jsval jsobj \<Rightarrow> (string \<times> jsval option) list" where
  "run_memory_fields run =
     [(''memory_context_mode'', Some (if obj_get run ''memoryContextMode'' \<in> {JStr ''search'', JStr ''index'', JStr ''salience''}
         then obj_get run ''memoryContextMode'' else JStr ''files'')),
      (''memory_include_structured'', Some (obj_get run ''memoryIncludeStructured'')),
      (''memory_include_core'', Some (obj_get run ''memoryIncludeCore'')),
      (''memory_include_daily'', Some (obj_get run ''memoryIncludeDaily'')),
      (''memory_include_session'', Some (obj_get run ''memoryIncludeSession'')),
      (''memory_daily_days'', parseNonNegativeNumber (obj_get run ''memoryDailyDays'')),
      (''memory_total_cap'', parseNonNegativeNumber (obj_get run ''memoryTotalCap'')),
      (''memory_search_query'', trimmed_text (obj_get run ''memorySearchQuery'')),
      (''memory_search_use_index'', Some (obj_get run ''memorySearchUseIndex'')),
      (''memory_search_case_sensitive'', Some (obj_get run ''memorySearchCaseSensitive'')),
      (''memory_search_fallback_to_files'', Some (obj_get run ''memorySearchFallbackToFiles'')),
      (''memory_search_order'', given (obj_get run ''memorySearchOrder'' \<in> {JStr ''newest'', JStr ''oldest''}) (obj_get run ''memorySearchOrder'')),
      (''memory_search_max_results'', parseNonNegativeNumber (obj_get run ''memorySearchMaxResults'')),
      (''memory_search_max_snippet_chars'', parseNonNegativeNumber (obj_get run ''memorySearchMaxSnippetChars'')),
      (''memory_search_context_lines'', parseNonNegativeNumber (obj_get run ''memorySearchContextLines''))]"

definition buildRunRequest :: "jsval jsobj \<Rightarrow> jsval jsobj \<Rightarrow> string \<Rightarrow> run_vars \<Rightarrow> run_error + jsval jsobj" where
  "buildRunRequest run client sessionId vars =
     (case run_tool_limits (obj_get run ''toolCallLimits'') of
        Inl e \<Rightarrow> Inl e
      | Inr limits \<Rightarrow> Inr (obj_of_opts (run_base_fields run client sessionId vars limits
          @ (if obj_get run ''tools'' = JStr ''host'' then run_memory_fields run else []))))"

section \<open>The queue\<close>

record QueuedRun =
  qr_prompt :: string
  qr_attachments :: "jsval list"
  qr_queued_unix_ms :: rat

text \<open>The mutation under way, if any: what it runs, and the entry it was taken from when it came from the queue.\<close>

record run_state =
  rx_queue :: "QueuedRun list"
  rx_pending :: "(run_vars \<times> QueuedRun option) option"
  rx_dequeueInFlight :: bool
  rx_prompt :: string
  rx_composerTaskNonce :: nat
  rx_lastRunPrompt :: string
  rx_view :: job_view

record RunAsyncResp =
  ra_ok :: bool
  ra_job_id :: "string option"
  ra_error :: "string option"

datatype run_outcome =
    SyncDone jsval
  | AsyncDone RunAsyncResp
  | RunFailed string

definition enqueueRun :: "rat \<Rightarrow> run_vars \<Rightarrow> run_state \<Rightarrow> run_state" where
  "enqueueRun now vars rx =
     (let trimmed = js_trim (vr_prompt vars) in
      if trimmed = [] \<and> vr_attachments vars = []
      then rx\<lparr>rx_view := (rx_view rx)\<lparr>jv_jobNotice := Some ''prompt or attachment required''\<rparr>\<rparr>
      else rx\<lparr>rx_queue := rx_queue rx @ [\<lparr>qr_prompt = trimmed, qr_attachments = vr_attachments vars, qr_queued_unix_ms = now\<rparr>],
              rx_prompt := [], rx_composerTaskNonce := rx_composerTaskNonce rx + 1,
              rx_view := (rx_view rx)\<lparr>jv_jobNotice := Some ''queued''\<rparr>\<rparr>)"

definition run_busy :: "run_state \<Rightarrow> bool" where
  "run_busy rx = (opt_or (jv_activeJobId (rx_view rx)) [] \<noteq> [] \<or> rx_pending rx \<noteq> None)"

definition handleDirectRunRequest :: "rat \<Rightarrow> run_vars \<Rightarrow> run_state \<Rightarrow> run_state" where
  "handleDirectRunRequest now vars rx =
     (if run_busy rx then enqueueRun now vars rx else rx\<lparr>rx_pending := Some (vars, None)\<rparr>)"

definition dequeue_effect :: "run_state \<Rightarrow> run_state" where
  "dequeue_effect rx =
     (if run_busy rx \<or> rx_dequeueInFlight rx then rx
      else case rx_queue rx of
             [] \<Rightarrow> rx
           | q # qs \<Rightarrow>
               rx\<lparr>rx_dequeueInFlight := True, rx_queue := qs,
                  rx_pending := Some (\<lparr>vr_prompt = qr_prompt q, vr_attachments = qr_attachments q\<rparr>, Some q)\<rparr>)"

definition run_sync_done :: "run_vars \<Rightarrow> jsval \<Rightarrow> run_state \<Rightarrow> run_state" where
  "run_sync_done vars out rx =
     rx\<lparr>rx_composerTaskNonce := rx_composerTaskNonce rx + 1, rx_lastRunPrompt := vr_prompt vars,
        rx_view := (rx_view rx)\<lparr>jv_lastRunPrompt := vr_prompt vars, jv_lastCompletedPrompt := vr_prompt vars, jv_result := Some out,
          jv_liveEvents := [], jv_jobError := None, jv_jobNotice := None, jv_jobStatus := None, jv_jobUpdatedMs := None,
          jv_refetches := jv_refetches (rx_view rx) + 2\<rparr>\<rparr>"

definition started_entry :: "rat \<Rightarrow> string \<Rightarrow> jsval" where
  "started_entry now jobId = JObj [(''job_id'', JStr jobId), (''cursor'', JNum (Fin 0)), (''started_unix_ms'', JNum (Fin now))]"

definition run_async_done :: "rat \<Rightarrow> string \<Rightarrow> string \<Rightarrow> run_vars \<Rightarrow> RunAsyncResp \<Rightarrow> run_state \<Rightarrow> run_state" where
  "run_async_done now sessionId key vars job rx =
     (if \<not> ra_ok job \<or> opt_or (ra_job_id job) [] = []
      then rx\<lparr>rx_view := (rx_view rx)\<lparr>jv_jobError := Some (opt_or (ra_error job) ''failed to start async job''), jv_jobNotice := None\<rparr>\<rparr>
      else
        let jobId = opt_or (ra_job_id job) [];
            v = (rx_view rx)\<lparr>jv_lastRunPrompt := vr_prompt vars, jv_jobError := None, jv_jobNotice := None, jv_jobUpdatedMs := None,
                  jv_liveEvents := [], jv_cursor := Fin (of_nat 0), jv_activeJobId := Some jobId, jv_jobStatus := Some ''queued''\<rparr>
        in rx\<lparr>rx_composerTaskNonce := rx_composerTaskNonce rx + 1, rx_lastRunPrompt := vr_prompt vars,
              rx_view := (if js_trim sessionId \<noteq> [] then v\<lparr>jv_jobs := obj_put (jv_jobs v) key (started_entry now jobId)\<rparr> else v)\<rparr>)"

text \<open>The mutation settles: its own callbacks first, then those of the queue.\<close>

definition run_settled :: "rat \<Rightarrow> string \<Rightarrow> string \<Rightarrow> run_outcome \<Rightarrow> run_state \<Rightarrow> run_state" where
  "run_settled now sessionId key outcome rx =
     (case rx_pending rx of
        None \<Rightarrow> rx
      | Some (vars, from) \<Rightarrow>
          let rx1 = rx\<lparr>rx_pending := None, rx_dequeueInFlight := (if from = None then rx_dequeueInFlight rx else False)\<rparr>
          in case outcome of
               SyncDone out \<Rightarrow> run_sync_done vars out rx1
             | AsyncDone job \<Rightarrow> run_async_done now sessionId key vars job rx1
             | RunFailed e \<Rightarrow>
                 let rx2 = rx1\<lparr>rx_view := (rx_view rx1)\<lparr>jv_jobError := Some (''run failed: '' @ e), jv_jobNotice := None\<rparr>\<rparr>
                 in case from of
                      None \<Rightarrow> rx2
                    | Some q \<Rightarrow> rx2\<lparr>rx_view := (rx_view rx2)\<lparr>jv_jobNotice := Some (''queued run failed: '' @ e)\<rparr>,
                                    rx_queue := q # rx_queue rx2\<rparr>)"

section \<open>Strict and lenient limits\<close>

definition limit_texts :: "string \<Rightarrow> string list" where
  "limit_texts raw = filter (\<lambda>x. x \<noteq> []) (map js_trim (js_split_run list_sep (js_trim raw)))"

text \<open>The error of a malformed entry, whatever was read before it.\<close>

definition limit_error :: "string \<Rightarrow> run_error option" where
  "limit_error p = (case run_limit_part [] p of Inl e \<Rightarrow> Some e | Inr _ \<Rightarrow> None)"

lemma run_limit_part_error:
  "run_limit_part out p = (case limit_error p of Some e \<Rightarrow> Inl e | None \<Rightarrow> Inr (limit_part out p))"
  "limit_error p \<noteq> None \<Longrightarrow> limit_part out p = out"
  by (auto simp: run_limit_part_def limit_error_def limit_part_def Let_def split: option.split jsnum.split)

lemma run_limit_parts_eq:
  "run_limit_parts out ps =
     (case List.map_filter limit_error ps of e # _ \<Rightarrow> Inl e | [] \<Rightarrow> Inr (foldl limit_part out ps))"
  by (induction ps arbitrary: out) (simp_all add: run_limit_part_error map_filter_simps split: option.split list.split)

lemma foldl_limit_ok: "foldl limit_part out (filter (\<lambda>p. limit_error p = None) ps) = foldl limit_part out ps"
  by (induction ps arbitrary: out) (auto simp: run_limit_part_error(2))



section \<open>The queue is first in, first out\<close>

text \<open>What the mutation under way took from the queue, if it did.\<close>

definition in_flight :: "run_state \<Rightarrow> QueuedRun list" where
  "in_flight rx = (case rx_pending rx of Some (_, Some q) \<Rightarrow> [q] | _ \<Rightarrow> [])"

definition run_answered :: "run_outcome \<Rightarrow> bool" where
  "run_answered outcome = (case outcome of RunFailed _ \<Rightarrow> False | _ \<Rightarrow> True)"

text \<open>The runs of the hook, with the entries ever accepted into the queue and those whose request was answered.\<close>

inductive queue_runs :: "string \<Rightarrow> string \<Rightarrow> run_state \<Rightarrow> QueuedRun list \<Rightarrow> QueuedRun list \<Rightarrow> bool"
  for sessionId key where
  empty: "rx_queue rx = [] \<Longrightarrow> rx_pending rx = None \<Longrightarrow> \<not> rx_dequeueInFlight rx \<Longrightarrow> queue_runs sessionId key rx [] []"
| submit: "queue_runs sessionId key rx acc ans \<Longrightarrow> rx' = handleDirectRunRequest now vars rx \<Longrightarrow>
    queue_runs sessionId key rx' (acc @ drop (length (rx_queue rx)) (rx_queue rx')) ans"
| effect: "queue_runs sessionId key rx acc ans \<Longrightarrow> queue_runs sessionId key (dequeue_effect rx) acc ans"
| settled: "queue_runs sessionId key rx acc ans \<Longrightarrow>
    queue_runs sessionId key (run_settled now sessionId key outcome rx) acc (if run_answered outcome then ans @ in_flight rx else ans)"
| elsewhere: "queue_runs sessionId key rx acc ans \<Longrightarrow> queue_runs sessionId key (rx\<lparr>rx_view := v, rx_prompt := p\<rparr>) acc ans"

lemma submit_queue:
  "\<exists>new. rx_queue (handleDirectRunRequest now vars rx) = rx_queue rx @ new \<and> in_flight (handleDirectRunRequest now vars rx) = in_flight rx"
  "rx_dequeueInFlight (handleDirectRunRequest now vars rx) = rx_dequeueInFlight rx"
  by (cases "rx_pending rx"; auto simp: handleDirectRunRequest_def enqueueRun_def run_busy_def in_flight_def Let_def)+

lemma async_done_queue [simp]:
  "rx_queue (run_async_done now sessionId key vars job rx) = rx_queue rx" "rx_pending (run_async_done now sessionId key vars job rx) = rx_pending rx"
  "rx_dequeueInFlight (run_async_done now sessionId key vars job rx) = rx_dequeueInFlight rx"
  by (simp_all add: run_async_done_def Let_def)

lemma sync_done_queue [simp]:
  "rx_queue (run_sync_done vars out rx) = rx_queue rx" "rx_pending (run_sync_done vars out rx) = rx_pending rx"
  "rx_dequeueInFlight (run_sync_done vars out rx) = rx_dequeueInFlight rx"
  by (simp_all add: run_sync_done_def)

lemma settled_queue:
  assumes "rx_dequeueInFlight rx \<longleftrightarrow> in_flight rx \<noteq> []"
  shows "(if run_answered outcome then in_flight rx else []) @ in_flight (run_settled now sessionId key outcome rx) @ rx_queue (run_settled now sessionId key outcome rx)
      = in_flight rx @ rx_queue rx"
    and "\<not> rx_dequeueInFlight (run_settled now sessionId key outcome rx) \<and> in_flight (run_settled now sessionId key outcome rx) = []"
  using assms
  by (auto simp: run_settled_def in_flight_def run_answered_def Let_def split: option.splits run_outcome.splits)

text \<open>
  C5. Queued prompts are neither lost nor repeated nor reordered: the entries whose request was answered, the one being started and those still waiting
  are, in this order, exactly the entries ever accepted. A queued run that fails is back at the head of
  the queue, and unless a job has become active the effect starts it again at once.
\<close>

theorem run_queue_fifo:
  assumes "queue_runs sessionId key rx acc ans"
  shows "ans @ in_flight rx @ rx_queue rx = acc \<and> (rx_dequeueInFlight rx \<longleftrightarrow> in_flight rx \<noteq> []) \<and>
    (\<forall>q e now. in_flight rx = [q] \<and> opt_or (jv_activeJobId (rx_view rx)) [] = [] \<longrightarrow>
       in_flight (dequeue_effect (run_settled now sessionId key (RunFailed e) rx)) = [q])"
proof -
  have inv: "ans @ in_flight rx @ rx_queue rx = acc \<and> (rx_dequeueInFlight rx \<longleftrightarrow> in_flight rx \<noteq> [])"
    using assms
  proof induction
    case (submit rx acc ans rx' now vars)
    then show ?case using submit_queue [of now vars rx] by auto
  next
    case (effect rx acc ans)
    then show ?case by (auto simp: dequeue_effect_def run_busy_def in_flight_def split: list.split)
  next
    case (settled rx acc ans now outcome)
    then show ?case using settled_queue [where rx = rx and outcome = outcome and now = now and sessionId = sessionId and key = key] by (auto split: if_splits)
  qed (simp_all add: in_flight_def)
  moreover have "in_flight (dequeue_effect (run_settled now sessionId key (RunFailed e) rx)) = [q]"
    if "in_flight rx = [q]" "opt_or (jv_activeJobId (rx_view rx)) [] = []" for q e now
    using that by (auto simp: run_settled_def dequeue_effect_def run_busy_def in_flight_def Let_def split: option.splits)
  ultimately show ?thesis by blast
qed

definition demo_entry :: QueuedRun where
  "demo_entry = \<lparr>qr_prompt = ''p'', qr_attachments = [], qr_queued_unix_ms = 5\<rparr>"

definition demo_run_state :: run_state where
  "demo_run_state = \<lparr>rx_queue = [], rx_pending = None, rx_dequeueInFlight = False, rx_prompt = [], rx_composerTaskNonce = 0,
     rx_lastRunPrompt = [], rx_view = demo_view\<rparr>"

text \<open>A prompt is queued while a job is active, the job ends, and the effect starts the run.\<close>

theorem run_queue_fifo_witness:
  "\<exists>rx. queue_runs ''s'' ''k'' rx [demo_entry] [] \<and> in_flight rx = [demo_entry] \<and>
     in_flight (dequeue_effect (run_settled 6 ''s'' ''k'' (RunFailed ''e'') rx)) = [demo_entry]"
proof -
  let ?vars = "\<lparr>vr_prompt = '' p'', vr_attachments = []\<rparr>"
  let ?rx1 = "handleDirectRunRequest 5 ?vars demo_run_state"
  let ?rx = "dequeue_effect (?rx1\<lparr>rx_view := demo_view\<lparr>jv_activeJobId := None\<rparr>, rx_prompt := []\<rparr>)"
  have t: "js_trim '' p'' = ''p''" by code_simp
  have q: "rx_queue ?rx1 = [demo_entry]" "rx_pending ?rx1 = None" "\<not> rx_dequeueInFlight ?rx1"
    by (simp_all add: handleDirectRunRequest_def run_busy_def enqueueRun_def demo_run_state_def demo_view_def demo_entry_def t Let_def)
  have "queue_runs ''s'' ''k'' demo_run_state [] []" by (rule queue_runs.empty) (simp_all add: demo_run_state_def)
  from queue_runs.submit [OF this refl, of 5 ?vars] have "queue_runs ''s'' ''k'' ?rx1 [demo_entry] []"
    using q by (simp add: demo_run_state_def)
  then have r: "queue_runs ''s'' ''k'' ?rx [demo_entry] []" by (intro queue_runs.effect queue_runs.elsewhere)
  moreover have i: "in_flight ?rx = [demo_entry]" "opt_or (jv_activeJobId (rx_view ?rx)) [] = []"
    using q by (simp_all add: dequeue_effect_def run_busy_def in_flight_def)
  ultimately show ?thesis using run_queue_fifo [OF r] by blast
qed

end
