(* ===== verification/Conversation_Data.thy ===== *)
theory Conversation_Data
  imports Json_Utils
begin

text \<open>
  \<^verbatim>\<open>src/ui/src/components/conversation/conversationData.ts\<close>: what the conversation view reads out of an agent's events. A requested
  user interface action is parsed into a remote procedure call with its permissions; the arguments of
  \<^verbatim>\<open>entity_apply\<close> become operations on the scene; tool calls are summarised; payloads sent back are capped.
\<close>

section \<open>Actions\<close>

definition RPC_SIDE_EFFECT_KINDS :: "string list" where
  "RPC_SIDE_EFFECT_KINDS =
     [''dom_click'', ''dom_set_value'', ''dom_apply'', ''entity_apply'', ''media_play'', ''media_pause'', ''media_observe'',
      ''navigate'', ''open_url'', ''page_eval'']"

definition conv_trimmed :: "jsval \<Rightarrow> string" where
  "conv_trimmed v = (case v of JStr s \<Rightarrow> js_trim s | _ \<Rightarrow> [])"

definition asStringArray :: "jsval \<Rightarrow> string list" where
  "asStringArray v = (case v of JArr xs \<Rightarrow> filter (\<lambda>s. s \<noteq> []) (map (\<lambda>x. opt_or (as_str x) []) xs) | _ \<Rightarrow> [])"

definition getNormalizedEventRecord :: "jsval \<Rightarrow> jsval jsobj" where
  "getNormalizedEventRecord data = safeObject (normalizeEventData data)"

record ParsedConversationUiAction =
  ua_raw :: "jsval jsobj"
  ua_action :: "jsval jsobj"
  ua_atype :: string
  ua_title :: string
  ua_toolCallId :: string
  ua_queryId :: string
  ua_rpc :: "jsval jsobj"
  ua_rpcId :: string
  ua_rpcKind :: string
  ua_rpcArgs :: "jsval jsobj"
  ua_sideEffectsRequested :: bool
  ua_autoRunRequested :: bool

definition auto_run_flag :: "jsval jsobj \<Rightarrow> bool" where
  "auto_run_flag action =
     (case obj_get action ''auto_run'' of
        JBool b \<Rightarrow> b
      | _ \<Rightarrow> (case obj_get action ''auto'' of JBool b \<Rightarrow> b | _ \<Rightarrow> True))"

definition parseConversationUiAction :: "jsval \<Rightarrow> ParsedConversationUiAction" where
  "parseConversationUiAction value =
     (let raw = safeObject value;
          action = safeObject (obj_get raw ''action'');
          atype = conv_trimmed (obj_get action ''type'');
          title = str_or (conv_trimmed (obj_get action ''title'')) (if atype \<noteq> [] then ''ui_action: '' @ atype else ''ui_action'');
          toolCallId = conv_trimmed (obj_get raw ''tool_call_id'');
          rpc = safeObject (js_coalesce (obj_get action ''rpc'') (obj_get action ''probe''));
          rpcKind = conv_trimmed (obj_get rpc ''kind'')
      in \<lparr>ua_raw = raw, ua_action = action, ua_atype = atype, ua_title = title, ua_toolCallId = toolCallId,
          ua_queryId = str_or (conv_trimmed (obj_get action ''query_id'')) toolCallId,
          ua_rpc = rpc,
          ua_rpcId = str_or (conv_trimmed (obj_get action ''rpc_id'')) (str_or (conv_trimmed (obj_get action ''probe_id'')) toolCallId),
          ua_rpcKind = rpcKind,
          ua_rpcArgs = safeObject (js_coalesce (obj_get rpc ''args'') (JObj rpc)),
          ua_sideEffectsRequested =
            (obj_get rpc ''side_effects'' = JBool True \<or> obj_get action ''side_effects'' = JBool True \<or> List.member RPC_SIDE_EFFECT_KINDS rpcKind),
          ua_autoRunRequested = auto_run_flag action\<rparr>)"

record ConversationUiActionRpcRequest =
  rq_atype :: string
  rq_title :: string
  rq_toolCallId :: string
  rq_rpcId :: string
  rq_rpcKind :: string
  rq_rpcArgs :: "jsval jsobj"
  rq_sideEffectsRequested :: bool
  rq_autoRunRequested :: bool
  rq_canRun :: bool
  rq_canRunAuto :: bool
  rq_autoRun :: bool

text \<open>The session is absent or a text.\<close>

definition deriveConversationRpcRequest :: "jsval \<Rightarrow> string option \<Rightarrow> bool \<Rightarrow> bool \<Rightarrow> ConversationUiActionRpcRequest" where
  "deriveConversationRpcRequest value sessionId allowClientRpcs allowClientEffects =
     (let parsed = parseConversationUiAction value;
          canRunAuto = (allowClientRpcs \<and> (\<not> ua_sideEffectsRequested parsed \<or> allowClientEffects))
      in \<lparr>rq_atype = ua_atype parsed, rq_title = ua_title parsed, rq_toolCallId = ua_toolCallId parsed, rq_rpcId = ua_rpcId parsed,
          rq_rpcKind = ua_rpcKind parsed, rq_rpcArgs = ua_rpcArgs parsed,
          rq_sideEffectsRequested = ua_sideEffectsRequested parsed, rq_autoRunRequested = ua_autoRunRequested parsed,
          rq_canRun = (ua_rpcId parsed \<noteq> [] \<and> js_trim (opt_or sessionId []) \<noteq> []),
          rq_canRunAuto = canRunAuto, rq_autoRun = (canRunAuto \<and> ua_autoRunRequested parsed)\<rparr>)"

section \<open>Operations on the scene\<close>

datatype SceneEntityMutationOp =
    CreateOp "string option" string "string option" "jsval jsobj"
  | UpdateOp string "jsval jsobj"
  | DeleteOp string string
  | ActionOp string string "jsval jsobj"
  | ClearOp "string option"

definition non_empty :: "string \<Rightarrow> string option" where
  "non_empty s = (if s \<noteq> [] then Some s else None)"

definition entity_op :: "jsval \<Rightarrow> SceneEntityMutationOp list" where
  "entity_op item =
     (let op = safeObject item;
          kind = str_or (conv_trimmed (obj_get op ''op'')) (conv_trimmed (obj_get op ''kind''));
          i = conv_trimmed (obj_get op ''id'')
      in if kind = ''create'' then
           (let entityKind = str_or (conv_trimmed (obj_get op ''entity_kind'')) (conv_trimmed (obj_get op ''entityKind'')) in
            if entityKind = [] then []
            else [CreateOp (non_empty i) entityKind (non_empty (conv_trimmed (obj_get op ''title''))) (safeObject (obj_get op ''props''))])
         else if kind = ''update'' then (if i = [] then [] else [UpdateOp i (safeObject (obj_get op ''props''))])
         else if kind = ''delete'' \<or> kind = ''remove'' then (if i = [] then [] else [DeleteOp kind i])
         else if kind = ''action'' then
           (let action = conv_trimmed (obj_get op ''action'') in
            if i = [] \<or> action = [] then [] else [ActionOp i action (safeObject (obj_get op ''args''))])
         else if kind = ''clear'' then [ClearOp (non_empty (conv_trimmed (obj_get op ''color'')))]
         else [])"

text \<open>The first non-empty text among some properties.\<close>

definition first_text :: "jsval jsobj \<Rightarrow> string list \<Rightarrow> string" where
  "first_text ps ks = foldr (\<lambda>k rest. str_or (conv_trimmed (obj_get ps k)) rest) ks []"

definition entity_action :: "string \<Rightarrow> jsval \<Rightarrow> SceneEntityMutationOp list" where
  "entity_action i actionValue =
     (let action = safeObject actionValue;
          name = safeTrunc (first_text action [''name'', ''action'', ''kind'']) 80
      in if name = [] then [] else [ActionOp i name (safeObject (js_coalesce (obj_get action ''args'') (JObj action)))])"

definition entity_ops :: "jsval \<Rightarrow> SceneEntityMutationOp list" where
  "entity_ops entityValue =
     (let entity = safeObject entityValue;
          i = safeTrunc (conv_trimmed (obj_get entity ''id'')) 200;
          entityKind = safeTrunc (first_text entity [''entity_kind'', ''entityKind'', ''type'', ''kind'']) 100
      in if i = [] \<or> entityKind = [] then []
         else CreateOp (Some i) entityKind (non_empty (conv_trimmed (obj_get entity ''title'')))
                (safeObject (js_coalesce (obj_get entity ''props'') (JObj entity)))
              # concat (map (entity_action i) (take 20 (opt_or (as_arr (obj_get entity ''actions'')) []))))"

definition single_action :: "string \<Rightarrow> jsval \<Rightarrow> SceneEntityMutationOp list" where
  "single_action i actionValue =
     (let action = safeObject actionValue;
          name = safeTrunc (first_text action [''name'', ''action'']) 80
      in if name = [] then [] else [ActionOp i name (safeObject (obj_get action ''args''))])"

definition single_entity_ops :: "jsval jsobj \<Rightarrow> SceneEntityMutationOp list" where
  "single_entity_ops args =
     (let i = safeTrunc (conv_trimmed (obj_get args ''id'')) 200;
          entityKind = safeTrunc (first_text args [''entity_kind'', ''entityKind'', ''type'', ''kind'']) 100;
          props = safeObject (obj_get args ''props'');
          title = str_or (safeTrunc (conv_trimmed (obj_get args ''title'')) 200) (conv_trimmed (obj_get props ''title''));
          singleAction = safeTrunc (conv_trimmed (obj_get args ''action'')) 80
      in (if i \<noteq> [] \<and> entityKind \<noteq> [] \<and> (props \<noteq> [] \<or> title \<noteq> []) then [CreateOp (Some i) entityKind (non_empty title) props]
          else if i \<noteq> [] \<and> props \<noteq> [] then [UpdateOp i props] else [])
         @ concat (map (single_action i) (take 20 (opt_or (as_arr (obj_get args ''actions'')) [])))
         @ (if singleAction \<noteq> [] \<and> i \<noteq> [] then [ActionOp i singleAction (safeObject (obj_get args ''args''))] else [])
         @ (if i \<noteq> [] \<and> (obj_get args ''delete'' = JBool True \<or> obj_get args ''remove'' = JBool True) then [DeleteOp ''delete'' i] else [])
         @ (if obj_get args ''clear'' = JBool True then [ClearOp None] else []))"

definition buildEntityApplyOps :: "jsval \<Rightarrow> SceneEntityMutationOp list" where
  "buildEntityApplyOps value =
     (let args = safeObject value in
      case obj_get args ''ops'' of
        JArr items \<Rightarrow> concat (map entity_op items)
      | _ \<Rightarrow> (case obj_get args ''entities'' of
                JArr es \<Rightarrow> concat (map entity_ops (take 50 es))
              | _ \<Rightarrow> single_entity_ops args))"

text \<open>The object an operation is in memory; an absent optional property reads as undefined.\<close>

definition op_value :: "SceneEntityMutationOp \<Rightarrow> jsval" where
  "op_value p =
     (case p of
        CreateOp i k t ps \<Rightarrow> JObj (obj_of_opts [(''op'', Some (JStr ''create'')), (''id'', map_option JStr i), (''entity_kind'', Some (JStr k)),
          (''title'', map_option JStr t), (''props'', Some (JObj ps))])
      | UpdateOp i ps \<Rightarrow> JObj [(''op'', JStr ''update''), (''id'', JStr i), (''props'', JObj ps)]
      | DeleteOp k i \<Rightarrow> JObj [(''op'', JStr k), (''id'', JStr i)]
      | ActionOp i a ps \<Rightarrow> JObj [(''op'', JStr ''action''), (''id'', JStr i), (''action'', JStr a), (''args'', JObj ps)]
      | ClearOp c \<Rightarrow> JObj (obj_of_opts [(''op'', Some (JStr ''clear'')), (''color'', map_option JStr c)]))"

section \<open>Payloads and tool calls\<close>

text \<open>A value without a JSON text has no length, so reading it throws.\<close>

definition capEventPayload :: "jsval \<Rightarrow> jsval" where
  "capEventPayload value =
     (case json_compact value of
        None \<Rightarrow> JObj [(''kind'', JStr ''unserializable'')]
      | Some serialized \<Rightarrow>
          if length serialized \<le> 32 * 1024 then value
          else JObj [(''kind'', JStr ''truncated''), (''bytes'', JNum (Fin (of_nat (length serialized)))), (''preview'', JStr (take 2000 serialized))])"

definition extractToolCallArgumentsText :: "jsval jsobj \<Rightarrow> string" where
  "extractToolCallArgumentsText data =
     (case obj_get data ''arguments_json'' of
        JStr s \<Rightarrow> s
      | _ \<Rightarrow> if safeObject (obj_get data ''arguments'') \<noteq> [] then opt_or (json_compact (obj_get data ''arguments'')) []
            else if safeObject (obj_get data ''args'') \<noteq> [] then opt_or (json_compact (obj_get data ''args'')) []
            else [])"

record ConversationToolCallPreview =
  tp_label :: string
  tp_value :: string

definition buildToolCallPreviewFromArgs :: "string \<Rightarrow> string \<Rightarrow> ConversationToolCallPreview option" where
  "buildToolCallPreviewFromArgs toolName argsText =
     (let rec = safeObject (if argsText \<noteq> [] then safeJsonParse argsText else JNull) in
      if toolName = ''shell_exec'' then
        (let cmd = conv_trimmed (obj_get rec ''cmd'') in if cmd \<noteq> [] then Some \<lparr>tp_label = ''cmd'', tp_value = cmd\<rparr> else None)
      else if toolName = ''proc_exec'' then
        (let argv = js_join '' '' (asStringArray (obj_get rec ''argv'')) in if argv \<noteq> [] then Some \<lparr>tp_label = ''argv'', tp_value = argv\<rparr> else None)
      else None)"

record tool_call_summary =
  ts_cmd :: "string option"
  ts_argv :: "string option"

definition summary_step :: "tool_call_summary jsobj \<Rightarrow> jsval \<Rightarrow> tool_call_summary jsobj" where
  "summary_step summaries event =
     (let data = getNormalizedEventRecord (js_get event ''data'');
          toolCallId = conv_trimmed (obj_get data ''tool_call_id'');
          summary = safeObject (obj_get data ''summary'');
          cmd = conv_trimmed (obj_get summary ''cmd'');
          argv = js_join '' '' (asStringArray (obj_get summary ''argv''))
      in if js_get event ''type'' \<noteq> JStr ''tool_result'' \<or> toolCallId = [] \<or> summary = [] then summaries
         else if cmd \<noteq> [] \<or> argv \<noteq> [] then obj_put summaries toolCallId \<lparr>ts_cmd = non_empty cmd, ts_argv = non_empty argv\<rparr>
         else summaries)"

definition buildConversationToolCallSummaryById :: "jsval list \<Rightarrow> tool_call_summary jsobj" where
  "buildConversationToolCallSummaryById events = foldl summary_step [] events"

end
