(* ===== verification/Scene_Ops.thy ===== *)
theory Scene_Ops
  imports Scene_Cache History_Data Conversation_Data
begin

text \<open>
  \<^verbatim>\<open>src/ui/src/hooks/useRuntimeClientEffects.ts\<close>, the scenes: the entities an agent shows are kept per session in the cache of
  \<open>Scene_Cache\<close>, changed by lists of operations, sent to the daemon, and replaced by its answer or by a
  newer snapshot. The counter that makes React draw again is the field \<open>cs_version\<close>.
\<close>

section \<open>Operations\<close>

record SceneOpResult =
  so_ok :: bool
  so_op :: "string option"
  so_id :: "string option"
  so_existed :: "bool option"
  so_action :: "string option"
  so_error :: "string option"

definition op_done :: "string \<Rightarrow> string \<Rightarrow> SceneOpResult" where
  "op_done kind i = \<lparr>so_ok = True, so_op = Some kind, so_id = Some i, so_existed = None, so_action = None, so_error = None\<rparr>"

definition op_failed :: "string \<Rightarrow> SceneOpResult" where
  "op_failed msg = \<lparr>so_ok = False, so_op = None, so_id = None, so_existed = None, so_action = None, so_error = Some (''Error: '' @ msg)\<rparr>"

definition getOpKind :: "jsval jsobj \<Rightarrow> string" where
  "getOpKind op = js_trim (case obj_get op ''op'' of JStr s \<Rightarrow> s | _ \<Rightarrow> opt_or (as_str (obj_get op ''kind'')) [])"

definition getCreateKind :: "jsval jsobj \<Rightarrow> string" where
  "getCreateKind op = js_trim (case obj_get op ''entity_kind'' of JStr s \<Rightarrow> s | _ \<Rightarrow> opt_or (as_str (obj_get op ''entityKind'')) [])"

definition op_text :: "jsval jsobj \<Rightarrow> string \<Rightarrow> string" where
  "op_text op k = js_trim (js_String (js_coalesce (obj_get op k) (JStr [])))"

definition created_entity :: "rat \<Rightarrow> string \<Rightarrow> string \<Rightarrow> jsval jsobj \<Rightarrow> jsval" where
  "created_entity now i entityKind op =
     JObj (obj_of_opts [(''id'', Some (JStr i)), (''kind'', Some (JStr entityKind)), (''title'', map_option JStr (as_str (obj_get op ''title''))),
       (''props'', Some (JObj (safeObject (obj_get op ''props'')))), (''created_ms'', Some (JNum (Fin now))), (''updated_ms'', Some (JNum (Fin now)))])"

definition with_props :: "rat \<Rightarrow> jsval \<Rightarrow> jsval jsobj \<Rightarrow> jsval" where
  "with_props now existing ps =
     JObj (obj_put (obj_put (safeObject existing) ''props'' (JObj (obj_put_all (safeObject (js_get existing ''props'')) ps)))
       ''updated_ms'' (JNum (Fin now)))"

text \<open>One operation; the fresh identifier is what \<^verbatim>\<open>genId()\<close> gives if it is called.\<close>

definition scene_op :: "rat \<Rightarrow> string \<Rightarrow> jsval jsobj \<Rightarrow> jsval \<Rightarrow> jsval jsobj \<times> SceneOpResult" where
  "scene_op now fresh store opRaw =
     (let op = safeObject opRaw; kind = getOpKind op; i = op_text op ''id''; existing = obj_get store i in
      if kind = [] then (store, op_failed ''missing op'')
      else if kind = ''create'' then
        (let j = str_or i fresh; entityKind = getCreateKind op in
         if entityKind = [] then (store, op_failed ''create requires entity_kind'')
         else (obj_put store j (created_entity now j entityKind op), op_done ''create'' j))
      else if kind = ''update'' then
        (if i = [] then (store, op_failed ''update requires id'')
         else if \<not> truthy existing then (store, op_failed ''entity not found'')
         else (obj_put store i (with_props now existing (safeObject (obj_get op ''props''))), op_done ''update'' i))
      else if kind = ''delete'' \<or> kind = ''remove'' then
        (if i = [] then (store, op_failed ''delete requires id'')
         else (obj_del store i, (op_done ''delete'' i)\<lparr>so_existed := Some (truthy existing)\<rparr>))
      else if kind = ''clear'' then
        (store, \<lparr>so_ok = False, so_op = Some ''clear'', so_id = None, so_existed = None, so_action = None,
                 so_error = Some ''scene clear is disabled in WebUI''\<rparr>)
      else if kind = ''action'' then
        (let action = op_text op ''action'' in
         if i = [] then (store, op_failed ''action requires id'')
         else if action = [] then (store, op_failed ''action requires action'')
         else if \<not> truthy existing then (store, op_failed ''entity not found'')
         else (obj_put store i (with_props now existing
                 [(''last_action'', JObj [(''name'', JStr action), (''args'', obj_get op ''args''), (''ts_unix_ms'', JNum (Fin now))])]),
               (op_done ''action'' i)\<lparr>so_action := Some action\<rparr>))
      else (store, op_failed (''unsupported op: '' @ kind)))"

fun scene_ops :: "rat \<Rightarrow> (nat \<Rightarrow> string) \<Rightarrow> nat \<Rightarrow> jsval jsobj \<Rightarrow> jsval list \<Rightarrow> jsval jsobj \<times> SceneOpResult list" where
  "scene_ops now genId n store [] = (store, [])"
| "scene_ops now genId n store (op # ops) =
     (let (store1, r) = scene_op now (genId n) store op; (store2, rs) = scene_ops now genId (n + 1) store1 ops in (store2, r # rs))"

section \<open>The cached scenes\<close>

record client_scenes =
  cs_cache :: "jsval jsobj scene_cache"
  cs_version :: nat

definition touchSceneStore :: "string \<Rightarrow> jsval jsobj scene_cache \<Rightarrow> jsval jsobj scene_cache" where
  "touchSceneStore key c = touchSceneStoreKey c key SCENE_STORE_MAX"

definition put_scene :: "string \<Rightarrow> jsval jsobj \<Rightarrow> jsval jsobj scene_cache \<Rightarrow> jsval jsobj scene_cache" where
  "put_scene key scene c = c\<lparr>sc_store := obj_put (sc_store c) key scene\<rparr>"

definition sceneEntities :: "string \<Rightarrow> client_scenes \<Rightarrow> jsval list" where
  "sceneEntities key cs = map snd (js_entries (opt_or (map_of (sc_store (cs_cache cs)) key) []))"

record scene_applied =
  sa_results :: "SceneOpResult list"
  sa_count :: nat
  sa_request :: "jsval list option"

definition applySceneOps ::
  "string \<Rightarrow> rat \<Rightarrow> (nat \<Rightarrow> string) \<Rightarrow> string \<Rightarrow> jsval list \<Rightarrow> client_scenes \<Rightarrow> string + client_scenes \<times> scene_applied" where
  "applySceneOps scopeKey now genId sid ops cs =
     (if js_trim sid = [] then Inl ''missing session_id for scene ops''
      else
        let storeKey = scopeKey @ ''::'' @ js_trim sid;
            c = cs_cache cs;
            c1 = (if map_of (sc_store c) storeKey = None then put_scene storeKey [] c else c);
            c2 = touchSceneStore storeKey c1;
            opList = take 100 ops;
            persistOps = filter (\<lambda>op. js_get op ''op'' \<noteq> JStr ''clear'') opList;
            (store, results) = scene_ops now genId 0 (opt_or (map_of (sc_store c1) storeKey) []) opList;
            c3 = (if map_of (sc_store c2) storeKey = None then c2 else put_scene storeKey store c2)
        in Inr (\<lparr>cs_cache = c3, cs_version = cs_version cs + 1\<rparr>,
                \<lparr>sa_results = results, sa_count = length store, sa_request = given (persistOps \<noteq> []) persistOps\<rparr>))"

definition num_field :: "jsval \<Rightarrow> rat" where
  "num_field v = (case v of JNum (Fin u) \<Rightarrow> u | _ \<Rightarrow> 0)"

text \<open>The daemon's answer to the operations sent.\<close>

definition scene_answer :: "string \<Rightarrow> jsval \<Rightarrow> client_scenes \<Rightarrow> client_scenes" where
  "scene_answer storeKey resp cs =
     (if js_get resp ''ok'' \<noteq> JBool True then cs
      else
        let updated = num_field (js_get resp ''updated_unix_ms'');
            c = cs_cache cs;
            c1 = (if updated > 0 then c\<lparr>sc_updated := obj_put (sc_updated c) storeKey (max (opt_or (map_of (sc_updated c) storeKey) 0) updated)\<rparr> else c)
        in if isUnknownRecord (js_get resp ''scene'')
           then \<lparr>cs_cache = touchSceneStore storeKey (put_scene storeKey (normalizeSceneEntityStore (js_get resp ''scene'')) c1),
                 cs_version = cs_version cs + 1\<rparr>
           else cs\<lparr>cs_cache := c1\<rparr>)"

definition snapshot_effect :: "string \<Rightarrow> string \<Rightarrow> jsval option \<Rightarrow> client_scenes \<Rightarrow> client_scenes" where
  "snapshot_effect scopeKey sessionId snapshot cs =
     (case snapshot of
        None \<Rightarrow> cs
      | Some snap \<Rightarrow>
          let updated = num_field (js_get snap ''updated_unix_ms''); key = scopeKey @ ''::'' @ sessionId; c = cs_cache cs in
          if js_trim sessionId = [] \<or> (case map_of (sc_updated c) key of Some prev \<Rightarrow> updated \<le> prev | None \<Rightarrow> False) then cs
          else
            let c1 = put_scene key (safeObject (js_get snap ''scene'')) c
            in \<lparr>cs_cache = touchSceneStore key (c1\<lparr>sc_updated := obj_put (sc_updated c1) key updated\<rparr>), cs_version = cs_version cs + 1\<rparr>)"

section \<open>Operations on different entities do not interfere\<close>

definition names :: "string \<Rightarrow> jsval \<Rightarrow> bool" where
  "names i op = (op_text (safeObject op) ''id'' = i)"

lemma scene_op_elsewhere:
  "\<not> names i op \<Longrightarrow> fresh \<noteq> i \<Longrightarrow> map_of (fst (scene_op now fresh store op)) i = map_of store i"
  by (auto simp: scene_op_def names_def Let_def str_or_def update_conv' delete_conv')

lemma scene_op_here:
  assumes "names i op" "i \<noteq> []" "map_of store i = map_of store' i"
  shows "map_of (fst (scene_op now fresh store op)) i = map_of (fst (scene_op now fresh' store' op)) i"
    and "snd (scene_op now fresh store op) = snd (scene_op now fresh' store' op)"
  using assms by (auto simp: scene_op_def names_def Let_def str_or_def update_conv' delete_conv' obj_get.simps)

lemma scene_ops_length: "length (snd (scene_ops now genId n store ops)) = length ops"
  by (induction ops arbitrary: n store) (simp_all add: case_prod_beta Let_def)

lemma scene_ops_local:
  assumes "i \<noteq> []" "\<And>n. genId n \<noteq> i" "map_of store i = map_of store' i"
  shows "map_of (fst (scene_ops now genId n store ops)) i = map_of (fst (scene_ops now genId m store' (filter (names i) ops))) i \<and>
    map snd (filter (names i \<circ> fst) (zip ops (snd (scene_ops now genId n store ops)))) = snd (scene_ops now genId m store' (filter (names i) ops))"
  using assms(3)
proof (induction ops arbitrary: n m store store')
  case (Cons op ops)
  show ?case
  proof (cases "names i op")
    case True
    note h = scene_op_here [OF True assms(1) Cons.prems, of now "genId n" "genId m"]
    show ?thesis
      using Cons.IH [OF h(1), of "n + 1" "m + 1"] h(2) True by (simp add: case_prod_beta Let_def)
  next
    case False
    have "map_of (fst (scene_op now (genId n) store op)) i = map_of store' i"
      using scene_op_elsewhere [OF False assms(2)] Cons.prems by simp
    from Cons.IH [OF this, of "n + 1" m] False show ?thesis by (simp add: case_prod_beta Let_def)
  qed
qed simp

section \<open>The scenes stay well formed\<close>

definition entity_ok :: "string \<Rightarrow> jsval \<Rightarrow> bool" where
  "entity_ok i v = (i \<noteq> [] \<and> is_JObj v \<and> js_get v ''id'' = JStr i \<and> (\<exists>k. k \<noteq> [] \<and> js_get v ''kind'' = JStr k) \<and>
     (js_get v ''props'' = JUndef \<or> is_JObj (js_get v ''props'')))"

definition scene_ok :: "jsval jsobj \<Rightarrow> bool" where
  "scene_ok s = (wf_obj s \<and> list_all (\<lambda>(i, e). entity_ok i e) s)"

definition scenes_ok :: "client_scenes \<Rightarrow> bool" where
  "scenes_ok cs = (cache_inv SCENE_STORE_MAX (cs_cache cs) \<and> list_all (\<lambda>(k, s). scene_ok s) (sc_store (cs_cache cs)))"

lemma scene_ok_put: "scene_ok s \<Longrightarrow> entity_ok i e \<Longrightarrow> scene_ok (obj_put s i e)"
  by (simp add: scene_ok_def wf_obj_put list_all_put)

lemma scene_ok_del: "scene_ok s \<Longrightarrow> scene_ok (obj_del s i)"
  by (auto simp: scene_ok_def list_all_iff distinct_delete AList.delete_eq)

lemma scene_ok_get: "scene_ok s \<Longrightarrow> truthy (obj_get s i) \<Longrightarrow> entity_ok i (obj_get s i)"
  by (auto simp: scene_ok_def list_all_iff obj_get.simps split: option.splits dest: map_of_SomeD)

lemma created_ok: "i \<noteq> [] \<Longrightarrow> k \<noteq> [] \<Longrightarrow> entity_ok i (created_entity now i k op)"
  by (simp add: entity_ok_def created_entity_def obj_get_opts)

lemma with_props_ok: "entity_ok i e \<Longrightarrow> entity_ok i (with_props now e ps)"
  by (cases e) (auto simp: entity_ok_def with_props_def js_obj_simps)

lemma scene_op_ok: "scene_ok s \<Longrightarrow> fresh \<noteq> [] \<Longrightarrow> scene_ok (fst (scene_op now fresh s op))"
  by (auto simp: scene_op_def Let_def str_or_def scene_ok_put scene_ok_del created_ok with_props_ok scene_ok_get)

lemma scene_ops_ok: "scene_ok s \<Longrightarrow> (\<And>n. genId n \<noteq> []) \<Longrightarrow> scene_ok (fst (scene_ops now genId n s ops))"
  by (induction ops arbitrary: n s) (simp_all add: case_prod_beta Let_def scene_op_ok)

lemma toSceneEntity_ok:
  assumes "toSceneEntity v f = Some (i, e)"
  shows "entity_ok i e"
proof -
  have t: "s \<noteq> []" if "asTrimmedString x = JStr s" for x s
    using that by (auto simp: asTrimmedString_def Let_def split: jsval.splits if_splits)
  obtain k where k: "js_coalesce (asTrimmedString (js_get v ''id'')) (asTrimmedString (JStr f)) = JStr i" "asTrimmedString (js_get v ''kind'') = JStr k"
    "js_get e ''id'' = JStr i" "js_get e ''kind'' = JStr k" "js_get e ''props'' = read_field RRecord (js_get v ''props'')" "is_JObj e"
    using assms by (auto simp: toSceneEntity_def split: jsval.splits if_splits)
  then have "i \<noteq> []" "k \<noteq> []" using t by (auto simp: js_coalesce_def split: if_splits)
  with k show ?thesis by (auto simp: entity_ok_def)
qed

lemma scene_step_ok: "scene_ok s \<Longrightarrow> scene_ok (scene_step s kv)"
  by (auto simp: scene_step_def intro!: scene_ok_put dest: toSceneEntity_ok split: option.split)

lemma normalized_scene_ok: "scene_ok (normalizeSceneEntityStore v)"
proof -
  have "scene_ok (foldl scene_step s kvs)" if "scene_ok s" for s kvs
    using that by (induction kvs arbitrary: s) (simp_all add: scene_step_ok)
  then show ?thesis by (simp add: normalizeSceneEntityStore_def scene_ok_def)
qed

lemma foldl_del_sub: "set (foldl (\<lambda>ps k. obj_del ps k) ps ks) \<subseteq> set ps"
  by (induction ks arbitrary: ps) (fastforce simp: AList.delete_eq)+

lemma touch_store_sub: "set (sc_store (touchSceneStoreKey c key m)) \<subseteq> set (sc_store c)"
  by (simp add: touchSceneStoreKey_def Let_def foldl_del_sub del: foldl_append take_append)

lemma touch_listed: "key \<noteq> [] \<Longrightarrow> 0 < m \<Longrightarrow> key \<in> set (sc_order (touchSceneStoreKey c key m))"
  by (simp add: touch_order newest_def)

lemma touch_keeps:
  "key \<noteq> [] \<Longrightarrow> 0 < m \<Longrightarrow> distinct (sc_order c) \<Longrightarrow> map_of (sc_store (touchSceneStoreKey c key m)) key = map_of (sc_store c) key"
  by (simp add: touch_store touch_listed)

lemma put_touch_ok:
  assumes "cache_inv SCENE_STORE_MAX c" "list_all (\<lambda>(k, s). scene_ok s) (sc_store c)" "scene_ok s" "key \<noteq> []"
  shows "cache_inv SCENE_STORE_MAX (touchSceneStore key (put_scene key s c)) \<and>
    list_all (\<lambda>(k, s). scene_ok s) (sc_store (touchSceneStore key (put_scene key s c)))"
proof -
  have "fst ` set (sc_store (put_scene key s c)) \<subseteq> insert key (set (sc_order (put_scene key s c)))"
    using assms(1) by (auto simp: put_scene_def cache_inv_def dom_update)
  then have "cache_inv SCENE_STORE_MAX (touchSceneStore key (put_scene key s c))"
    unfolding touchSceneStore_def using assms by (intro cache_inv_put_touch) (simp_all add: put_scene_def cache_inv_def SCENE_STORE_MAX_def)
  moreover have "list_all (\<lambda>(k, s). scene_ok s) (sc_store (put_scene key s c))"
    using assms(2,3) by (simp add: put_scene_def list_all_put)
  ultimately show ?thesis
    using touch_store_sub [of "put_scene key s c" key SCENE_STORE_MAX] by (auto simp: touchSceneStore_def list_all_iff)
qed

text \<open>What an application of operations does to the cache, in one step.\<close>

lemma applySceneOps_eq:
  assumes "cache_inv SCENE_STORE_MAX (cs_cache cs)" "js_trim sess \<noteq> []"
    and key: "key = scopeKey @ ''::'' @ js_trim sess" and st: "st = opt_or (map_of (sc_store (cs_cache cs)) key) []"
  shows "\<exists>cs' c2 req. applySceneOps scopeKey now genId sess ops cs =
      Inr (cs', \<lparr>sa_results = snd (scene_ops now genId 0 st (take 100 ops)), sa_count = length (fst (scene_ops now genId 0 st (take 100 ops))),
                sa_request = req\<rparr>) \<and>
    cs_cache cs' = put_scene key (fst (scene_ops now genId 0 st (take 100 ops))) c2 \<and>
    c2 = touchSceneStore key (put_scene key st (cs_cache cs))"
proof -
  let ?c = "cs_cache cs"
  let ?c1 = "if map_of (sc_store ?c) key = None then put_scene key [] ?c else ?c"
  have c1: "?c1 = put_scene key st ?c"
    by (auto simp: put_scene_def st update_triv)
  have "distinct (sc_order (put_scene key st ?c))" using assms(1) by (simp add: put_scene_def cache_inv_def)
  then have "map_of (sc_store (touchSceneStore key (put_scene key st ?c))) key = Some st"
    unfolding touchSceneStore_def using touch_keeps [of key SCENE_STORE_MAX "put_scene key st ?c"]
    by (simp add: put_scene_def key SCENE_STORE_MAX_def update_conv')
  moreover have "opt_or (map_of (sc_store (put_scene key st ?c)) key) [] = st" by (simp add: put_scene_def update_conv')
  ultimately show ?thesis
    using assms(2) unfolding applySceneOps_def Let_def key [symmetric] c1 by (simp add: case_prod_beta)
qed

text \<open>The scenes of a page: operations, the daemon's answers in any order, and snapshots as the history reads them.\<close>

inductive scenes :: "client_scenes \<Rightarrow> bool" where
  empty: "scenes \<lparr>cs_cache = \<lparr>sc_store = [], sc_order = [], sc_updated = []\<rparr>, cs_version = 0\<rparr>"
| ops: "scenes cs \<Longrightarrow> (\<And>n. genId n \<noteq> []) \<Longrightarrow> applySceneOps scopeKey now genId sess ops cs = Inr (cs', res) \<Longrightarrow> scenes cs'"
| answer: "scenes cs \<Longrightarrow> key \<noteq> [] \<Longrightarrow> scenes (scene_answer key resp cs)"
| snapshot: "scenes cs \<Longrightarrow> scenes (snapshot_effect scopeKey sess (normalizeSessionSceneSnapshot v) cs)"

lemma apply_ok:
  assumes "scenes_ok cs" "\<And>n. genId n \<noteq> []" "applySceneOps scopeKey now genId sess ops cs = Inr (cs', res)"
  shows "scenes_ok cs'"
proof -
  define key where "key = scopeKey @ ''::'' @ js_trim sess"
  define st where "st = opt_or (map_of (sc_store (cs_cache cs)) key) []"
  have s: "js_trim sess \<noteq> []" using assms(3) by (auto simp: applySceneOps_def)
  have c: "cache_inv SCENE_STORE_MAX (cs_cache cs)" "list_all (\<lambda>(k, s). scene_ok s) (sc_store (cs_cache cs))"
    using assms(1) by (simp_all add: scenes_ok_def)
  have "scene_ok st"
    using c(2) by (cases "map_of (sc_store (cs_cache cs)) key") (auto simp: st_def scene_ok_def list_all_iff dest!: map_of_SomeD)
  moreover obtain c2 where c2: "cs_cache cs' = put_scene key (fst (scene_ops now genId 0 st (take 100 ops))) c2"
      "c2 = touchSceneStore key (put_scene key st (cs_cache cs))"
    using applySceneOps_eq [OF c(1) s key_def st_def, of now genId ops] assms(3) by auto
  moreover have "key \<in> set (sc_order c2)" by (simp add: c2(2) touchSceneStore_def touch_listed key_def SCENE_STORE_MAX_def)
  ultimately show ?thesis
    using put_touch_ok [OF c, of st key] scene_ops_ok [of st genId now 0 "take 100 ops"] assms(2)
    by (simp add: scenes_ok_def put_scene_def cache_inv_def list_all_put key_def dom_update)
qed

lemma install_ok:
  assumes "scenes_ok cs" "scene_ok s" "key \<noteq> []"
  shows "scenes_ok \<lparr>cs_cache = touchSceneStore key (put_scene key s ((cs_cache cs)\<lparr>sc_updated := u\<rparr>)), cs_version = n\<rparr>"
    and "scenes_ok \<lparr>cs_cache = touchSceneStore key (put_scene key s (cs_cache cs)), cs_version = n\<rparr>"
    and "scenes_ok (cs\<lparr>cs_cache := (cs_cache cs)\<lparr>sc_updated := u\<rparr>\<rparr>)"
  using assms put_touch_ok [of "(cs_cache cs)\<lparr>sc_updated := u\<rparr>" s key] put_touch_ok [of "cs_cache cs" s key]
  by (simp_all add: scenes_ok_def cache_inv_def)

text \<open>
  C22. Whatever operations an agent asks for, in whatever order the daemon answers and snapshots arrive, the client keeps at most twelve
  scenes, each listed in the recency list, and every entity of every scene is an object stored under its
  own identifier, with a kind and with properties that are an object if they are there.
\<close>

theorem scenes_well_formed:
  assumes "scenes cs"
  shows "scenes_ok cs"
  using assms
proof induction
  case empty
  then show ?case by (simp add: scenes_ok_def cache_inv_def SCENE_STORE_MAX_def)
next
  case (ops cs genId scopeKey now sess ops cs' res)
  then show ?case by (metis apply_ok)
next
  case (answer cs key resp)
  note i = install_ok [OF answer.IH normalized_scene_ok answer.hyps(2)]
  show ?case using answer.IH by (auto simp: scene_answer_def Let_def i)
next
  case (snapshot cs scopeKey sess v)
  have p: "(put_scene k s c)\<lparr>sc_updated := u\<rparr> = put_scene k s (c\<lparr>sc_updated := u\<rparr>)" for k s c u by (simp add: put_scene_def)
  show ?case
    using snapshot.IH
    by (auto simp: snapshot_effect_def normalizeSessionSceneSnapshot_def Let_def p install_ok(1) normalized_scene_ok)
qed

definition demo_ops :: "jsval list" where
  "demo_ops = map op_value [CreateOp (Some ''a'') ''box'' None [], CreateOp (Some ''b'') ''box'' None [], UpdateOp ''a'' [(''x'', JBool True)], ClearOp None,
     DeleteOp ''delete'' ''b'']"

definition no_scenes :: client_scenes where
  "no_scenes = \<lparr>cs_cache = \<lparr>sc_store = [], sc_order = [], sc_updated = []\<rparr>, cs_version = 0\<rparr>"

lemma no_scenes_ok: "scenes_ok no_scenes"
  by (simp add: no_scenes_def scenes_ok_def cache_inv_def SCENE_STORE_MAX_def)

theorem scenes_well_formed_witness:
  "\<exists>cs' res. applySceneOps ''k'' 1 (\<lambda>_. ''e'') ''s'' demo_ops no_scenes = Inr (cs', res) \<and> scenes_ok cs'"
proof -
  have "js_trim ''s'' \<noteq> []" by (simp add: js_trim_eval)
  then obtain cs' res where r: "applySceneOps ''k'' 1 (\<lambda>_. ''e'') ''s'' demo_ops no_scenes = Inr (cs', res)"
    by (simp add: applySceneOps_def Let_def case_prod_beta)
  have "scenes no_scenes" unfolding no_scenes_def by (rule scenes.empty)
  from scenes.ops [OF this _ r] have "scenes cs'" by simp
  from scenes_well_formed [OF this] r show ?thesis by blast
qed

section \<open>Entities are independent\<close>

definition scene_entity :: "string \<Rightarrow> string \<Rightarrow> client_scenes \<Rightarrow> jsval option" where
  "scene_entity key i cs = Option.bind (map_of (sc_store (cs_cache cs)) key) (\<lambda>s. map_of s i)"

text \<open>
  C20. What a list of operations does to an entity is what its operations on that entity do: the entity afterwards, and the result reported for
  each operation that names it, are the same as if only those operations had been given. So an
  operation on one entity never touches another, a failed operation changes nothing, no operation
  clears the scene, and only the first hundred operations count.
\<close>

theorem entity_ops_independent:
  assumes "scenes_ok cs" "i \<noteq> []" "\<And>n. genId n \<noteq> i" "key = scopeKey @ ''::'' @ js_trim sess"
    and all: "applySceneOps scopeKey now genId sess ops cs = Inr (cs1, r1)"
    and own: "applySceneOps scopeKey now genId sess (filter (names i) (take 100 ops)) cs = Inr (cs2, r2)"
  shows "scene_entity key i cs1 = scene_entity key i cs2 \<and>
    map snd (filter (names i \<circ> fst) (zip ops (sa_results r1))) = sa_results r2 \<and> length (sa_results r1) = min 100 (length ops)"
proof -
  define st where "st = opt_or (map_of (sc_store (cs_cache cs)) key) []"
  have c: "cache_inv SCENE_STORE_MAX (cs_cache cs)" "js_trim sess \<noteq> []"
    using assms(1) all by (auto simp: scenes_ok_def applySceneOps_def)
  note eq = applySceneOps_eq [OF c assms(4) st_def]
  let ?own = "filter (names i) (take 100 ops)"
  have e1: "scene_entity key i cs1 = map_of (fst (scene_ops now genId 0 st (take 100 ops))) i"
      "sa_results r1 = snd (scene_ops now genId 0 st (take 100 ops))"
    using eq [of now genId ops] all by (auto simp: scene_entity_def put_scene_def update_conv')
  have "take 100 ?own = ?own" by (metis dual_order.trans length_filter_le length_take min.cobounded2 take_all_iff)
  then have e2: "scene_entity key i cs2 = map_of (fst (scene_ops now genId 0 st ?own)) i" "sa_results r2 = snd (scene_ops now genId 0 st ?own)"
    using eq [of now genId ?own] own by (auto simp: scene_entity_def put_scene_def update_conv')
  have z: "zip ops (sa_results r1) = zip (take 100 ops) (sa_results r1)"
    using take_zip [of 100 ops "sa_results r1"] by (simp add: e1(2) scene_ops_length)
  show ?thesis
    using scene_ops_local [OF assms(2,3) refl, where now = now and n = 0 and m = 0 and store = st and ops = "take 100 ops"] z by (simp add: e1 e2 scene_ops_length)
qed

theorem entity_ops_independent_witness:
  "\<exists>cs1 r1 cs2 r2. applySceneOps ''k'' 1 (\<lambda>_. ''e'') ''s'' demo_ops no_scenes = Inr (cs1, r1) \<and>
     applySceneOps ''k'' 1 (\<lambda>_. ''e'') ''s'' (filter (names ''a'') (take 100 demo_ops)) no_scenes = Inr (cs2, r2) \<and>
     scene_entity ''k::s'' ''a'' cs1 = scene_entity ''k::s'' ''a'' cs2 \<and> length (sa_results r1) = 5"
proof -
  have t: "js_trim ''s'' = ''s''" by code_simp
  obtain cs1 r1 where r1: "applySceneOps ''k'' 1 (\<lambda>_. ''e'') ''s'' demo_ops no_scenes = Inr (cs1, r1)"
    by (simp add: applySceneOps_def Let_def case_prod_beta t)
  obtain cs2 r2 where r2: "applySceneOps ''k'' 1 (\<lambda>_. ''e'') ''s'' (filter (names ''a'') (take 100 demo_ops)) no_scenes = Inr (cs2, r2)"
    by (simp add: applySceneOps_def Let_def case_prod_beta t)
  have "scene_entity ''k::s'' ''a'' cs1 = scene_entity ''k::s'' ''a'' cs2 \<and> length (sa_results r1) = min 100 (length demo_ops)"
    using entity_ops_independent [OF no_scenes_ok _ _ _ r1 r2, of "''k::s''"] by (simp add: t)
  with r1 r2 show ?thesis by (auto simp: demo_ops_def)
qed

end
