(* ===== verification/Client_Rpc.thy ===== *)
theory Client_Rpc
  imports Scene_Ops
begin

text \<open>
  \<^verbatim>\<open>src/ui/src/components/conversation/conversationRpcExecutor.ts\<close> (and \<^verbatim>\<open>utils.ts\<close> beside it): an agent may ask the page to
  do something. \<open>runConversationUiActionRpc\<close> checks the user's settings, runs the handler of the requested kind and reports the result.
  The browser is a parameter (\<open>rpc_page\<close>), as are the handlers that only read or write its document (\<open>pg_dom\<close>); the handlers that
  decide something are definitions. What the page is made to do is recorded as a list of \<open>page_effect\<close>; a post to the daemon can fail.
\<close>

section \<open>Helpers\<close>

definition clampInt :: "jsval \<Rightarrow> int \<Rightarrow> int \<Rightarrow> int \<Rightarrow> int" where
  "clampInt n lo hi def = (case js_Number n of Fin v \<Rightarrow> min (max (if v \<ge> 0 then \<lfloor>v\<rfloor> else \<lceil>v\<rceil>) lo) hi | _ \<Rightarrow> def)"

definition isSensitiveKey :: "string \<Rightarrow> bool" where
  "isSensitiveKey k =
     list_ex (js_includes (js_lower k))
       [''secret'', ''token'', ''auth'', ''apikey'', ''api_key'', ''password'', ''passwd'', ''session'', ''cookie'']"

section \<open>Kinds and handlers\<close>

datatype rpc_handler =
    DomQuery | DomApply | EntityApply | EntityQuery | MediaSnapshot | Location | StateSnapshot | DomClick | DomSetValue
  | MediaPlay | MediaPause | MediaObserve | MediaUnobserve | Navigate | OpenUrl | ArtifactUrl | ScriptEval | PageEval

definition rpc_kinds :: "(string \<times> rpc_handler) list" where
  "rpc_kinds =
     [(''dom_query'', DomQuery), (''dom_apply'', DomApply), (''entity_apply'', EntityApply), (''entity_query'', EntityQuery),
      (''media_snapshot'', MediaSnapshot), (''location'', Location), (''state_snapshot'', StateSnapshot), (''dom_click'', DomClick),
      (''dom_set_value'', DomSetValue), (''media_play'', MediaPlay), (''media_pause'', MediaPause), (''media_observe'', MediaObserve),
      (''media_unobserve'', MediaUnobserve), (''navigate'', Navigate), (''open_url'', OpenUrl), (''artifact_url'', ArtifactUrl),
      (''script_eval'', ScriptEval), (''page_eval'', PageEval)]"

definition script_methods :: "(string \<times> rpc_handler) list" where
  "script_methods =
     [(''dom.query'', DomQuery), (''dom.click'', DomClick), (''dom.set_value'', DomSetValue), (''dom.apply'', DomApply),
      (''scene.apply'', EntityApply), (''scene.query'', EntityQuery), (''media.snapshot'', MediaSnapshot), (''media.play'', MediaPlay),
      (''media.observe'', MediaObserve), (''media.unobserve'', MediaUnobserve), (''location.get'', Location), (''nav.go'', Navigate),
      (''nav.open'', OpenUrl)]"

definition sideEffectMethods :: "string list" where
  "sideEffectMethods =
     [''dom.click'', ''dom.set_value'', ''dom.apply'', ''scene.apply'', ''media.play'', ''media.observe'', ''nav.go'', ''nav.open'']"

definition page_methods :: "(string \<times> rpc_handler) list" where
  "page_methods =
     [(''dom.query'', DomQuery), (''dom.click'', DomClick), (''dom.setValue'', DomSetValue), (''dom.apply'', DomApply),
      (''scene.apply'', EntityApply), (''scene.query'', EntityQuery), (''media.snapshot'', MediaSnapshot), (''media.play'', MediaPlay),
      (''media.observe'', MediaObserve), (''media.unobserve'', MediaUnobserve), (''location.get'', Location), (''nav.go'', Navigate)]"

section \<open>The page\<close>

record page_url =
  url_origin :: string
  url_protocol :: string
  url_text :: string

text \<open>The address of the page, with the query as the browser splits it.\<close>

record page_location =
  pl_href :: string
  pl_origin :: string
  pl_pathname :: string
  pl_search :: string
  pl_hash :: string
  pl_title :: string
  pl_params :: "(string \<times> string) list"

record RpcCleanupEntry =
  ce_kind :: string
  ce_createdMs :: rat
  ce_lastActiveMs :: rat

text \<open>
  What the agent's code does is a parameter too: the calls it makes on the interface it is handed, and how it ends (a result, an error or
  the timeout).
\<close>

record rpc_page =
  pg_origin :: string
  pg_parseUrl :: "string \<Rightarrow> page_url option"
  pg_confirm :: "string \<Rightarrow> bool"
  pg_dom :: "rpc_handler \<Rightarrow> jsval jsobj \<Rightarrow> string + jsval"
  pg_sceneApply :: "(jsval list \<Rightarrow> client_scenes \<Rightarrow> string + client_scenes \<times> scene_applied) option"
  pg_script :: "string \<Rightarrow> jsval jsobj \<Rightarrow> (string \<times> jsval) list \<times> (string + jsval)"
  pg_sceneEntities :: "jsval list"
  pg_media :: "string \<Rightarrow> jsval list"
  pg_location :: page_location
  pg_cssEscape :: "string \<Rightarrow> string"
  pg_postFails :: "nat \<Rightarrow> bool"
  pg_postError :: string

datatype page_effect =
    Invoked rpc_handler "jsval jsobj"
  | Assigned string
  | Opened string
  | AppliedOps "jsval list"
  | RanCode string

record rpc_state =
  rs_scenes :: client_scenes
  rs_cleanups :: "RpcCleanupEntry jsobj"
  rs_effects :: "page_effect list"
  rs_posted :: "(string \<times> jsval) list"
  rs_attempts :: nat

definition did :: "page_effect \<Rightarrow> rpc_state \<Rightarrow> rpc_state" where
  "did e rs = rs\<lparr>rs_effects := rs_effects rs @ [e]\<rparr>"

text \<open>A post to the daemon: delivered, or the promise is rejected.\<close>

definition post :: "rpc_page \<Rightarrow> string \<Rightarrow> jsval \<Rightarrow> rpc_state \<Rightarrow> rpc_state \<times> bool" where
  "post pg type data rs =
     (if pg_postFails pg (rs_attempts rs) then (rs\<lparr>rs_attempts := rs_attempts rs + 1\<rparr>, False)
      else (rs\<lparr>rs_attempts := rs_attempts rs + 1, rs_posted := rs_posted rs @ [(type, data)]\<rparr>, True))"

section \<open>Handlers\<close>

definition result_value :: "SceneOpResult \<Rightarrow> jsval" where
  "result_value r =
     JObj (obj_of_opts [(''ok'', Some (JBool (so_ok r))), (''op'', map_option JStr (so_op r)), (''id'', map_option JStr (so_id r)),
       (''existed'', map_option JBool (so_existed r)), (''action'', map_option JStr (so_action r)), (''error'', map_option JStr (so_error r))])"

definition applied_value :: "scene_applied \<Rightarrow> jsval" where
  "applied_value a = JObj [(''ok'', JBool True), (''results'', JArr (map result_value (sa_results a))), (''count'', JNum (Fin (of_nat (sa_count a))))]"

definition is_clear :: "SceneEntityMutationOp \<Rightarrow> bool" where
  "is_clear p = (case p of ClearOp _ \<Rightarrow> True | _ \<Rightarrow> False)"

definition makeEntityApply :: "rpc_page \<Rightarrow> jsval jsobj \<Rightarrow> rpc_state \<Rightarrow> rpc_state \<times> (string + jsval)" where
  "makeEntityApply pg args rs =
     (case pg_sceneApply pg of
        None \<Rightarrow> (rs, Inl ''Error: entity_apply not supported (no scene handler)'')
      | Some onSceneApply \<Rightarrow>
          let ops = buildEntityApplyOps (JObj args) in
          if list_ex is_clear ops then (rs, Inl ''Error: scene clear is disabled in WebUI'')
          else
            let values = map op_value ops in
            case onSceneApply values (rs_scenes rs) of
              Inl e \<Rightarrow> (rs, Inl (''Error: '' @ e))
            | Inr (cs, a) \<Rightarrow> (did (AppliedOps values) rs\<lparr>rs_scenes := cs\<rparr>, Inr (applied_value a)))"

definition makeEntityQuery :: "jsval list \<Rightarrow> jsval jsobj \<Rightarrow> jsval" where
  "makeEntityQuery ents args =
     (let kind = (case obj_get args ''entity_kind'' of JStr s \<Rightarrow> js_trim s | _ \<Rightarrow> conv_trimmed (obj_get args ''kind''));
          idPrefix = conv_trimmed (obj_get args ''id_prefix'');
          limit = clampInt (obj_get args ''limit'') 1 200 50;
          field = (\<lambda>e k. js_String (js_coalesce (js_get e k) (JStr [])));
          items = take (nat limit) (filter (\<lambda>e. idPrefix = [] \<or> js_starts_with (field e ''id'') idPrefix)
                    (filter (\<lambda>e. kind = [] \<or> field e ''kind'' = kind) ents))
      in JObj (obj_of_opts [(''kind'', Some (JStr ''entity_query'')), (''entity_kind'', map_option JStr (non_empty kind)),
           (''id_prefix'', map_option JStr (non_empty idPrefix)), (''count'', Some (JNum (Fin (of_nat (length items))))), (''items'', Some (JArr items))]))"

definition url_arg :: "jsval jsobj \<Rightarrow> string" where
  "url_arg args = safeTrunc (js_String (js_coalesce (obj_get args ''url'') (js_coalesce (obj_get args ''href'') (JStr [])))) 2000"

definition makeNavigate :: "rpc_page \<Rightarrow> jsval jsobj \<Rightarrow> rpc_state \<Rightarrow> rpc_state \<times> (string + jsval)" where
  "makeNavigate pg args rs =
     (let url = url_arg args in
      if url = [] then (rs, Inl ''Error: navigate requires url'')
      else if (case pg_parseUrl pg url of Some u \<Rightarrow> url_origin u \<noteq> pg_origin pg | None \<Rightarrow> False)
      then (rs, Inl ''Error: navigate only supports same-origin URLs; use open_url for external links'')
      else (did (Assigned url) rs, Inr (JObj [(''kind'', JStr ''navigate''), (''url'', JStr url)])))"

definition makeOpenUrl :: "rpc_page \<Rightarrow> jsval jsobj \<Rightarrow> rpc_state \<Rightarrow> rpc_state \<times> (string + jsval)" where
  "makeOpenUrl pg args rs =
     (let urlRaw = url_arg args in
      if urlRaw = [] then (rs, Inl ''Error: open_url requires url'')
      else case pg_parseUrl pg urlRaw of
             None \<Rightarrow> (rs, Inl ''Error: open_url requires absolute http(s) URL'')
           | Some u \<Rightarrow>
               if url_protocol u \<noteq> ''http:'' \<and> url_protocol u \<noteq> ''https:'' then (rs, Inl ''Error: open_url only supports http(s) URLs'')
               else
                 let label = safeTrunc (js_String (js_coalesce (obj_get args ''title'') (JStr []))) 120;
                     prompt = (if label \<noteq> [] then ''Open link?'' @ [CHR 0x0A] @ label @ [CHR 0x0A] @ url_text u else ''Open link?'' @ [CHR 0x0A] @ url_text u)
                 in if \<not> pg_confirm pg prompt then (rs, Inl ''Error: user declined'')
                    else (did (Opened (url_text u)) rs,
                          Inr (JObj [(''kind'', JStr ''open_url''), (''url'', JStr (url_text u)), (''opened'', JBool True)])))"

definition param_put :: "(string \<times> string) list \<Rightarrow> string jsobj \<Rightarrow> string \<Rightarrow> string jsobj" where
  "param_put params out k = obj_put out k (if isSensitiveKey k then ''(redacted)'' else safeTrunc (opt_or (map_of params k) []) 200)"

definition makeLocation :: "page_location \<Rightarrow> jsval" where
  "makeLocation pl =
     (let keys = take 40 (map fst (pl_params pl)); search_params = foldl (param_put (pl_params pl)) [] keys
      in JObj [(''kind'', JStr ''location''), (''href'', JStr (safeTrunc (pl_href pl) 400)), (''origin'', JStr (safeTrunc (pl_origin pl) 200)),
          (''pathname'', JStr (safeTrunc (pl_pathname pl) 200)), (''search'', JStr (safeTrunc (pl_search pl) 200)),
          (''hash'', JStr (safeTrunc (pl_hash pl) 200)), (''search_params'', JObj (map (\<lambda>(k, v). (k, JStr v)) search_params)),
          (''has_sensitive_query'', JBool (list_ex isSensitiveKey keys)), (''title'', JStr (safeTrunc (pl_title pl) 200))])"

definition makeStateSnapshot :: "rpc_page \<Rightarrow> string + jsval" where
  "makeStateSnapshot pg =
     (case pg_dom pg MediaSnapshot [] of
        Inl e \<Rightarrow> Inl e
      | Inr media \<Rightarrow> Inr (JObj [(''kind'', JStr ''state_snapshot''), (''location'', makeLocation (pg_location pg)),
          (''media'', js_coalesce (js_get media ''items'') (JArr []))]))"

text \<open>Detaching observers: the listeners of an entry go with it.\<close>

definition unobserve_ids :: "jsval jsobj \<Rightarrow> string list" where
  "unobserve_ids args =
     (let text = (\<lambda>v. js_trim (js_String (js_coalesce v (JStr []))));
          listed = (case as_arr (obj_get args ''rpc_ids'') of Some xs \<Rightarrow> xs | None \<Rightarrow>
                    (case as_arr (obj_get args ''rpcIds'') of Some xs \<Rightarrow> xs | None \<Rightarrow> opt_or (as_arr (obj_get args ''ids'')) []));
          named = foldr (\<lambda>k rest. js_coalesce (obj_get args k) rest)
                    [''rpc_id'', ''rpcId'', ''target_rpc_id'', ''targetRpcId'', ''tool_call_id'', ''toolCallId''] (obj_get args ''id'')
      in rev (remdups (rev (filter (\<lambda>s. s \<noteq> []) (map text (listed @ [named]))))))"

definition observers :: "RpcCleanupEntry jsobj \<Rightarrow> string list" where
  "observers entries = map fst (filter (\<lambda>p. ce_kind (snd p) = ''media_observe'') (js_entries entries))"

definition makeMediaUnobserve :: "jsval jsobj \<Rightarrow> rpc_state \<Rightarrow> rpc_state \<times> jsval" where
  "makeMediaUnobserve args rs =
     (let entries = rs_cleanups rs;
          ids = unobserve_ids args;
          targets = (if obj_get args ''all'' = JBool True \<or> (ids = [] \<and> obj_get args ''all'' = JStr ''true'') then observers entries else ids);
          removedIds = filter (\<lambda>i. i \<in> set (observers entries)) targets;
          entries' = foldl (\<lambda>ps i. obj_del ps i) entries removedIds
      in (rs\<lparr>rs_cleanups := entries'\<rparr>,
          JObj [(''kind'', JStr ''media_unobserve''), (''removed'', JNum (Fin (of_nat (length removedIds)))),
                (''removed_ids'', JArr (map JStr removedIds)), (''remaining'', JNum (Fin (of_nat (length (observers entries')))))]))"

section \<open>Observing media\<close>

record rpc_input =
  ri_atype :: string
  ri_toolCallId :: string
  ri_rpcId :: string
  ri_rpcKind :: string
  ri_rpcArgs :: "jsval jsobj"
  ri_sessionId :: "string option"
  ri_allowClientRpcs :: bool
  ri_allowClientEffects :: bool
  ri_allowUnsafePageEval :: bool
  ri_sideEffectsRequested :: bool
  ri_now :: rat
  ri_elapsed :: rat

definition postRpcProgress :: "rpc_page \<Rightarrow> rpc_input \<Rightarrow> string \<Rightarrow> jsval \<Rightarrow> rpc_state \<Rightarrow> rpc_state \<times> bool" where
  "postRpcProgress pg inp name payload =
     post pg ''client_rpc_progress'' (JObj [(''rpc_id'', JStr (ri_rpcId inp)), (''rpc_kind'', JStr (ri_rpcKind inp)),
       (''name'', JStr (str_or name ''progress'')), (''ts_unix_ms'', JNum (Fin (ri_now inp))), (''payload'', js_coalesce payload (JObj []))])"

definition observe_selector :: "rpc_page \<Rightarrow> jsval jsobj \<Rightarrow> string" where
  "observe_selector pg args =
     (let text = (\<lambda>k m. safeTrunc (js_String (js_coalesce (obj_get args k) (JStr []))) m);
          toolId = text ''tool_call_id'' 120;
          q = [CHR 0x22];
          attr = ''[data-tool-call-id='' @ q @ pg_cssEscape pg toolId @ q @ '']''
      in if toolId \<noteq> [] then ''audio'' @ attr @ '',video'' @ attr
         else str_or (text ''selector'' 200) ''audio,video'')"

definition makeMediaObserve :: "rpc_page \<Rightarrow> rpc_input \<Rightarrow> jsval jsobj \<Rightarrow> rpc_state \<Rightarrow> rpc_state \<times> (string + jsval)" where
  "makeMediaObserve pg inp args rs =
     (let eventsRaw = (case as_arr (obj_get args ''events'') of Some xs \<Rightarrow> map js_String xs | None \<Rightarrow> [''play'', ''pause'', ''ended'', ''error'']);
          events = take 5 (filter (List.member [''play'', ''pause'', ''ended'', ''error'', ''timeupdate'']) eventsRaw);
          sel = observe_selector pg args;
          els = take 10 (pg_media pg sel);
          head = [(''kind'', JStr ''media_observe''), (''selector'', JStr sel), (''observing'', JNum (Fin (of_nat (length els))))]
      in if els = [] then (rs, Inr (JObj head))
         else
           let entry = \<lparr>ce_kind = ''media_observe'', ce_createdMs = ri_now inp, ce_lastActiveMs = ri_now inp\<rparr>;
               rs1 = (if map_of (rs_cleanups rs) (ri_rpcId inp) = None
                      then (did (Invoked MediaObserve args) rs)\<lparr>rs_cleanups := obj_put (rs_cleanups rs) (ri_rpcId inp) entry\<rparr> else rs);
               (rs2, sent) = postRpcProgress pg inp ''attached'' (JObj [(''selector'', JStr sel), (''observing'', JNum (Fin (of_nat (length els))))]) rs1
           in if \<not> sent then (rs2, Inl (pg_postError pg))
              else (foldl (\<lambda>r el. fst (postRpcProgress pg inp ''snapshot'' el r)) rs2 els, Inr (JObj (head @ [(''events'', JArr (map JStr events))]))))"

section \<open>Running a handler\<close>

definition run_handler :: "rpc_page \<Rightarrow> rpc_input \<Rightarrow> rpc_handler \<Rightarrow> jsval jsobj \<Rightarrow> rpc_state \<Rightarrow> rpc_state \<times> (string + jsval)" where
  "run_handler pg inp h args rs =
     (case h of
        EntityApply \<Rightarrow> makeEntityApply pg args rs
      | EntityQuery \<Rightarrow> (rs, Inr (makeEntityQuery (pg_sceneEntities pg) args))
      | Navigate \<Rightarrow> makeNavigate pg args rs
      | OpenUrl \<Rightarrow> makeOpenUrl pg args rs
      | MediaObserve \<Rightarrow> makeMediaObserve pg inp args rs
      | MediaUnobserve \<Rightarrow> map_prod id Inr (makeMediaUnobserve args rs)
      | Location \<Rightarrow> (did (Invoked h args) rs, Inr (makeLocation (pg_location pg)))
      | StateSnapshot \<Rightarrow> (did (Invoked h args) rs, makeStateSnapshot pg)
      | _ \<Rightarrow> (did (Invoked h args) rs, pg_dom pg h args))"

text \<open>A call of the agent's script on the interface it is handed; a call of code that runs in the page itself.\<close>

definition script_call :: "rpc_page \<Rightarrow> rpc_input \<Rightarrow> rpc_state \<Rightarrow> string \<times> jsval \<Rightarrow> rpc_state" where
  "script_call pg inp rs call =
     (let method = fst call; cargs = safeObject (snd call) in
      if List.member sideEffectMethods method \<and> \<not> ri_allowClientEffects inp then rs
      else case map_of script_methods method of
             Some h \<Rightarrow> fst (run_handler pg inp h cargs rs)
           | None \<Rightarrow>
               if method = ''rpc.progress''
               then fst (postRpcProgress pg inp (js_String (js_coalesce (obj_get cargs ''name'') (JStr ''progress''))) (obj_get cargs ''payload'') rs)
               else rs)"

definition page_call :: "rpc_page \<Rightarrow> rpc_input \<Rightarrow> rpc_state \<Rightarrow> string \<times> jsval \<Rightarrow> rpc_state" where
  "page_call pg inp rs call =
     (case map_of page_methods (fst call) of
        Some h \<Rightarrow> fst (run_handler pg inp h (safeObject (snd call)) rs)
      | None \<Rightarrow> if fst call = ''progress'' then fst (postRpcProgress pg inp (text_of (js_get (snd call) ''name'')) (js_get (snd call) ''payload'') rs) else rs)"

definition code_arg :: "jsval jsobj \<Rightarrow> string" where
  "code_arg args = js_String (js_coalesce (obj_get args ''code'') (JStr []))"

definition eval_result :: "string \<Rightarrow> jsval jsobj \<Rightarrow> jsval \<Rightarrow> jsval" where
  "eval_result kind args v =
     JObj [(''kind'', JStr kind), (''ok'', JBool True),
       (''timeout_ms'', JNum (Fin (of_int (clampInt (js_coalesce (obj_get args ''timeout_ms'') (obj_get args ''timeoutMs'')) 50 60000 8000)))), (''result'', v)]"

definition makeScriptEval :: "rpc_page \<Rightarrow> rpc_input \<Rightarrow> jsval jsobj \<Rightarrow> rpc_state \<Rightarrow> rpc_state \<times> (string + jsval)" where
  "makeScriptEval pg inp args rs =
     (let code = code_arg args in
      if code = [] then (rs, Inl ''Error: script_eval requires code'')
      else
        let (calls, outcome) = pg_script pg code (safeObject (obj_get args ''args''))
        in (foldl (script_call pg inp) rs calls, map_sum id (eval_result ''script_eval'' args) outcome))"

definition makePageEval :: "rpc_page \<Rightarrow> rpc_input \<Rightarrow> jsval jsobj \<Rightarrow> rpc_state \<Rightarrow> rpc_state \<times> (string + jsval)" where
  "makePageEval pg inp args rs =
     (if \<not> ri_allowUnsafePageEval inp then (rs, Inl ''Error: page_eval disabled by settings'')
      else
        let code = code_arg args in
        if code = [] then (rs, Inl ''Error: page_eval requires code'')
        else
          let (calls, outcome) = pg_script pg code (safeObject (obj_get args ''args''))
          in (foldl (page_call pg inp) (did (RanCode code) rs) calls, map_sum id (eval_result ''page_eval'' args) outcome))"

definition invokeByKind :: "rpc_page \<Rightarrow> rpc_input \<Rightarrow> rpc_state \<Rightarrow> rpc_state \<times> (string + jsval)" where
  "invokeByKind pg inp rs =
     (case map_of rpc_kinds (ri_rpcKind inp) of
        None \<Rightarrow> (rs, Inl (''Error: unsupported rpc.kind: '' @ ri_rpcKind inp))
      | Some ScriptEval \<Rightarrow> makeScriptEval pg inp (ri_rpcArgs inp) rs
      | Some PageEval \<Rightarrow> makePageEval pg inp (ri_rpcArgs inp) rs
      | Some h \<Rightarrow> run_handler pg inp h (ri_rpcArgs inp) rs)"

section \<open>The executor\<close>

definition result_data :: "string \<Rightarrow> string \<Rightarrow> rpc_input \<Rightarrow> string + jsval \<Rightarrow> jsval" where
  "result_data idKey kindKey inp outcome =
     JObj ([(idKey, JStr (ri_rpcId inp)), (''request_tool_call_id'', JStr (ri_toolCallId inp)), (kindKey, JStr (ri_rpcKind inp)),
            (''ok'', JBool (case outcome of Inl _ \<Rightarrow> False | Inr _ \<Rightarrow> True)), (''elapsed_ms'', JNum (Fin (ri_elapsed inp)))]
           @ (case outcome of Inl e \<Rightarrow> [(''error'', JStr e)] | Inr v \<Rightarrow> [(''result'', capEventPayload v)]))"

definition postRpcResult :: "rpc_page \<Rightarrow> rpc_input \<Rightarrow> string + jsval \<Rightarrow> rpc_state \<Rightarrow> rpc_state \<times> bool" where
  "postRpcResult pg inp outcome rs =
     (let (rs1, sent) = post pg ''client_rpc_result'' (result_data ''rpc_id'' ''rpc_kind'' inp outcome) rs in
      if \<not> sent then (rs1, False)
      else if ri_atype inp = ''client_probe''
      then post pg ''client_probe_result'' (result_data ''probe_id'' ''probe_kind'' inp outcome) rs1
      else (rs1, True))"

definition rpc_guard :: "rpc_input \<Rightarrow> string option" where
  "rpc_guard inp =
     (if ri_rpcId inp = [] \<or> js_trim (opt_or (ri_sessionId inp) []) = [] then Some ''Error: missing session/rpc_id''
      else if ri_rpcKind inp = [] then Some ''Error: missing rpc.kind''
      else if \<not> ri_allowClientRpcs inp then Some ''Error: client RPC disabled by settings''
      else if ri_sideEffectsRequested inp \<and> \<not> ri_allowClientEffects inp then Some ''Error: client RPC side effects disabled by settings''
      else None)"

definition runConversationUiActionRpc :: "rpc_page \<Rightarrow> rpc_input \<Rightarrow> rpc_state \<Rightarrow> rpc_state" where
  "runConversationUiActionRpc pg inp rs =
     (case rpc_guard inp of
        Some e \<Rightarrow> fst (postRpcResult pg inp (Inl e) rs)
      | None \<Rightarrow>
          let (rs1, outcome) = invokeByKind pg inp rs in
          case outcome of
            Inl e \<Rightarrow> fst (postRpcResult pg inp (Inl e) rs1)
          | Inr v \<Rightarrow>
              let (rs2, sent) = postRpcResult pg inp (Inr v) rs1 in
              if sent then rs2 else fst (postRpcResult pg inp (Inl (pg_postError pg)) rs2))"

section \<open>What the page is made to do\<close>

definition changing :: "rpc_handler \<Rightarrow> bool" where
  "changing h = (h \<in> {DomApply, DomClick, DomSetValue, MediaPlay, MediaPause, MediaObserve, EntityApply, Navigate, OpenUrl})"

definition changes_page :: "page_effect \<Rightarrow> bool" where
  "changes_page e = (case e of Invoked h _ \<Rightarrow> changing h | _ \<Rightarrow> True)"

definition runs_code :: "page_effect \<Rightarrow> bool" where
  "runs_code e = (case e of RanCode _ \<Rightarrow> True | _ \<Rightarrow> False)"

text \<open>\<open>adds P rs rs'\<close>: the step adds only effects that satisfy \<open>P\<close>, and posts only progress.\<close>

definition adds :: "(page_effect \<Rightarrow> bool) \<Rightarrow> rpc_state \<Rightarrow> rpc_state \<Rightarrow> bool" where
  "adds P rs rs' = ((\<exists>new. rs_effects rs' = rs_effects rs @ new \<and> list_all P new) \<and>
     (\<exists>ps. rs_posted rs' = rs_posted rs @ ps \<and> list_all (\<lambda>p. fst p = ''client_rpc_progress'') ps))"

lemma adds_refl [simp]: "adds P rs rs"
  by (simp add: adds_def)

lemma adds_trans: "adds P rs rs' \<Longrightarrow> adds P rs' rs'' \<Longrightarrow> adds P rs rs''"
  by (fastforce simp: adds_def)

lemma adds_mono: "adds P rs rs' \<Longrightarrow> (\<And>e. P e \<Longrightarrow> Q e) \<Longrightarrow> adds Q rs rs'"
  by (fastforce simp: adds_def list_all_iff)

lemma adds_did: "P e \<Longrightarrow> adds P rs (did e rs)"
  by (simp add: adds_def did_def)

lemma adds_progress: "adds P rs (fst (postRpcProgress pg inp name payload rs))"
  by (simp add: adds_def postRpcProgress_def post_def)

lemma adds_foldl: "(\<And>r x. adds P r (f r x)) \<Longrightarrow> adds P rs (foldl f rs xs)"
proof (induction xs arbitrary: rs)
  case (Cons x xs)
  then show ?case using adds_trans [of P rs "f rs x" "foldl f (f rs x) xs"] by simp
qed simp

lemma adds_observe:
  assumes "P (Invoked MediaObserve args)"
  shows "adds P rs (fst (makeMediaObserve pg inp args rs))"
proof -
  let ?at = "\<lambda>rs1. fst (postRpcProgress pg inp ''attached''
    (JObj [(''selector'', JStr (observe_selector pg args)), (''observing'', JNum (Fin (of_nat (length (take 10 (pg_media pg (observe_selector pg args)))))))]) rs1)"
  have d: "adds P rs ((did (Invoked MediaObserve args) rs)\<lparr>rs_cleanups := u\<rparr>)" for u
    using assms by (simp add: adds_def did_def)
  have "adds P rs (?at rs1)" "adds P rs (foldl (\<lambda>r el. fst (postRpcProgress pg inp ''snapshot'' el r)) (?at rs1) els)" if "adds P rs rs1" for rs1 els
    using that adds_progress adds_foldl [of P "\<lambda>r el. fst (postRpcProgress pg inp ''snapshot'' el r)"] by (meson adds_trans)+
  then show ?thesis
    using d by (simp add: makeMediaObserve_def Let_def case_prod_beta)
qed

lemma adds_handler:
  "adds (\<lambda>e. (changes_page e \<longrightarrow> changing h) \<and> \<not> runs_code e) rs (fst (run_handler pg inp h args rs))"
proof (cases h)
  case EntityApply
  then show ?thesis
    by (auto simp: run_handler_def makeEntityApply_def changing_def runs_code_def adds_def did_def Let_def split: option.split sum.split)
next
  case Navigate
  then show ?thesis by (simp add: run_handler_def makeNavigate_def changing_def runs_code_def adds_did Let_def)
next
  case OpenUrl
  then show ?thesis by (simp add: run_handler_def makeOpenUrl_def changing_def runs_code_def adds_did Let_def split: option.split)
next
  case MediaObserve
  then show ?thesis using adds_observe [of _ args rs pg inp] by (simp add: run_handler_def changing_def runs_code_def)
next
  case MediaUnobserve
  then show ?thesis by (simp add: run_handler_def makeMediaUnobserve_def adds_def Let_def)
qed (simp_all add: run_handler_def changing_def changes_page_def runs_code_def adds_did)

lemma script_method_gated: "map_of script_methods m = Some h \<Longrightarrow> changing h \<Longrightarrow> List.member sideEffectMethods m"
  by (auto simp: script_methods_def changing_def sideEffectMethods_def split: if_splits)

lemma adds_script_call:
  "adds (\<lambda>e. (changes_page e \<longrightarrow> ri_allowClientEffects inp) \<and> \<not> runs_code e) rs (script_call pg inp rs call)"
proof (cases "map_of script_methods (fst call)")
  case None
  then show ?thesis by (simp add: script_call_def Let_def adds_progress)
next
  case (Some h)
  then have "changing h \<Longrightarrow> List.member sideEffectMethods (fst call)" by (rule script_method_gated)
  then show ?thesis
    using adds_mono [OF adds_handler [of h rs pg inp "safeObject (snd call)"]] Some by (auto simp: script_call_def Let_def)
qed

lemma adds_page_call: "adds (\<lambda>_. True) rs (page_call pg inp rs call)"
  using adds_mono [OF adds_handler] by (simp add: page_call_def adds_progress split: option.split)

definition permitted :: "rpc_input \<Rightarrow> page_effect \<Rightarrow> bool" where
  "permitted inp e = (ri_allowClientRpcs inp \<and> (changes_page e \<longrightarrow> ri_allowClientEffects inp) \<and> (runs_code e \<longrightarrow> ri_allowUnsafePageEval inp))"

text \<open>The caller has declared the effects of the kind it asks for.\<close>

definition declared :: "rpc_input \<Rightarrow> bool" where
  "declared inp = (case map_of rpc_kinds (ri_rpcKind inp) of Some h \<Rightarrow> changing h \<or> h = PageEval \<longrightarrow> ri_sideEffectsRequested inp | None \<Rightarrow> True)"

lemma guard_passed:
  "rpc_guard inp = None \<Longrightarrow> ri_allowClientRpcs inp \<and> (ri_sideEffectsRequested inp \<longrightarrow> ri_allowClientEffects inp)"
  by (auto simp: rpc_guard_def split: if_splits)

lemma adds_invoke:
  assumes "rpc_guard inp = None" "declared inp"
  shows "adds (permitted inp) rs (fst (invokeByKind pg inp rs))"
proof (cases "map_of rpc_kinds (ri_rpcKind inp)")
  case None
  then show ?thesis by (simp add: invokeByKind_def)
next
  case (Some h)
  consider (script) "h = ScriptEval" | (page) "h = PageEval" | (other) "h \<noteq> ScriptEval" "h \<noteq> PageEval" by blast
  then show ?thesis
  proof cases
    case script
    have "adds (permitted inp) r (script_call pg inp r x)" for r x
      by (rule adds_mono [OF adds_script_call]) (use guard_passed [OF assms(1)] in \<open>auto simp: permitted_def\<close>)
    then show ?thesis using Some script by (simp add: invokeByKind_def makeScriptEval_def Let_def case_prod_beta adds_foldl)
  next
    case page
    then have "permitted inp e" if "ri_allowUnsafePageEval inp" for e
      using guard_passed [OF assms(1)] assms(2) Some that by (simp add: permitted_def declared_def)
    then have "adds (permitted inp) r (page_call pg inp r x)" "adds (permitted inp) r (did (RanCode c) r)" if "ri_allowUnsafePageEval inp" for r x c
      using adds_mono [OF adds_page_call] adds_did that by auto
    then have "adds (permitted inp) r (foldl (page_call pg inp) (did (RanCode c) r) calls)" if "ri_allowUnsafePageEval inp" for r c calls
      using that by (meson adds_foldl adds_trans)
    then show ?thesis using Some page by (simp add: invokeByKind_def makePageEval_def Let_def case_prod_beta)
  next
    case other
    have "adds (permitted inp) rs (fst (run_handler pg inp h (ri_rpcArgs inp) rs))"
      by (rule adds_mono [OF adds_handler]) (use guard_passed [OF assms(1)] assms(2) Some in \<open>auto simp: permitted_def declared_def\<close>)
    moreover have "invokeByKind pg inp rs = run_handler pg inp h (ri_rpcArgs inp) rs"
      using Some other by (cases h) (simp_all add: invokeByKind_def)
    ultimately show ?thesis by simp
  qed
qed

lemma result_effects [simp]: "rs_effects (fst (postRpcResult pg inp outcome rs)) = rs_effects rs"
  by (simp add: postRpcResult_def post_def Let_def case_prod_beta)

lemma run_effects:
  "rs_effects (runConversationUiActionRpc pg inp rs) = (if rpc_guard inp = None then rs_effects (fst (invokeByKind pg inp rs)) else rs_effects rs)"
  by (cases "snd (invokeByKind pg inp rs)")
    (auto simp: runConversationUiActionRpc_def Let_def case_prod_beta split: option.split sum.split)

section \<open>Every request is answered once\<close>

definition answers :: "rpc_input \<Rightarrow> string + jsval \<Rightarrow> (string \<times> jsval) list" where
  "answers inp outcome = (''client_rpc_result'', result_data ''rpc_id'' ''rpc_kind'' inp outcome)
     # (if ri_atype inp = ''client_probe'' then [(''client_probe_result'', result_data ''probe_id'' ''probe_kind'' inp outcome)] else [])"

lemma result_posted:
  assumes "\<And>n. \<not> pg_postFails pg n"
  shows "rs_posted (fst (postRpcResult pg inp outcome rs)) = rs_posted rs @ answers inp outcome \<and> snd (postRpcResult pg inp outcome rs)"
  using assms by (simp add: postRpcResult_def post_def answers_def Let_def)

lemma invoke_posts:
  "\<exists>ps. rs_posted (fst (invokeByKind pg inp rs)) = rs_posted rs @ ps \<and> list_all (\<lambda>p. fst p = ''client_rpc_progress'') ps"
proof -
  have "adds (\<lambda>_. True) rs (fst (invokeByKind pg inp rs))"
  proof (cases "map_of rpc_kinds (ri_rpcKind inp)")
    case (Some h)
    have "adds (\<lambda>_. True) r (script_call pg inp r x)" for r x
      by (rule adds_mono [OF adds_script_call]) simp
    then have script: "adds (\<lambda>_. True) rs (foldl (script_call pg inp) rs calls)" for calls
      by (rule adds_foldl)
    have page: "adds (\<lambda>_. True) rs (foldl (page_call pg inp) (did e rs) calls)" for calls e
      by (rule adds_trans [OF adds_did adds_foldl]) (simp_all add: adds_page_call)
    have handler: "adds (\<lambda>_. True) rs (fst (run_handler pg inp h' args rs))" for h' args
      by (rule adds_mono [OF adds_handler]) simp
    show ?thesis
      using Some by (cases h) (simp_all add: invokeByKind_def makeScriptEval_def makePageEval_def Let_def case_prod_beta script page handler)
  qed (simp add: invokeByKind_def)
  then show ?thesis by (simp add: adds_def)
qed


text \<open>A page whose handlers all succeed, and a request for its location.\<close>

definition demo_location :: page_location where
  "demo_location = \<lparr>pl_href = ''http://a/?token=x'', pl_origin = ''http://a'', pl_pathname = ''/'', pl_search = ''?token=x'', pl_hash = [], pl_title = [],
     pl_params = [(''token'', ''x'')]\<rparr>"

definition demo_page :: rpc_page where
  "demo_page = \<lparr>pg_origin = ''http://a'', pg_parseUrl = (\<lambda>_. None), pg_confirm = (\<lambda>_. False), pg_dom = (\<lambda>_ _. Inr JNull), pg_sceneApply = None,
     pg_script = (\<lambda>_ _. ([], Inr JNull)), pg_sceneEntities = [], pg_media = (\<lambda>_. []), pg_location = demo_location, pg_cssEscape = (\<lambda>s. s), pg_postFails = (\<lambda>_. False),
     pg_postError = ''Error: client_event failed''\<rparr>"

definition demo_request :: rpc_input where
  "demo_request = \<lparr>ri_atype = ''client_probe'', ri_toolCallId = ''t'', ri_rpcId = ''t'', ri_rpcKind = ''location'', ri_rpcArgs = [], ri_sessionId = Some ''s'',
     ri_allowClientRpcs = True, ri_allowClientEffects = False, ri_allowUnsafePageEval = False, ri_sideEffectsRequested = False, ri_now = 1, ri_elapsed = 0\<rparr>"

definition fresh_page :: rpc_state where
  "fresh_page = \<lparr>rs_scenes = no_scenes, rs_cleanups = [], rs_effects = [], rs_posted = [], rs_attempts = 0\<rparr>"

lemma demo_guard: "rpc_guard demo_request = None"
  by (simp add: rpc_guard_def demo_request_def js_trim_eval)


text \<open>
  A success whose copy for a probe cannot be posted is reported a second time as a failure: the post stands inside the block whose errors are
  reported as the call's.
\<close>

lemma probe_contradicted:
  assumes "rpc_guard inp = None" "invokeByKind pg inp rs = (rs1, Inr v)" "ri_atype inp = ''client_probe''"
    and "\<And>n. pg_postFails pg n \<longleftrightarrow> n = rs_attempts rs1 + 1"
  shows "rs_posted (runConversationUiActionRpc pg inp rs) =
    rs_posted rs1 @ [(''client_rpc_result'', result_data ''rpc_id'' ''rpc_kind'' inp (Inr v))] @ answers inp (Inl (pg_postError pg))"
  using assms by (simp add: runConversationUiActionRpc_def postRpcResult_def post_def answers_def Let_def)

text \<open>An address the parser refuses on its own, such as one that names only a host, is not compared with the page's origin.\<close>

lemma navigate_unparsed:
  "url_arg args \<noteq> [] \<Longrightarrow> pg_parseUrl pg (url_arg args) = None \<Longrightarrow>
   rs_effects (fst (makeNavigate pg args rs)) = rs_effects rs @ [Assigned (url_arg args)]"
  by (simp add: makeNavigate_def did_def Let_def)

section \<open>What the location tells\<close>

text \<open>
  The parameters of the address are reported with the values of the sensitive ones replaced, but the address and its query are reported as they are.
\<close>

lemma param_redacted:
  assumes "isSensitiveKey k" "k \<in> set ks"
  shows "map_of (foldl (param_put params) out ks) k = Some ''(redacted)''"
proof -
  have put: "map_of (param_put params out x) k = (if x = k then Some ''(redacted)'' else map_of out k)" for out x
    using assms(1) by (simp add: param_put_def update_conv')
  have keep: "map_of (foldl (param_put params) out ks) k = Some ''(redacted)''" if "map_of out k = Some ''(redacted)''" for out ks
    using that by (induction ks arbitrary: out) (simp_all add: put)
  show ?thesis
    using assms(2) by (induction ks arbitrary: out) (auto simp: put keep)
qed

lemma location_leaks:
  "js_get (makeLocation demo_location) ''search_params'' = JObj [(''token'', JStr ''(redacted)'')] \<and>
   js_get (makeLocation demo_location) ''href'' = JStr ''http://a/?token=x'' \<and> js_get (makeLocation demo_location) ''search'' = JStr ''?token=x''"
  by code_simp

end
