(* ===== verification/Client_Auto_Run.thy ===== *)
theory Client_Auto_Run
  imports Client_Rpc
begin

text \<open>
  Calls that start by themselves: \<^verbatim>\<open>useConversationViewState.ts\<close> and \<^verbatim>\<open>useConversationUiActionRpcState.ts\<close> under
  \<^verbatim>\<open>src/ui/src/components/conversation\<close>, and the effect of \<^verbatim>\<open>src/ui/src/hooks/useRuntimeClientEffects.ts\<close> that replays the actions
  stored by the daemon. Each goes through all its events whenever it runs and remembers what it has started in a table
  of bounded size; the locale \<open>seen_table\<close> states what they rely on.
\<close>

section \<open>Tables of what was started\<close>

definition markSeenWithLimit :: "rat \<Rightarrow> rat jsobj \<Rightarrow> string \<Rightarrow> nat \<Rightarrow> rat jsobj" where
  "markSeenWithLimit now store key limit =
     (if key = [] then store
      else
        let store' = obj_put store key now; keys = js_keys store' in
        if length keys \<le> limit then store'
        else
          let items = js_sort (key_asc (\<lambda>k. opt_or (map_of store' k) 0)) keys
          in obj_del_all store' (take (length items - limit) items))"

definition LOCAL_UI_ACTION_LIMIT :: nat where
  "LOCAL_UI_ACTION_LIMIT = 2000"

definition markAckedKey :: "rat \<Rightarrow> string \<Rightarrow> rat jsobj \<Rightarrow> rat jsobj" where
  "markAckedKey now key prev = markSeenWithLimit now prev key 2000"

definition seen_in :: "rat jsobj \<Rightarrow> string \<Rightarrow> bool" where
  "seen_in store key = (opt_or (map_of store key) 0 \<noteq> 0)"

text \<open>A pass over events: what has a key that is not in the table yet is entered there and acted upon.\<close>

fun once_each :: "('t \<Rightarrow> string \<Rightarrow> bool) \<Rightarrow> ('t \<Rightarrow> string \<Rightarrow> 't) \<Rightarrow> ('e \<Rightarrow> string option) \<Rightarrow> ('e \<Rightarrow> 's \<Rightarrow> 's) \<Rightarrow> 't \<times> 's \<Rightarrow> 'e list \<Rightarrow> 't \<times> 's" where
  "once_each seen mark key act (t, s) [] = (t, s)"
| "once_each seen mark key act (t, s) (e # es) =
     (case key e of
        None \<Rightarrow> once_each seen mark key act (t, s) es
      | Some k \<Rightarrow> if seen t k then once_each seen mark key act (t, s) es else once_each seen mark key act (mark t k, act e s) es)"

section \<open>Effects of the conversation view\<close>

definition shown_key :: "jsval \<Rightarrow> string option" where
  "shown_key ev =
     (let parsed = parseConversationUiAction (JObj (getNormalizedEventRecord (js_get ev ''data''))) in
      if js_get ev ''type'' = JStr ''ui_action'' then non_empty (ua_toolCallId parsed) else None)"

definition shown_act :: "rpc_page \<Rightarrow> jsval \<Rightarrow> rpc_state \<Rightarrow> rpc_state" where
  "shown_act pg ev rs =
     (let parsed = parseConversationUiAction (JObj (getNormalizedEventRecord (js_get ev ''data'')))
      in fst (post pg ''ui_action_shown'' (JObj [(''tool_call_id'', JStr (ua_toolCallId parsed)), (''action_type'', JStr (ua_atype parsed)),
           (''title'', JStr (ua_title parsed))]) rs))"

definition shown_effect :: "rpc_page \<Rightarrow> rat \<Rightarrow> string option \<Rightarrow> jsval list \<Rightarrow> rat jsobj \<times> rpc_state \<Rightarrow> rat jsobj \<times> rpc_state" where
  "shown_effect pg now sessionId events ts =
     (if js_trim (opt_or sessionId []) = [] then ts
      else once_each seen_in (\<lambda>t k. markSeenWithLimit now t k LOCAL_UI_ACTION_LIMIT) shown_key (shown_act pg) ts events)"

definition rpc_action :: "string \<Rightarrow> bool" where
  "rpc_action atype = (atype = ''client_rpc'' \<or> atype = ''collab_rpc'' \<or> atype = ''client_probe'')"

definition scene_key :: "jsval \<Rightarrow> string option" where
  "scene_key ev =
     (let parsed = parseConversationUiAction (JObj (getNormalizedEventRecord (js_get ev ''data''))) in
      if js_get ev ''type'' = JStr ''ui_action'' \<and> rpc_action (ua_atype parsed) \<and> ua_rpcKind parsed = ''entity_apply'' \<and>
         ua_autoRunRequested parsed \<and> ua_rpcId parsed \<noteq> []
      then Some (''entity_apply:'' @ str_or (ua_toolCallId parsed) (ua_rpcId parsed)) else None)"

definition view_input :: "jsval \<Rightarrow> string option \<Rightarrow> rat \<Rightarrow> rpc_input" where
  "view_input ev sessionId now =
     (let parsed = parseConversationUiAction (JObj (getNormalizedEventRecord (js_get ev ''data'')))
      in \<lparr>ri_atype = ua_atype parsed, ri_toolCallId = ua_toolCallId parsed, ri_rpcId = ua_rpcId parsed, ri_rpcKind = ua_rpcKind parsed,
          ri_rpcArgs = ua_rpcArgs parsed, ri_sessionId = sessionId, ri_allowClientRpcs = True, ri_allowClientEffects = True,
          ri_allowUnsafePageEval = False, ri_sideEffectsRequested = True, ri_now = now, ri_elapsed = 0\<rparr>)"

text \<open>Both results are posted, whether or not the first arrives.\<close>

definition scene_act :: "rpc_page \<Rightarrow> rat \<Rightarrow> string option \<Rightarrow> jsval \<Rightarrow> rpc_state \<Rightarrow> rpc_state" where
  "scene_act pg now sessionId ev rs =
     (let inp = view_input ev sessionId now;
          (rs1, outcome) = makeEntityApply pg (ri_rpcArgs inp) rs;
          rs2 = fst (post pg ''client_rpc_result'' (result_data ''rpc_id'' ''rpc_kind'' inp outcome) rs1)
      in if ri_atype inp = ''client_probe''
         then fst (post pg ''client_probe_result'' (result_data ''probe_id'' ''probe_kind'' inp outcome) rs2) else rs2)"

record view_settings =
  vw_disableAuto :: bool
  vw_allowClientRpcs :: bool
  vw_allowClientEffects :: bool
  vw_allowUnsafePageEval :: bool
  vw_sessionId :: "string option"

definition auto_scene_effect :: "rpc_page \<Rightarrow> rat \<Rightarrow> view_settings \<Rightarrow> jsval list \<Rightarrow> rat jsobj \<times> rpc_state \<Rightarrow> rat jsobj \<times> rpc_state" where
  "auto_scene_effect pg now vw events ts =
     (if vw_disableAuto vw \<or> \<not> vw_allowClientRpcs vw \<or> \<not> vw_allowClientEffects vw \<or> pg_sceneApply pg = None \<or> js_trim (opt_or (vw_sessionId vw) []) = []
      then ts
      else once_each seen_in (\<lambda>t k. markSeenWithLimit now t k LOCAL_UI_ACTION_LIMIT) scene_key (scene_act pg now (vw_sessionId vw)) ts events)"

section \<open>Replaying the stored actions\<close>

definition ackedRpcIds :: "jsval list \<Rightarrow> string list" where
  "ackedRpcIds rows =
     List.map_filter (\<lambda>row.
       let data = safeObject (js_get row ''data''); rpcId = str_or (conv_trimmed (obj_get data ''rpc_id'')) (conv_trimmed (obj_get data ''probe_id'')) in
       if js_get row ''type'' = JStr ''client_rpc_result'' then non_empty rpcId else None) rows"

definition row_action :: "jsval \<Rightarrow> jsval jsobj" where
  "row_action row = safeObject (js_get row ''action'')"

definition row_rpcId :: "jsval \<Rightarrow> string" where
  "row_rpcId row =
     js_trim (js_String (js_coalesce (obj_get (row_action row) ''rpc_id'') (js_coalesce (obj_get (row_action row) ''probe_id'')
       (js_or (js_get row ''tool_call_id'') (JStr [])))))"

definition row_rpc :: "jsval \<Rightarrow> jsval jsobj" where
  "row_rpc row = (if isUnknownRecord (obj_get (row_action row) ''rpc'') then safeObject (obj_get (row_action row) ''rpc'')
     else safeObject (obj_get (row_action row) ''probe''))"

definition supportedAutoRunKinds :: "string list" where
  "supportedAutoRunKinds = [''entity_apply'', ''media_play'', ''media_pause'', ''media_snapshot'']"

definition row_key :: "string \<Rightarrow> string list \<Rightarrow> jsval \<Rightarrow> string option" where
  "row_key sess acked row =
     (case js_Number (js_coalesce (js_get row ''id'') (JNum NaN)) of
        Fin i \<Rightarrow>
          if rpc_action (conv_trimmed (obj_get (row_action row) ''type'')) \<and> row_rpcId row \<noteq> [] \<and>
             (List.member acked (row_rpcId row) \<or>
              List.member supportedAutoRunKinds (conv_trimmed (obj_get (row_rpc row) ''kind'')) \<and> auto_run_flag (row_action row))
          then Some (sess @ ''::ui_action_id::'' @ num_str (Fin i)) else None
      | _ \<Rightarrow> None)"

definition db_input :: "string \<Rightarrow> bool \<Rightarrow> bool \<Rightarrow> rat \<Rightarrow> jsval \<Rightarrow> rpc_input" where
  "db_input sess allowRpcs allowEffects now row =
     (let rpc = row_rpc row; rpcKind = conv_trimmed (obj_get rpc ''kind'')
      in \<lparr>ri_atype = conv_trimmed (obj_get (row_action row) ''type''), ri_toolCallId = js_String (js_or (js_get row ''tool_call_id'') (JStr [])),
          ri_rpcId = row_rpcId row, ri_rpcKind = rpcKind,
          ri_rpcArgs = (if isUnknownRecord (obj_get rpc ''args'') then safeObject (obj_get rpc ''args'') else rpc),
          ri_sessionId = Some sess, ri_allowClientRpcs = allowRpcs, ri_allowClientEffects = allowEffects, ri_allowUnsafePageEval = False,
          ri_sideEffectsRequested = (obj_get rpc ''side_effects'' = JBool True \<or> obj_get (row_action row) ''side_effects'' = JBool True \<or>
            rpcKind = ''entity_apply'' \<or> rpcKind = ''media_play'' \<or> rpcKind = ''media_pause''),
          ri_now = now, ri_elapsed = 0\<rparr>)"

text \<open>The rows are taken oldest first; the effect may be cancelled after some of them. An action with a recorded result is only entered in the table.\<close>

definition db_effect :: "rpc_page \<Rightarrow> rat \<Rightarrow> bool \<Rightarrow> bool \<Rightarrow> string \<Rightarrow> jsval list \<Rightarrow> jsval list \<Rightarrow> nat \<Rightarrow> rat jsobj \<times> rpc_state \<Rightarrow> rat jsobj \<times> rpc_state" where
  "db_effect pg now allowRpcs allowEffects sessionId clientEventRows uiActionRows processed ts =
     (let sess = js_trim sessionId; acked = ackedRpcIds clientEventRows in
      if \<not> allowRpcs \<or> \<not> allowEffects \<or> sess = [] then ts
      else once_each seen_in (\<lambda>t k. markSeenWithLimit now t k 2000) (row_key sess acked)
             (\<lambda>row rs. if List.member acked (row_rpcId row) then rs
                       else runConversationUiActionRpc pg (db_input sess allowRpcs allowEffects now row) rs)
             ts (take processed (rev uiActionRows)))"

section \<open>Cards that start their call\<close>

record card =
  cd_data :: jsval
  cd_idx :: nat

definition card_request :: "view_settings \<Rightarrow> card \<Rightarrow> ConversationUiActionRpcRequest" where
  "card_request vw cd = deriveConversationRpcRequest (cd_data cd) (vw_sessionId vw) (vw_allowClientRpcs vw) (vw_allowClientEffects vw)"

definition card_input :: "view_settings \<Rightarrow> rat \<Rightarrow> card \<Rightarrow> rpc_input" where
  "card_input vw now cd =
     (let request = card_request vw cd
      in \<lparr>ri_atype = rq_atype request, ri_toolCallId = rq_toolCallId request, ri_rpcId = rq_rpcId request, ri_rpcKind = rq_rpcKind request,
          ri_rpcArgs = rq_rpcArgs request, ri_sessionId = vw_sessionId vw, ri_allowClientRpcs = vw_allowClientRpcs vw,
          ri_allowClientEffects = vw_allowClientEffects vw, ri_allowUnsafePageEval = vw_allowUnsafePageEval vw,
          ri_sideEffectsRequested = rq_sideEffectsRequested request, ri_now = now, ri_elapsed = 0\<rparr>)"

definition ackKey :: "view_settings \<Rightarrow> card \<Rightarrow> string" where
  "ackKey vw cd = ''rpc:'' @ str_or (rq_toolCallId (card_request vw cd)) (str_or (rq_rpcId (card_request vw cd)) (nat_str (cd_idx cd)))"

definition globalKey :: "view_settings \<Rightarrow> card \<Rightarrow> string" where
  "globalKey vw cd = str_or (js_trim (opt_or (vw_sessionId vw) [])) ''no_session'' @ ''::'' @ ackKey vw cd"

definition globalAutoRunOnceMap :: "bool jsobj \<Rightarrow> bool jsobj" where
  "globalAutoRunOnceMap m = (if length (js_keys m) > 2000 then [] else m)"

record auto_state =
  au_once :: "bool jsobj"
  au_probeRan :: "rat jsobj"
  au_pending :: "rpc_input jsobj"
  au_started :: "string list"
  au_rpc :: rpc_state

definition alreadyRan :: "view_settings \<Rightarrow> card \<Rightarrow> auto_state \<Rightarrow> bool" where
  "alreadyRan vw cd au = (seen_in (au_probeRan au) (ackKey vw cd) \<or> opt_or (map_of (au_once au) (globalKey vw cd)) False)"

definition wants_auto :: "view_settings \<Rightarrow> card \<Rightarrow> bool" where
  "wants_auto vw cd =
     (\<not> vw_disableAuto vw \<and> rq_autoRun (card_request vw cd) \<and> rq_rpcKind (card_request vw cd) \<noteq> ''entity_apply'' \<and> rq_canRun (card_request vw cd))"

definition card_effect :: "view_settings \<Rightarrow> rat \<Rightarrow> auto_state \<Rightarrow> card \<Rightarrow> auto_state" where
  "card_effect vw now au cd =
     au\<lparr>au_probeRan := markSeenWithLimit now (au_probeRan au) (ackKey vw cd) LOCAL_UI_ACTION_LIMIT,
        au_once := obj_put (au_once au) (globalKey vw cd) True,
        au_pending := obj_put (au_pending au) (globalKey vw cd) (card_input vw now cd)\<rparr>"

text \<open>The view's own effect comes after those of its cards and starts what they left; the trace \<open>au_started\<close> records what was started.\<close>

definition flush_pending :: "rpc_page \<Rightarrow> auto_state \<Rightarrow> auto_state" where
  "flush_pending pg au =
     au\<lparr>au_pending := [], au_started := au_started au @ js_keys (au_pending au),
        au_rpc := foldl (\<lambda>rs p. runConversationUiActionRpc pg (snd p) rs) (au_rpc au) (js_entries (au_pending au))\<rparr>"

text \<open>A commit: all cards are drawn, which settles whether they have run already, then their effects run, then the view's.\<close>

definition commit :: "rpc_page \<Rightarrow> view_settings \<Rightarrow> rat \<Rightarrow> card list \<Rightarrow> auto_state \<Rightarrow> auto_state" where
  "commit pg vw now cards au =
     (let au0 = au\<lparr>au_once := globalAutoRunOnceMap (au_once au)\<rparr>
      in flush_pending pg (foldl (card_effect vw now) au0 (filter (\<lambda>cd. wants_auto vw cd \<and> \<not> alreadyRan vw cd au0) cards)))"

definition onRun :: "rpc_page \<Rightarrow> view_settings \<Rightarrow> rat \<Rightarrow> card \<Rightarrow> auto_state \<Rightarrow> auto_state" where
  "onRun pg vw now cd au =
     au\<lparr>au_probeRan := markSeenWithLimit now (au_probeRan au) (ackKey vw cd) LOCAL_UI_ACTION_LIMIT,
        au_rpc := runConversationUiActionRpc pg (card_input vw now cd) (au_rpc au)\<rparr>"

section \<open>Nothing happens without permission\<close>

lemma declared_card: "declared (card_input vw now cd)"
proof -
  have "List.member RPC_SIDE_EFFECT_KINDS k" if "map_of rpc_kinds k = Some h" "changing h \<or> h = PageEval" for k h
    using that by (auto simp: rpc_kinds_def changing_def RPC_SIDE_EFFECT_KINDS_def split: if_splits)
  then show ?thesis
    by (auto simp: declared_def card_input_def card_request_def deriveConversationRpcRequest_def parseConversationUiAction_def Let_def split: option.split)
qed

lemma declared_row: "List.member supportedAutoRunKinds (ri_rpcKind (db_input sess a b now row)) \<Longrightarrow> declared (db_input sess a b now row)"
  by (auto simp: declared_def db_input_def rpc_kinds_def changing_def supportedAutoRunKinds_def Let_def split: if_splits)

text \<open>
  C7. An agent cannot act on the page against the user's settings: whatever it asks for through a card (run by itself or by hand) or through the
  stored actions, what the page is made to do requires that client calls are allowed; what changes the page, the
  scene or the address, also from within a script, requires that side effects are allowed; and code runs in
  the page itself only when that is allowed as well, which replayed actions never are.
\<close>

theorem effects_need_permission:
  assumes "inp = card_input vw now cd \<or> inp = db_input sess a b now row \<and> List.member supportedAutoRunKinds (ri_rpcKind inp)"
  shows "\<exists>new. rs_effects (runConversationUiActionRpc pg inp rs) = rs_effects rs @ new \<and> list_all (permitted inp) new"
proof (cases "rpc_guard inp")
  case None
  have "declared inp" using assms declared_card declared_row by auto
  with None show ?thesis using adds_invoke by (simp add: run_effects adds_def)
qed (simp add: run_effects)

definition demo_settings :: view_settings where
  "demo_settings = \<lparr>vw_disableAuto = False, vw_allowClientRpcs = True, vw_allowClientEffects = False, vw_allowUnsafePageEval = True, vw_sessionId = Some ''s''\<rparr>"

definition rpc_card :: "string \<Rightarrow> card" where
  "rpc_card kind = \<lparr>cd_data = JObj [(''tool_call_id'', JStr ''t''), (''action'', JObj [(''type'', JStr ''client_rpc''), (''rpc'', JObj [(''kind'', JStr kind)])])],
     cd_idx = 0\<rparr>"

theorem effects_need_permission_witness:
  "rs_effects (runConversationUiActionRpc demo_page (card_input demo_settings 1 (rpc_card ''location'')) fresh_page) = [Invoked Location [(''kind'', JStr ''location'')]] \<and>
   permitted (card_input demo_settings 1 (rpc_card ''location'')) (Invoked Location [(''kind'', JStr ''location'')]) \<and>
   rs_effects (runConversationUiActionRpc demo_page (card_input demo_settings 1 (rpc_card ''dom_click'')) fresh_page) = []"
proof -
  let ?inp = "card_input demo_settings 1 (rpc_card ''location'')"
  have e: "rs_effects (runConversationUiActionRpc demo_page ?inp fresh_page) = [Invoked Location [(''kind'', JStr ''location'')]]"
    "rs_effects (runConversationUiActionRpc demo_page (card_input demo_settings 1 (rpc_card ''dom_click'')) fresh_page) = []"
    by code_simp+
  have "\<exists>new. rs_effects (runConversationUiActionRpc demo_page ?inp fresh_page) = rs_effects fresh_page @ new \<and> list_all (permitted ?inp) new"
    by (rule effects_need_permission [OF disjI1 [OF refl]])
  with e show ?thesis by (simp add: fresh_page_def)
qed

section \<open>The first event of each key\<close>

fun firsts :: "('e \<Rightarrow> string option) \<Rightarrow> string set \<Rightarrow> 'e list \<Rightarrow> 'e list" where
  "firsts key S [] = []"
| "firsts key S (e # es) =
     (case key e of None \<Rightarrow> firsts key S es | Some k \<Rightarrow> if k \<in> S then firsts key S es else e # firsts key (insert k S) es)"

lemma map_filter_append: "List.map_filter f (xs @ ys) = List.map_filter f xs @ List.map_filter f ys"
  by (simp add: List.map_filter_def)

lemma map_filter_concat_sub: "set (List.map_filter f es) \<subseteq> set (List.map_filter f (concat (es # ess)))"
  by (simp add: map_filter_append)

lemma firsts_append: "firsts key S (es @ es') = firsts key S es @ firsts key (S \<union> set (List.map_filter key es)) es'"
  by (induction es arbitrary: S) (auto simp: map_filter_simps insert_absorb split: option.split)

lemma firsts_once:
  "distinct (map key (firsts key S es)) \<and> set (map key (firsts key S es)) = Some ` (set (List.map_filter key es) - S)"
proof (induction es arbitrary: S)
  case (Cons e es)
  show ?case
  proof (cases "key e")
    case None
    with Cons show ?thesis by (simp add: map_filter_simps)
  next
    case (Some k)
    show ?thesis
    proof (cases "k \<in> S")
      case True
      with Cons [of S] Some show ?thesis by (simp add: map_filter_simps insert_Diff_if)
    next
      case False
      have "insert (Some k) (Some ` (A - insert k S)) = Some ` (insert k A - S)" for A using False by auto
      with Cons [of "insert k S"] Some False show ?thesis by (simp add: map_filter_simps image_iff)
    qed
  qed
qed (simp add: map_filter_simps)

lemma firsts_pair: "firsts (\<lambda>(c, e). key c e) S (map (Pair c) es) = map (Pair c) (firsts (key c) S es)"
  by (induction es arbitrary: S) (simp_all split: option.split)

lemma map_filter_pair: "List.map_filter (\<lambda>(c, e). key c e) (map (Pair c) es) = List.map_filter (key c) es"
  by (simp add: List.map_filter_def filter_map comp_def)

text \<open>The events of several passes, each with what its pass knows.\<close>

definition with_pass :: "('c \<times> 'e list) list \<Rightarrow> ('c \<times> 'e) list" where
  "with_pass passes = concat (map (\<lambda>(c, es). map (Pair c) es) passes)"

section \<open>Each action once, however often the effects run\<close>

text \<open>
  What the effects rely on: while there is room for a key in the table, entering it adds exactly this key. The lemmas say what a pass over events, and
  a sequence of passes, then does.
\<close>

locale seen_table =
  fixes seen :: "'t \<Rightarrow> string \<Rightarrow> bool" and mark :: "rat \<Rightarrow> 't \<Rightarrow> string \<Rightarrow> 't" and ok :: "'t \<Rightarrow> bool" and limit :: nat
  assumes seen_mark: "ok t \<Longrightarrow> 0 < now \<Longrightarrow> k \<noteq> [] \<Longrightarrow> card (insert k (Collect (seen t))) \<le> limit \<Longrightarrow>
      ok (mark now t k) \<and> Collect (seen (mark now t k)) = insert k (Collect (seen t))"
    and finite_seen: "ok t \<Longrightarrow> finite (Collect (seen t))"
begin

lemma once_each_firsts:
  assumes "ok t" "0 < now" "\<And>e. key e \<noteq> Some []" "card (Collect (seen t) \<union> set (List.map_filter key es)) \<le> limit"
  shows "ok (fst (once_each seen (mark now) key act (t, s) es)) \<and>
    Collect (seen (fst (once_each seen (mark now) key act (t, s) es))) = Collect (seen t) \<union> set (List.map_filter key es) \<and>
    snd (once_each seen (mark now) key act (t, s) es) = foldl (\<lambda>s e. act e s) s (firsts key (Collect (seen t)) es)"
  using assms(1,4)
proof (induction es arbitrary: t s)
  case (Cons e es)
  show ?case
  proof (cases "key e")
    case None
    with Cons show ?thesis by (simp add: map_filter_simps)
  next
    case (Some k)
    show ?thesis
    proof (cases "seen t k")
      case True
      with Cons Some show ?thesis by (auto simp: map_filter_simps insert_absorb)
    next
      case False
      let ?S = "Collect (seen t)"
      have fin: "finite ?S" using finite_seen Cons.prems(1) .
      have sub: "insert k ?S \<subseteq> ?S \<union> set (List.map_filter key (e # es))" using Some by (auto simp: map_filter_simps)
      then have "card (insert k ?S) \<le> limit" using Cons.prems(2) fin by (meson card_mono finite_UnI finite_set order_trans)
      then have m: "ok (mark now t k)" "Collect (seen (mark now t k)) = insert k ?S"
        using seen_mark [OF Cons.prems(1) assms(2)] assms(3) [of e] Some by auto
      have "card (Collect (seen (mark now t k)) \<union> set (List.map_filter key es)) \<le> limit"
        using Cons.prems(2) Some by (simp add: m(2) map_filter_simps)
      from Cons.IH [OF m(1) this, of "act e s"] Some False m(2) show ?thesis by (simp add: map_filter_simps)
    qed
  qed
qed (simp add: map_filter_simps)

lemma passes_firsts:
  assumes "ok t" "\<And>c e. key c e \<noteq> Some []" "list_all (\<lambda>(c, es). 0 < clock c) passes"
    and "card (Collect (seen t) \<union> set (List.map_filter (\<lambda>(c, e). key c e) (with_pass passes))) \<le> limit"
  shows "snd (foldl (\<lambda>ts (c, es). once_each seen (mark (clock c)) (key c) (act c) ts es) (t, s) passes) =
    foldl (\<lambda>s (c, e). act c e s) s (firsts (\<lambda>(c, e). key c e) (Collect (seen t)) (with_pass passes))"
  using assms(1,3,4)
proof (induction passes arbitrary: t s)
  case (Cons p passes)
  obtain c es where p: "p = (c, es)" by (cases p)
  let ?keys = "\<lambda>xs. set (List.map_filter (\<lambda>(c, e). key c e) xs)"
  have w: "with_pass (p # passes) = map (Pair c) es @ with_pass passes" by (simp add: with_pass_def p)
  then have k: "?keys (with_pass (p # passes)) = set (List.map_filter (key c) es) \<union> ?keys (with_pass passes)"
    by (simp add: map_filter_append map_filter_pair)
  obtain t' s' where r: "once_each seen (mark (clock c)) (key c) (act c) (t, s) es = (t', s')"
    by (cases "once_each seen (mark (clock c)) (key c) (act c) (t, s) es")
  have "card (Collect (seen t) \<union> set (List.map_filter (key c) es)) \<le> card (Collect (seen t) \<union> ?keys (with_pass (p # passes)))"
    using finite_seen [OF Cons.prems(1)] by (intro card_mono) (auto simp: k)
  then have "card (Collect (seen t) \<union> set (List.map_filter (key c) es)) \<le> limit" using Cons.prems(3) by simp
  from once_each_firsts [OF Cons.prems(1) _ assms(2) this, of "clock c" "act c" s] Cons.prems(2)
  have f: "ok t'" "Collect (seen t') = Collect (seen t) \<union> set (List.map_filter (key c) es)"
      "s' = foldl (\<lambda>s e. act c e s) s (firsts (key c) (Collect (seen t)) es)" by (simp_all add: p r)
  have "card (Collect (seen t') \<union> ?keys (with_pass passes)) \<le> limit" using Cons.prems(3) by (simp add: f(2) k Un_assoc)
  from Cons.IH [OF f(1) _ this, of s'] Cons.prems(2) show ?case
    by (simp add: p r w [unfolded p] f firsts_append firsts_pair map_filter_pair foldl_map)
qed (simp add: with_pass_def)

end

definition table_ok :: "rat jsobj \<Rightarrow> bool" where
  "table_ok t = (wf_obj t \<and> list_all (\<lambda>p. 0 < snd p) t)"

lemma key_listed: "k \<in> fst ` set ps \<longleftrightarrow> (\<exists>v. map_of ps k = Some v \<and> (k, v) \<in> set ps)"
  by (metis domIff dom_map_of_conv_image_fst map_of_SomeD option.exhaust option.simps(3))

lemma seen_dom:
  assumes "table_ok t"
  shows "Collect (seen_in t) = fst ` set t"
proof -
  have "seen_in t k \<longleftrightarrow> k \<in> fst ` set t" for k
    using assms key_listed [of k t] by (cases "map_of t k") (auto simp: seen_in_def table_ok_def list_all_iff)
  then show ?thesis by blast
qed

lemma mark_room:
  assumes "table_ok t" "0 < now" "k \<noteq> []" "card (insert k (Collect (seen_in t))) \<le> limit"
  shows "table_ok (markSeenWithLimit now t k limit) \<and> Collect (seen_in (markSeenWithLimit now t k limit)) = insert k (Collect (seen_in t))"
proof -
  let ?t = "obj_put t k now"
  have ok: "table_ok ?t" using assms(1,2) by (simp add: table_ok_def wf_obj_put list_all_put)
  have dom: "fst ` set ?t = insert k (fst ` set t)" by (simp add: dom_update)
  have "length ?t = card (fst ` set ?t)" using ok by (metis table_ok_def distinct_card length_map list.set_map)
  then have "length (js_keys ?t) \<le> limit" using assms(1,4) by (simp add: dom seen_dom)
  then have "markSeenWithLimit now t k limit = ?t" using assms(3) by (simp add: markSeenWithLimit_def Let_def)
  then show ?thesis using ok assms(1) by (simp add: seen_dom dom)
qed

interpretation ui_actions_seen: seen_table seen_in "\<lambda>now t k. markSeenWithLimit now t k LOCAL_UI_ACTION_LIMIT" table_ok LOCAL_UI_ACTION_LIMIT
  by unfold_locales (simp_all add: mark_room, simp add: seen_dom)

definition scene_allowed :: "rpc_page \<Rightarrow> view_settings \<Rightarrow> bool" where
  "scene_allowed pg vw = (\<not> vw_disableAuto vw \<and> vw_allowClientRpcs vw \<and> vw_allowClientEffects vw \<and> pg_sceneApply pg \<noteq> None \<and>
     js_trim (opt_or (vw_sessionId vw) []) \<noteq> [])"

text \<open>
  C21. A scene change an agent asks for is carried out exactly once: however often the view's effect goes through the growing list of events, the
  outcome is that of carrying out the first event of each request, in order of appearance, and each
  request occurs among those once (as long as at most 2000 are remembered); without permission nothing is done.
\<close>

theorem scene_actions_once:
  assumes "list_all (\<lambda>(now, es). 0 < now) passes"
    and "card (set (List.map_filter (\<lambda>(now, ev). scene_key ev) (with_pass passes))) \<le> LOCAL_UI_ACTION_LIMIT"
  shows "let done = firsts (\<lambda>(now, ev). scene_key ev) {} (with_pass passes) in
    snd (foldl (\<lambda>ts (now, es). auto_scene_effect pg now vw es ts) ([], rs) passes) =
      (if scene_allowed pg vw then foldl (\<lambda>rs (now, ev). scene_act pg now (vw_sessionId vw) ev rs) rs done else rs) \<and>
    distinct (map (\<lambda>(now, ev). scene_key ev) done) \<and>
    set (map (\<lambda>(now, ev). scene_key ev) done) = Some ` set (List.map_filter (\<lambda>(now, ev). scene_key ev) (with_pass passes))"
proof -
  have e: "table_ok []" "Collect (seen_in []) = {}" by (simp_all add: table_ok_def seen_in_def)
  have k: "scene_key ev \<noteq> Some []" for ev by (simp add: scene_key_def Let_def)
  have idle: "foldl (\<lambda>ts (now, es). ts) ts ps = ts" for ts and ps :: "(rat \<times> jsval list) list" by (induction ps) auto
  note once = firsts_once [of "\<lambda>(now, ev). scene_key ev" "{}" "with_pass passes"]
  note run = ui_actions_seen.passes_firsts [where clock = "\<lambda>c. c" and key = "\<lambda>_. scene_key" and passes = passes and t = "[]" and s = rs
      and act = "\<lambda>now. scene_act pg now (vw_sessionId vw)"]
  show ?thesis
  proof (cases "scene_allowed pg vw")
    case True
    then have "auto_scene_effect pg now vw es ts =
        once_each seen_in (\<lambda>t k. markSeenWithLimit now t k LOCAL_UI_ACTION_LIMIT) scene_key (scene_act pg now (vw_sessionId vw)) ts es" for now es ts
      by (auto simp: auto_scene_effect_def scene_allowed_def)
    with True run e k assms once show ?thesis by (simp add: Let_def)
  next
    case False
    then have "auto_scene_effect pg now vw es ts = ts" for now es ts by (auto simp: auto_scene_effect_def scene_allowed_def)
    with False once idle [of "([] :: rat jsobj, rs)" passes] show ?thesis by (simp add: Let_def)
  qed
qed

text \<open>The same for the actions the daemon has stored: a pass knows its time and the results recorded so far.\<close>

lemma stored_actions_once:
  fixes sess :: string and passes :: "((rat \<times> string list) \<times> jsval list) list"
  defines "key \<equiv> \<lambda>(c, row). row_key sess (snd c) row"
  assumes "sess \<noteq> []" "list_all (\<lambda>(c, rows). 0 < fst c) passes" "card (set (List.map_filter key (with_pass passes))) \<le> LOCAL_UI_ACTION_LIMIT"
  shows "snd (foldl (\<lambda>ts (c, rows). once_each seen_in (\<lambda>t k. markSeenWithLimit (fst c) t k LOCAL_UI_ACTION_LIMIT) (row_key sess (snd c))
        (\<lambda>row rs. if List.member (snd c) (row_rpcId row) then rs else runConversationUiActionRpc pg (db_input sess True True (fst c) row) rs) ts rows)
        ([], rs) passes) =
    foldl (\<lambda>rs (c, row). if List.member (snd c) (row_rpcId row) then rs else runConversationUiActionRpc pg (db_input sess True True (fst c) row) rs) rs
      (firsts key {} (with_pass passes))"
proof -
  have e: "table_ok []" "Collect (seen_in []) = {}" by (simp_all add: table_ok_def seen_in_def)
  have k: "row_key sess acked row \<noteq> Some []" for acked row by (simp add: row_key_def split: jsnum.split)
  show ?thesis
    using ui_actions_seen.passes_firsts [where clock = fst and key = "\<lambda>c. row_key sess (snd c)" and passes = passes and t = "[]" and s = rs
      and act = "\<lambda>c row rs. if List.member (snd c) (row_rpcId row) then rs else runConversationUiActionRpc pg (db_input sess True True (fst c) row) rs"]
      e k assms(2-4) by (simp add: key_def)
qed

definition scene_page :: rpc_page where
  "scene_page = demo_page\<lparr>pg_sceneApply := Some (applySceneOps ''k'' 1 (\<lambda>_. ''e'') ''s'')\<rparr>"

definition create_event :: jsval where
  "create_event = JObj [(''type'', JStr ''ui_action''), (''data'', JObj [(''tool_call_id'', JStr ''t''), (''action'', JObj [(''type'', JStr ''client_rpc''),
     (''rpc'', JObj [(''kind'', JStr ''entity_apply''), (''args'', JObj [(''id'', JStr ''a''), (''type'', JStr ''box''), (''title'', JStr ''A'')])])])])]"

theorem scene_actions_once_witness:
  "snd (foldl (\<lambda>ts (now, es). auto_scene_effect scene_page now (demo_settings\<lparr>vw_allowClientEffects := True\<rparr>) es ts) ([], fresh_page)
     [(1, [create_event]), (2, [create_event, create_event])]) = scene_act scene_page 1 (Some ''s'') create_event fresh_page"
proof -
  have k: "scene_key create_event = Some ''entity_apply:t''" by code_simp
  have "scene_allowed scene_page (demo_settings\<lparr>vw_allowClientEffects := True\<rparr>)"
    by (simp add: scene_allowed_def scene_page_def demo_settings_def js_trim_eval)
  then show ?thesis
    using scene_actions_once [of "[(1, [create_event]), (2, [create_event, create_event])]" scene_page "demo_settings\<lparr>vw_allowClientEffects := True\<rparr>" fresh_page]
    by (simp add: with_pass_def k map_filter_simps Let_def LOCAL_UI_ACTION_LIMIT_def demo_settings_def)
qed

section \<open>Cards start their call once\<close>

inductive auto_runs :: "rpc_page \<Rightarrow> auto_state \<Rightarrow> bool" for pg where
  start: "auto_runs pg \<lparr>au_once = [], au_probeRan = [], au_pending = [], au_started = [], au_rpc = rs\<rparr>"
| commit: "auto_runs pg au \<Longrightarrow> length (au_once au) \<le> 2000 \<Longrightarrow> auto_runs pg (commit pg vw now cards au)"
| by_hand: "auto_runs pg au \<Longrightarrow> auto_runs pg (onRun pg vw now cd au)"

definition auto_inv :: "auto_state \<Rightarrow> bool" where
  "auto_inv au = (au_pending au = [] \<and> list_all snd (au_once au) \<and> distinct (au_started au) \<and> set (au_started au) = fst ` set (au_once au))"

lemma card_effects:
  assumes "wf_obj (au_pending au)" "list_all snd (au_once au)"
  shows "wf_obj (au_pending (foldl (card_effect vw now) au cds)) \<and> list_all snd (au_once (foldl (card_effect vw now) au cds)) \<and>
    fst ` set (au_pending (foldl (card_effect vw now) au cds)) = fst ` set (au_pending au) \<union> globalKey vw ` set cds \<and>
    fst ` set (au_once (foldl (card_effect vw now) au cds)) = fst ` set (au_once au) \<union> globalKey vw ` set cds \<and>
    au_started (foldl (card_effect vw now) au cds) = au_started au"
  using assms
proof (induction cds arbitrary: au)
  case (Cons cd cds)
  have "wf_obj (au_pending (card_effect vw now au cd))" "list_all snd (au_once (card_effect vw now au cd))"
    using Cons.prems by (simp_all add: card_effect_def wf_obj_put list_all_put)
  from Cons.IH [OF this] show ?case by (auto simp: card_effect_def dom_update)
qed simp

lemma commit_inv:
  assumes "auto_inv au" "length (au_once au) \<le> 2000"
  shows "auto_inv (commit pg vw now cards au) \<and>
    (\<forall>cd\<in>set cards. wants_auto vw cd \<longrightarrow> globalKey vw cd \<in> set (au_started (commit pg vw now cards au)) \<or> seen_in (au_probeRan au) (ackKey vw cd))"
proof -
  let ?new = "filter (\<lambda>cd. wants_auto vw cd \<and> \<not> alreadyRan vw cd au) cards"
  let ?au = "foldl (card_effect vw now) au ?new"
  have once: "globalAutoRunOnceMap (au_once au) = au_once au" using assms(2) by (simp add: globalAutoRunOnceMap_def)
  then have c: "commit pg vw now cards au = flush_pending pg ?au" by (simp add: commit_def Let_def)
  note e = card_effects [of au vw now ?new]
  have in_once: "opt_or (map_of (au_once au) k) False \<longleftrightarrow> k \<in> fst ` set (au_once au)" for k
    using assms(1) key_listed [of k "au_once au"] by (cases "map_of (au_once au) k") (auto simp: auto_inv_def list_all_iff dest: map_of_SomeD)
  then have "globalKey vw ` set ?new \<inter> fst ` set (au_once au) = {}" by (auto simp: alreadyRan_def)
  then have "auto_inv (flush_pending pg ?au)"
    using e assms(1) by (auto simp: auto_inv_def flush_pending_def)
  moreover have "globalKey vw cd \<in> set (au_started (flush_pending pg ?au)) \<or> seen_in (au_probeRan au) (ackKey vw cd)"
    if "cd \<in> set cards" "wants_auto vw cd" for cd
    using e assms(1) that in_once [of "globalKey vw cd"] by (auto simp: auto_inv_def flush_pending_def alreadyRan_def)
  ultimately show ?thesis by (simp add: c)
qed



end
