(* ===== verification/Client_Upkeep.thy ===== *)
theory Client_Upkeep
  imports Client_Auto_Run
begin

text \<open>
  The upkeep around an agent's calls: the timer of \<^verbatim>\<open>useConversationViewState.ts\<close> that removes media observers, and the effect of
  \<^verbatim>\<open>useRuntimeClientEffects.ts\<close> that fetches the artifacts of a session and reports whether they can be shown.
\<close>

section \<open>Observers of media are cleaned up\<close>

definition MEDIA_OBSERVER_TTL_MS :: rat where
  "MEDIA_OBSERVER_TTL_MS = 15 * 60 * 1000"

definition MEDIA_OBSERVER_MAX :: nat where
  "MEDIA_OBSERVER_MAX = 32"

text \<open>The timer of the view; a listing is taken before anything is removed.\<close>

definition expired :: "rat \<Rightarrow> RpcCleanupEntry \<Rightarrow> bool" where
  "expired now entry = (ce_kind entry = ''media_observe'' \<and> now - ce_lastActiveMs entry > MEDIA_OBSERVER_TTL_MS)"

definition observer_tick :: "rat \<Rightarrow> RpcCleanupEntry jsobj \<Rightarrow> RpcCleanupEntry jsobj" where
  "observer_tick now entries =
     (let left = obj_del_all entries (map fst (filter (\<lambda>p. expired now (snd p)) (js_entries entries)));
          activeMedia = filter (\<lambda>p. ce_kind (snd p) = ''media_observe'' \<and> \<not> expired now (snd p)) (js_entries entries)
      in if length activeMedia > MEDIA_OBSERVER_MAX
         then obj_del_all left (map fst (take (length activeMedia - MEDIA_OBSERVER_MAX) (js_sort (key_asc (\<lambda>p. ce_lastActiveMs (snd p))) activeMedia)))
         else left)"

lemma length_filter_mset: "mset xs = mset ys \<Longrightarrow> length (filter P xs) = length (filter P ys)"
  by (metis mset_filter size_mset)

lemma keys_after_take:
  assumes "distinct (map fst xs)"
  shows "filter (\<lambda>p. fst p \<notin> set (map fst (take n xs))) xs = drop n xs"
proof -
  have "distinct (map fst (take n xs) @ map fst (drop n xs))" using assms by (simp flip: map_append)
  then have "filter (\<lambda>p. fst p \<notin> set (map fst (take n xs))) (take n xs) = []" "filter (\<lambda>p. fst p \<notin> set (map fst (take n xs))) (drop n xs) = drop n xs"
    by (auto simp: filter_empty_conv filter_id_conv)
  then show ?thesis by (metis append_Nil append_take_drop_id filter_append)
qed

lemma wf_obj_inj: "wf_obj es \<Longrightarrow> p \<in> set es \<Longrightarrow> q \<in> set es \<Longrightarrow> fst p = fst q \<Longrightarrow> p = q"
  by (metis eq_key_imp_eq_value prod.collapse)

lemma del_all_where:
  assumes "wf_obj es"
  shows "obj_del_all es (map fst (filter P (js_entries es))) = filter (\<lambda>p. \<not> P p) es"
proof -
  have "fst p \<in> fst ` {q \<in> set es. P q} \<longleftrightarrow> P p" if "p \<in> set es" for p
    using wf_obj_inj [OF assms that] that by blast
  then show ?thesis unfolding obj_del_all_filter by (intro filter_cong refl) simp
qed

lemma observer_tick_eq:
  fixes entries :: "RpcCleanupEntry jsobj"
  assumes "wf_obj entries"
    and A: "A = filter (\<lambda>p. ce_kind (snd p) = ''media_observe'' \<and> \<not> expired now (snd p)) (js_entries entries)"
    and D: "D = set (map fst (take (length A - MEDIA_OBSERVER_MAX) (js_sort (key_asc (\<lambda>p. ce_lastActiveMs (snd p))) A)))"
  shows "observer_tick now entries = filter (\<lambda>p. \<not> expired now (snd p) \<and> fst p \<notin> D) entries"
proof -
  show ?thesis
    unfolding observer_tick_def Let_def del_all_where [OF assms(1)] A [symmetric]
    by (auto simp: obj_del_all_filter D conj_commute intro!: filter_cong)
qed

text \<open>After a tick no observer is overdue and at most 32 are left; everything else is still there.\<close>

lemma observer_tick_bound:
  assumes "wf_obj entries"
  shows "length (observers (observer_tick now entries)) \<le> MEDIA_OBSERVER_MAX \<and>
    (\<forall>p\<in>set (observer_tick now entries). p \<in> set entries \<and> \<not> expired now (snd p)) \<and>
    (\<forall>p\<in>set entries. ce_kind (snd p) \<noteq> ''media_observe'' \<longrightarrow> p \<in> set (observer_tick now entries))"
proof -
  define A where "A = filter (\<lambda>p. ce_kind (snd p) = ''media_observe'' \<and> \<not> expired now (snd p)) (js_entries entries)"
  define S where "S = js_sort (key_asc (\<lambda>p. ce_lastActiveMs (snd p))) A"
  define D where "D = set (map fst (take (length A - MEDIA_OBSERVER_MAX) S))"
  note eq = observer_tick_eq [OF assms A_def, of D, folded S_def, OF D_def]
  have "distinct (map fst A)" using assms by (simp add: A_def distinct_map_filter)
  then have d: "distinct (map fst S)" by (metis S_def mset_js_sort mset_map mset_eq_imp_distinct_iff)
  have "length (observers (observer_tick now entries)) = length (filter (\<lambda>p. fst p \<notin> D) A)"
    unfolding observers_def eq A_def length_map
    by (simp add: conj_ac length_filter_mset [OF mset_js_entries])
  also have "\<dots> = length (filter (\<lambda>p. fst p \<notin> D) S)" by (rule length_filter_mset) (simp add: S_def)
  also have "\<dots> \<le> MEDIA_OBSERVER_MAX" unfolding D_def keys_after_take [OF d] by (simp add: S_def)
  finally have b: "length (observers (observer_tick now entries)) \<le> MEDIA_OBSERVER_MAX" .
  have other: "fst p \<notin> D" if "p \<in> set entries" "ce_kind (snd p) \<noteq> ''media_observe''" for p
  proof
    assume "fst p \<in> D"
    then obtain q where "q \<in> set A" "fst q = fst p" unfolding D_def S_def by (force dest: in_set_takeD)
    then show False using that wf_obj_inj [OF assms that(1), of q] by (simp add: A_def)
  qed
  show ?thesis using b other by (auto simp: eq expired_def)
qed

section \<open>Artifacts\<close>

definition isAbsoluteLikePath :: "string \<Rightarrow> bool" where
  "isAbsoluteLikePath path =
     (case js_trim path of
        [] \<Rightarrow> False
      | c # cs \<Rightarrow> c = CHR ''/'' \<or>
          (97 \<le> (of_char (lower_char c) :: nat) \<and> (of_char (lower_char c) :: nat) \<le> 122 \<and> take 1 cs = '':'' \<and> drop 1 (take 2 cs) \<in> {[CHR 0x5C], ''/''}) \<or>
          (c = CHR 0x5C \<and> take 1 cs = [CHR 0x5C]))"

definition text_field :: "jsval \<Rightarrow> string \<Rightarrow> string" where
  "text_field v k = opt_or (as_str (js_get v k)) []"

definition artifact_text :: "jsval \<Rightarrow> string \<Rightarrow> string" where
  "artifact_text row k = str_or (text_field row k) (text_field (js_get row ''artifact'') k)"

definition artifact_paths :: "bool \<Rightarrow> jsval \<Rightarrow> string list" where
  "artifact_paths yolo row =
     (let path = artifact_text row ''path''; resolvedPath = artifact_text row ''resolved_path'';
          preferred = (if path \<noteq> [] \<and> \<not> isAbsoluteLikePath path then path else if yolo \<and> resolvedPath \<noteq> [] then resolvedPath else path);
          fallback = (if yolo \<and> preferred = path \<and> path \<noteq> [] \<and> \<not> isAbsoluteLikePath path \<and> resolvedPath \<noteq> [] \<and> isAbsoluteLikePath resolvedPath
                      then resolvedPath else [])
      in filter (\<lambda>p. js_trim p \<noteq> []) [preferred, fallback])"

definition artifact_rows :: "jsval list \<Rightarrow> jsval list" where
  "artifact_rows rows = take 8 (filter (\<lambda>row. text_field row ''tool_call_id'' \<noteq> [] \<and> isUnknownRecord (js_get row ''artifact'')) (take 32 rows))"

text \<open>The event posted for an artifact; \<^verbatim>\<open>title\<close> falls back to the path.\<close>

definition artifact_data :: "jsval \<Rightarrow> string option \<Rightarrow> (string \<times> jsval option) list \<Rightarrow> jsval" where
  "artifact_data row fetchPath rest =
     (let path = artifact_text row ''path'' in
      JObj (obj_of_opts ([(''path'', Some (JStr path)), (''resolved_path'', map_option JStr (non_empty (artifact_text row ''resolved_path''))),
        (''fetch_path'', map_option JStr fetchPath), (''kind'', Some (JStr (artifact_text row ''kind''))),
        (''title'', Some (JStr (str_or (artifact_text row ''title'') (str_or path ''artifact'')))),
        (''tool_call_id'', Some (JStr (js_trim (text_field row ''tool_call_id''))))] @ rest)))"

text \<open>Fetching gives the content type or an error. A report that cannot be posted counts as an error of its path.\<close>

fun artifact_try :: "rpc_page \<Rightarrow> (string \<Rightarrow> string + string) \<Rightarrow> bool \<Rightarrow> jsval \<Rightarrow> string list \<Rightarrow> string \<Rightarrow> rpc_state \<Rightarrow> rpc_state" where
  "artifact_try pg fetch yolo row [] lastErr rs =
     fst (post pg ''artifact_render_failed'' (artifact_data row (case artifact_paths yolo row of p # _ \<Rightarrow> Some p | [] \<Rightarrow> None)
       [(''error'', Some (JStr (str_or lastErr ''failed'')))]) rs)"
| "artifact_try pg fetch yolo row (p # ps) lastErr rs =
     (case fetch p of
        Inl e \<Rightarrow> artifact_try pg fetch yolo row ps e rs
      | Inr contentType \<Rightarrow>
          let (rs1, sent) = post pg ''artifact_rendered'' (artifact_data row (Some p) [(''content_type'', map_option JStr (non_empty (js_trim contentType)))]) rs in
          if sent then rs1 else artifact_try pg fetch yolo row ps (pg_postError pg) rs1)"

definition artifact_key :: "string \<Rightarrow> string \<Rightarrow> jsval \<Rightarrow> string option" where
  "artifact_key base sess row =
     (let toolCallId = js_trim (text_field row ''tool_call_id'') in
      if toolCallId = [] then None else Some (base @ ''::'' @ sess @ ''::'' @ toolCallId))"

definition artifact_effect ::
  "rpc_page \<Rightarrow> (string \<Rightarrow> string + string) \<Rightarrow> bool \<Rightarrow> bool \<Rightarrow> string \<Rightarrow> string \<Rightarrow> jsval list \<Rightarrow> bool jsobj \<times> rpc_state \<Rightarrow> bool jsobj \<times> rpc_state" where
  "artifact_effect pg fetch supported yolo base sessionId rows ts =
     (if \<not> supported \<or> js_trim sessionId = [] then ts
      else once_each (\<lambda>t k. opt_or (map_of t k) False) (\<lambda>t k. obj_put t k True) (artifact_key base (js_trim sessionId))
             (\<lambda>row. artifact_try pg fetch yolo row (artifact_paths yolo row) []) ts (artifact_rows rows))"

text \<open>A path outside the workspace is only fetched as a second choice when that is allowed, or when nothing else was given.\<close>

lemma artifact_paths_relative:
  assumes "\<not> yolo" "p \<in> set (artifact_paths yolo row)"
  shows "p = artifact_text row ''path''"
  using assms by (auto simp: artifact_paths_def Let_def split: if_splits)

lemma artifact_reported:
  assumes "\<And>n. \<not> pg_postFails pg n"
  shows "\<exists>e. rs_posted (artifact_try pg fetch yolo row ps lastErr rs) = rs_posted rs @ [e] \<and>
    (fst e = ''artifact_rendered'' \<longleftrightarrow> (\<exists>p\<in>set ps. \<exists>ct. fetch p = Inr ct)) \<and> fst e \<in> {''artifact_rendered'', ''artifact_render_failed''}"
proof (induction ps arbitrary: lastErr)
  case (Cons p ps)
  show ?case using Cons by (cases "fetch p") (auto simp: post_def assms)
qed (simp add: post_def assms)

end
