(* ===== verification/Spec2Isabelle.thy ===== *)
theory Spec2Isabelle
  imports Approval_Queue Broker_Events Sse Live_Log Scene_Cache Session_Scope Job_Store Workflow_Panel Runtime_Config Workflow_Defaults Workflow_Composer Profile_State History_Data Team_Run Run_Diff Session_Stream Run_Watch Run_Execution Client_Upkeep
begin

text \<open>
  A model of the web client of agent-c, the TypeScript program under \<^verbatim>\<open>src/ui/src\<close>. Each theory translates one or two of its modules,
  function by function and under the same names, and proves what makes them correct.

  \<^bold>\<open>The program and its parts.\<close> The client starts from settings merged from the page, the build and built-in
  defaults, keeps connection profiles with their secrets, starts jobs on a daemon and follows them over an event
  stream or by polling, follows the event stream of a session, records the jobs it watches in local storage
  and on the server, edits workflows as graphs and as JSON, shows task timelines and schedules, reads the
  history of a session, allocates agents to team runs, follows the events of a broker, decides on approvals and compares runs.

  \<^bold>\<open>The language.\<close> \<open>Js_Prelude\<close> holds JavaScript's values (\<open>jsval\<close>, numbers as rationals with the infinities and NaN),
  objects as association lists with the listing order of \<^verbatim>\<open>Object.keys\<close>, \<^verbatim>\<open>Array.sort\<close> as a stable insertion sort, truthiness,
  strict equality, and the generic lemmas and collections; \<open>Js_Text\<close> the string methods and the conversions between
  text and numbers; \<open>Js_Json\<close> \<^verbatim>\<open>JSON.parse\<close> and \<^verbatim>\<open>JSON.stringify\<close>; \<open>Json_Roundtrip\<close> that reading a written value
  gives it back. Characters are the 256 of the type \<open>char\<close>; double rounding is not modelled.

  \<^bold>\<open>Events and jobs.\<close>
  \<^item> \<open>Json_Utils\<close> (\<^verbatim>\<open>jsonUtils.ts\<close>): guarded parsing; the shape of typed rows as a locale.
  \<^item> \<open>Sse\<close> (\<^verbatim>\<open>sse.ts\<close>): the block parser and the buffer loop; chunking does not matter, the wire format is read exactly.
  \<^item> \<open>Live_Log\<close> (\<^verbatim>\<open>liveEvents.ts\<close>): locale \<open>bounded_log\<close>, interpreted by the live log, the session buffer and the log of broker events.
  \<^item> \<open>Job_Stream\<close> (\<^verbatim>\<open>hooks/useJobStreaming.ts\<close>): the effect that follows a job as a state machine. Its local variables are
    \<open>stream_state\<close>, the React state it writes \<open>job_view\<close>, each callback an action of \<open>handle\<close>. Against a daemon with a growing
    log the live log is exact, whatever interleaving; jobs end exactly when their end is learnt; what happens after the cleanup.
  \<^item> \<open>Session_Stream\<close> (\<^verbatim>\<open>hooks/useSessionEventStreaming.ts\<close>): the persisted buffer, its storage and the reconnecting loop; exact across
    replays, reloads and failed writes.
  \<^item> \<open>Run_Execution\<close> (\<^verbatim>\<open>hooks/useRunExecution.ts\<close>): the request of a run, its tool limits, and the queue of prompts, which is first in, first out.
  \<^item> \<open>Job_Store\<close> (\<^verbatim>\<open>runWatchPrefs.ts\<close>, \<^verbatim>\<open>jobStore.ts\<close>): the table of watched jobs; pruning keeps the newest, merging is last-writer-wins (locale \<open>lww_merge\<close>).
  \<^item> \<open>Run_Watch\<close> (\<^verbatim>\<open>hooks/useRunWatchState.ts\<close>): the stored table, the writer behind a timer, restoring a job, saving its cursor.
  \<^item> \<open>Scene_Cache\<close> (\<^verbatim>\<open>sceneCache.ts\<close>): the cache is least-recently-used. \<open>Session_Scope\<close> (\<^verbatim>\<open>sessionScope.ts\<close>, \<^verbatim>\<open>utils/brokerBase.ts\<close>): scope keys are injective.
  \<^item> this theory: a run that is started is followed from its first event, which joins \<open>Run_Execution\<close> and \<open>Job_Stream\<close>; a job is followed across a reload without losing an event, which joins \<open>Run_Watch\<close>, \<open>Job_Store\<close>, \<open>Json_Roundtrip\<close> and \<open>Job_Stream\<close>.

  \<^bold>\<open>What an agent may do to the page.\<close>
  \<^item> \<open>Conversation_Data\<close> (\<^verbatim>\<open>components/conversation/conversationData.ts\<close>): requested actions with their permissions, scene operations, summaries.
  \<^item> \<open>Scene_Ops\<close> (\<^verbatim>\<open>hooks/useRuntimeClientEffects.ts\<close>): the scenes in the cache of \<open>Scene_Cache\<close> stay well formed; operations on different entities do not interfere.
  \<^item> \<open>Client_Rpc\<close> (\<^verbatim>\<open>conversationRpcExecutor.ts\<close>, \<^verbatim>\<open>utils.ts\<close>): checks, dispatch and reports of a call. The browser, the handlers that only read or write the
    document and the agent's own code are the fields of \<open>rpc_page\<close>; what the page is made to do is the trace \<open>rs_effects\<close>. Every call is answered once.
  \<^item> \<open>Client_Auto_Run\<close> (\<^verbatim>\<open>useConversationUiActionRpcState.ts\<close>, \<^verbatim>\<open>useConversationViewState.ts\<close>, the replay of stored actions): nothing happens without permission, and
    what runs by itself runs once (locale \<open>seen_table\<close>, interpreted by the bounded tables). \<open>Client_Upkeep\<close>: observers and artifact reports.

  \<^bold>\<open>Workflows.\<close>
  \<^item> \<open>Workflow_Levels\<close>: the depth-first level search the graph editor and the timeline share, equal to the longest chain.
  \<^item> \<open>Workflow_Graph\<close> (\<^verbatim>\<open>workflowGraph.ts\<close>): layout, export, import, clamping; export and import are inverse on clean graphs.
  \<^item> \<open>Workflow_Panel\<close> (\<^verbatim>\<open>components/workflow/workflowPanelUtils.ts\<close>): rows, timeline, validation of cron expressions and schedules; what the editor builds can be scheduled.
  \<^item> \<open>Workflow_Defaults\<close> (\<^verbatim>\<open>workflowDefaults.ts\<close>): the defaults sent with a workflow are well typed.
  \<^item> \<open>Workflow_Composer\<close> (\<^verbatim>\<open>components/workflowComposer\<close>): templates, and the synchronised table of awaited workflows, a second instance of \<open>lww_merge\<close>.

  \<^bold>\<open>Settings, history, teams, runs.\<close>
  \<^item> \<open>Runtime_Config\<close> (\<^verbatim>\<open>runtime_config.ts\<close>): start-up settings, typed, with the precedence of their sources.
  \<^item> \<open>Connection_Profiles\<close>, \<open>Profile_State\<close> (\<^verbatim>\<open>hooks/uiSettingsProfiles.ts\<close>, \<^verbatim>\<open>hooks/useUiConnectionProfileState.ts\<close> and the hooks that write through them): no
    secret reaches local storage or the server, updates read back, the server's copy merges back exactly.
  \<^item> \<open>History_Data\<close> (\<^verbatim>\<open>history/historyPanelData.ts\<close>): row normalisers (locale \<open>row_reader\<close>) and the persisted conversation.
  \<^item> \<open>Team_Run\<close> (\<^verbatim>\<open>components/broker/teamRunUtils.ts\<close>): exact allocation of agents to roles.
  \<^item> \<open>Run_Diff\<close> (\<^verbatim>\<open>components/runDiff/runDiffUtils.ts\<close>): the bounded comparison of two runs, exact within its bounds.

  \<^item> \<open>Approval_Queue\<close> (\<^verbatim>\<open>components/approvalQueue/useApprovalQueueState.ts\<close>): the queue of approvals, its callbacks cut at their awaits, each request in flight
    with the closure it was started from; decisions are made on what is shown, unless a second approval is opened meanwhile.
  \<^item> \<open>Broker_Events\<close> (\<^verbatim>\<open>components/broker/useBrokerEventsState.ts\<close>, \<^verbatim>\<open>brokerPanelUtils.ts\<close>): the log of broker events and its cursor, the effects of a render run
    in order; the log is bounded without repetitions, and the cursor never moves back on one broker.

  \<^bold>\<open>Bounds and fuel.\<close> The level search takes one more unit of fuel than there are nodes, which is enough because a path without a repeated node is no
  longer; the theorems about it prove that it returns. The JSON parser takes \<open>2 * length + 2\<close>, and \<open>json_value_fuel\<close> shows that more changes nothing. The depth of the run
  comparison is the code's own limit of 12. Event indices stay below \<open>2 ^ 53\<close> and stored times below \<open>10 ^ 18\<close>, where the code's numbers are exact integers.

  \<^bold>\<open>Parameters.\<close> What the client only calls is an argument: \<^verbatim>\<open>localeCompare\<close> (\<open>collate\<close>), \<^verbatim>\<open>new URL\<close> and the page's protocol (\<open>page\<close>), fresh identifiers, the clock,
  the local time format, whether React runs an updater at once (\<open>eager\<close>), the schema library (\<open>se_eventSchema\<close>, \<open>se_runSchema\<close>), the daemon's log and its wire text,
  the session server's replay.

  \<^bold>\<open>Not modelled.\<close> React components (\<^verbatim>\<open>.tsx\<close>) render what these modules compute. \<^verbatim>\<open>api/\<close> is one HTTP request per endpoint. The remaining hooks of \<^verbatim>\<open>hooks/\<close> and
  \<^verbatim>\<open>components/\<close> (the other broker panels, memory explorer, settings drawer, team chat) are form state around such requests; the document
  handlers of \<^verbatim>\<open>conversationRpcExecutor.ts\<close> (\<^verbatim>\<open>dom_query\<close>, \<^verbatim>\<open>dom_apply\<close>, \<^verbatim>\<open>media_play\<close> and the like) act on the browser and are parameters. The vendored \<^verbatim>\<open>ref/claude-mem\<close> is not part of the program; the daemon, broker and core are written in other
  languages. Of the modelled hooks, React's scheduling of effects is not modelled beyond the order of their actions (and of the effects of a render in \<open>Broker_Events\<close>).
\<close>

section \<open>A job followed across a reload\<close>

text \<open>
  C4. A reload of the page loses no event of the active job: once its cursor was saved, the page that is opened again within the
  table's lifetime asks the daemon about the same job with the same cursor, and when the job is still
  queued or running its live log then holds exactly the newest 2000 events from that cursor (or a
  later reset) on, however stream and polling interleave.
\<close>

theorem reloaded_job_log:
  assumes "watching w key j now'" "jv_activeJobId v = Some j" "j \<noteq> []" "jv_cursor v = Fin (of_nat c)" "c \<le> length evs"
    and "json_ok (JNum (Fin now))" "now' - now \<le> JOB_STORE_TTL_MS" "js_trim sess \<noteq> []"
    and "jr_ok resp" "jr_status resp \<in> {Some ''queued'', Some ''running''}" "daemon_wire env evs wire"
    and job: "snd (restore_start canUse' now' None sess key (snd (cursor_tick canUse now sess key (v, w)))) = Some job"
    and v1: "v1 = fst (restore_answer canUse' now' key job resp (v0, w0))"
    and "runs env evs wire v1 c (v2, st) (i, f)"
  shows "job = (j, c) \<and> jv_activeJobId v1 = Some j \<and>
    (\<exists>c'. f \<le> c' \<and> c' \<le> length evs \<and> jv_cursor v2 = Fin (of_nat c') \<and> jv_liveEvents v2 = newest LIVE_EVENTS_MAX (drop f (take c' evs)))"
proof -
  have "length evs < 2 ^ 53" using assms(11) by (simp add: daemon_wire_def)
  then have "c < 10 ^ 18" using assms(5) by simp
  then have j: "job = (j, c)" using resume_after_tick [OF assms(1-4) _ assms(6-8)] job by simp
  then have "jv_activeJobId v1 = Some j" "jv_cursor v1 = Fin (of_nat c)" "jv_liveEvents v1 = []"
    using assms(9,10) by (simp_all add: v1 restore_answer_def)
  moreover from this have "run_inv evs (v2, st) (i, f)" using assms(5,11,14) by (intro runs_inv)
  ultimately show ?thesis using j by (fastforce simp: run_inv_def shows_log_def)
qed

definition saved_watch :: watch_state where
  "saved_watch = demo_watch\<lparr>ws_json := table_json [(''k'', JObj [(''job_id'', JStr ''job-1'')])]\<rparr>"

definition running_answer :: JobResp where
  "running_answer = demo_answer\<lparr>jr_status := Some ''running''\<rparr>"

theorem reloaded_job_log_witness:
  "\<exists>v2 st. runs demo_env [JBool True, JBool False] demo_wire
       (fst (restore_answer True 2 ''k'' (''job-1'', 0) running_answer (demo_view\<lparr>jv_activeJobId := None\<rparr>, demo_watch))) 0 (v2, st) (0, 0) \<and>
     jv_liveEvents v2 = []"
proof -
  let ?m = "[(''k'', JObj [(''job_id'', JStr ''job-1'')])]"
  let ?v1 = "fst (restore_answer True 2 ''k'' (''job-1'', 0) running_answer (demo_view\<lparr>jv_activeJobId := None\<rparr>, demo_watch))"
  have "parseRunWatchByScope (load_value (ws_json saved_watch)) = ?m"
    unfolding saved_watch_def demo_watch_def by code_simp
  then have w: "watching saved_watch ''k'' ''job-1'' 2"
    by (simp add: watching_def fresh_job_def job_ts_def)
  have s: "js_trim ''s'' \<noteq> []" by (simp add: js_trim_eval)
  have v: "jv_activeJobId demo_view = Some ''job-1''" "jv_cursor demo_view = Fin (of_nat 0)" by (simp_all add: demo_view_def)
  have r: "jr_ok running_answer" "jr_status running_answer \<in> {Some ''queued'', Some ''running''}"
    by (simp_all add: running_answer_def demo_answer_def)
  have job: "snd (restore_start True 2 None ''s'' ''k'' (snd (cursor_tick True 1 ''s'' ''k'' (demo_view, saved_watch)))) = Some (''job-1'', 0)"
    by (rule resume_after_tick [OF w v(1) _ v(2)]) (simp_all add: s JOB_STORE_TTL_MS_def)
  obtain v2 st where st: "start_stream demo_env False ?v1 = (v2, st)" by (cases "start_stream demo_env False ?v1")
  have runs: "runs demo_env [JBool True, JBool False] demo_wire ?v1 0 (v2, st) (0, 0)"
    using runs.start [of demo_env _ demo_wire ?v1 0 False] by (simp add: st)
  have "\<exists>c'. 0 \<le> c' \<and> c' \<le> length [JBool True, JBool False] \<and> jv_cursor v2 = Fin (of_nat c') \<and>
      jv_liveEvents v2 = newest LIVE_EVENTS_MAX (drop 0 (take c' [JBool True, JBool False]))"
    using reloaded_job_log [OF w v(1) _ v(2) _ _ _ s r demo_wire_ok job refl runs] by (simp add: JOB_STORE_TTL_MS_def)
  moreover have "jv_cursor v2 = Fin (of_nat 0)"
    using st r by (auto simp: start_stream_def restore_answer_def running_answer_def demo_answer_def stream_view_def Let_def split: if_splits)
  ultimately have "jv_liveEvents v2 = []" by auto
  with runs show ?thesis by blast
qed

section \<open>A run followed from its start\<close>

text \<open>
  C6. A run the daemon has accepted is followed from its first event: whatever was shown before, the streaming effect starts with an
  empty log and cursor 0 for the new job, and until the log is reset what it shows is exactly the newest
  2000 of the events up to its cursor; the run's entry is in the table under its scope.
\<close>

theorem started_run_log:
  assumes "rx_pending rx = Some (vars, from)" "ra_ok resp" "ra_job_id resp = Some j" "j \<noteq> []" "js_trim sess \<noteq> []"
    and v1: "v1 = rx_view (run_settled now sess key (AsyncDone resp) rx)"
    and "daemon_wire env evs wire" "runs env evs wire v1 0 (v2, st) (i, f)"
  shows "jv_activeJobId v1 = Some j \<and> obj_get (jv_jobs v1) key = started_entry now j \<and>
    (\<exists>c. f \<le> c \<and> c \<le> length evs \<and> jv_cursor v2 = Fin (of_nat c) \<and> jv_liveEvents v2 = newest LIVE_EVENTS_MAX (drop f (take c evs)))"
proof -
  have v: "jv_activeJobId v1 = Some j" "obj_get (jv_jobs v1) key = started_entry now j" "jv_cursor v1 = Fin (of_nat 0)" "jv_liveEvents v1 = []"
    using assms(1-5) by (simp_all add: v1 run_settled_def run_async_done_def obj_get_put Let_def)
  then have "run_inv evs (v2, st) (i, f)" by (intro runs_inv [OF assms(8,7)] le0)
  with v show ?thesis by (fastforce simp: run_inv_def shows_log_def)
qed

theorem started_run_log_witness:
  "\<exists>rx v2 st. runs demo_env [JBool True, JBool False] demo_wire rx 0 (v2, st) (0, 0) \<and> jv_activeJobId rx = Some ''job-2'' \<and>
     obj_get (jv_jobs rx) ''k'' = started_entry 7 ''job-2''"
proof -
  let ?resp = "\<lparr>ra_ok = True, ra_job_id = Some ''job-2'', ra_error = None\<rparr>"
  let ?rx = "demo_run_state\<lparr>rx_pending := Some (\<lparr>vr_prompt = ''p'', vr_attachments = []\<rparr>, None)\<rparr>"
  let ?v1 = "rx_view (run_settled 7 ''s'' ''k'' (AsyncDone ?resp) ?rx)"
  obtain v2 st where st: "start_stream demo_env False ?v1 = (v2, st)" by (cases "start_stream demo_env False ?v1")
  have runs: "runs demo_env [JBool True, JBool False] demo_wire ?v1 0 (v2, st) (0, 0)"
    using runs.start [of demo_env _ demo_wire ?v1 0 False] by (simp add: st)
  have "js_trim ''s'' \<noteq> []" by (simp add: js_trim_eval)
  from started_run_log [OF _ _ _ _ this refl demo_wire_ok runs] show ?thesis using runs by auto
qed

end
